(* ===== verification/Prelude.thy ===== *)
theory Prelude
  imports Main
begin

text \<open>
  Shared vocabulary of the development: Go's \<open>uint64\<close> arithmetic, results that may be a
  panic, bounds-checked slice operations, and the quorum interface. Nothing here is specific
  to Raft; the component theories import it and rely on its simplification rules.
\<close>

section \<open>Collections of facts\<close>

named_theorems go_simps \<open>evaluation of Go operations whose bounds are known to hold\<close>
named_theorems wf_dests \<open>consequences of well-formedness predicates\<close>

section \<open>Unsigned 64-bit arithmetic\<close>

text \<open>
  Terms, log indexes and thresholds are \<open>uint64\<close> in the source. They are modelled as natural
  numbers; addition and subtraction are written out with their wrap-around.
\<close>

definition u64_size :: nat where
  "u64_size = 2 ^ 64"

definition u64_add :: "nat \<Rightarrow> nat \<Rightarrow> nat" where
  "u64_add a b = (a + b) mod u64_size"

definition u64_sub :: "nat \<Rightarrow> nat \<Rightarrow> nat" where
  "u64_sub a b = (if b \<le> a then a - b else u64_size - (b - a))"

section \<open>Results that may be a panic or an error\<close>

text \<open>
  A fallible computation is a value of a sum type, \<open>Inl\<close> for the panic or error. Sequencing
  stops at the first \<open>Inl\<close>.
\<close>

definition bind_res :: "'e + 'a \<Rightarrow> ('a \<Rightarrow> 'e + 'b) \<Rightarrow> 'e + 'b" where
  "bind_res m f = (case m of Inl e \<Rightarrow> Inl e | Inr x \<Rightarrow> f x)"

definition isOk :: "'e + 'a \<Rightarrow> bool" where
  "isOk m = (case m of Inl _ \<Rightarrow> False | Inr _ \<Rightarrow> True)"

text \<open>\<open>ensures P Q m\<close>: a failure of \<open>m\<close> satisfies \<open>P\<close>, a result satisfies \<open>Q\<close>.\<close>

definition ensures :: "('e \<Rightarrow> bool) \<Rightarrow> ('a \<Rightarrow> bool) \<Rightarrow> 'e + 'a \<Rightarrow> bool" where
  "ensures P Q m = (case m of Inl e \<Rightarrow> P e | Inr x \<Rightarrow> Q x)"

text \<open>The panics of the Go run time that indexing and slicing can raise.\<close>

datatype rt_panic = IndexOutOfRange | SliceOutOfRange

text \<open>\<open>xs[i]\<close>, \<open>xs[i:]\<close> and \<open>xs[:i]\<close>, for a slice whose capacity is its length.\<close>

definition go_index :: "'a list \<Rightarrow> nat \<Rightarrow> rt_panic + 'a" where
  "go_index xs i = (if i < length xs then Inr (xs ! i) else Inl IndexOutOfRange)"

definition go_last :: "'a list \<Rightarrow> rt_panic + 'a" where
  "go_last xs = (if xs = [] then Inl IndexOutOfRange else Inr (last xs))"

definition go_slice_from :: "'a list \<Rightarrow> nat \<Rightarrow> rt_panic + 'a list" where
  "go_slice_from xs i = (if i \<le> length xs then Inr (drop i xs) else Inl SliceOutOfRange)"

definition go_slice_to :: "'a list \<Rightarrow> nat \<Rightarrow> rt_panic + 'a list" where
  "go_slice_to xs i = (if i \<le> length xs then Inr (take i xs) else Inl SliceOutOfRange)"

text \<open>Reading a Go map: a missing key (and a nil map) gives the zero value.\<close>

definition map_get :: "('k \<rightharpoonup> nat) \<Rightarrow> 'k \<Rightarrow> nat" where
  "map_get m k = (case m k of None \<Rightarrow> 0 | Some v \<Rightarrow> v)"

section \<open>Quorums\<close>

text \<open>
  What every use of a majority relies on: the members are finitely many and twice the quorum
  size exceeds their number.
\<close>

locale quorum_system =
  fixes members :: "'a set"
    and qsize :: nat
  assumes finite_members: "finite members"
    and majority: "card members < 2 * qsize"
begin

lemma quorums_intersect:
  assumes "A \<subseteq> members" and "B \<subseteq> members"
    and "qsize \<le> card A" and "qsize \<le> card B"
  shows "A \<inter> B \<noteq> {}"
proof
  assume disj: "A \<inter> B = {}"
  have fin: "finite A" "finite B"
    using assms(1,2) finite_members finite_subset by blast+
  then have "card A + card B = card (A \<union> B)"
    using disj by (simp add: card_Un_disjoint)
  also have "\<dots> \<le> card members"
    using assms(1,2) finite_members by (simp add: card_mono)
  finally show False
    using assms(3,4) majority by simp
qed

lemma quorums_share_member:
  assumes "A \<subseteq> members" and "B \<subseteq> members"
    and "qsize \<le> card A" and "qsize \<le> card B"
  obtains x where "x \<in> A" and "x \<in> B"
  using quorums_intersect [OF assms] by blast

end

section \<open>Lemmas on 64-bit arithmetic\<close>

lemma u64_add_small [go_simps]: "a + b < u64_size \<Longrightarrow> u64_add a b = a + b"
  by (simp add: u64_add_def)

lemma u64_add_Suc0 [go_simps]: "Suc a < u64_size \<Longrightarrow> u64_add a (Suc 0) = Suc a"
  by (simp add: u64_add_def)

lemma u64_add_bound: "u64_add a b < u64_size"
  by (simp add: u64_add_def u64_size_def)

lemma u64_sub_ge [go_simps]: "b \<le> a \<Longrightarrow> u64_sub a b = a - b"
  by (simp add: u64_sub_def)

lemma u64_sub_wrap: "a < b \<Longrightarrow> u64_sub a b = u64_size - (b - a)"
  by (simp add: u64_sub_def)

lemma u64_sub_bound: "a < u64_size \<Longrightarrow> b < u64_size \<Longrightarrow> u64_sub a b < u64_size"
  by (auto simp: u64_sub_def)

lemma u64_size_pos [simp]: "0 < u64_size"
  by (simp add: u64_size_def)

section \<open>Lemmas on results\<close>

lemma bind_res_simps [simp]:
  "bind_res (Inl e) f = Inl e"
  "bind_res (Inr x) f = f x"
  by (simp_all add: bind_res_def)

lemma bind_res_Inr_iff: "bind_res m f = Inr y \<longleftrightarrow> (\<exists>x. m = Inr x \<and> f x = Inr y)"
  by (cases m) auto

lemma bind_res_Inl_iff:
  "bind_res m f = Inl e \<longleftrightarrow> m = Inl e \<or> (\<exists>x. m = Inr x \<and> f x = Inl e)"
  by (cases m) auto

lemma bind_res_InrE:
  assumes "bind_res m f = Inr y"
  obtains x where "m = Inr x" and "f x = Inr y"
  using assms by (auto simp: bind_res_Inr_iff)

lemma bind_res_cong [fundef_cong]:
  "m = m' \<Longrightarrow> (\<And>x. m' = Inr x \<Longrightarrow> f x = f' x) \<Longrightarrow> bind_res m f = bind_res m' f'"
  by (cases m') auto

lemma bind_res_assoc: "bind_res (bind_res m f) g = bind_res m (\<lambda>x. bind_res (f x) g)"
  by (cases m) auto

lemma isOk_simps [simp]: "isOk (Inr x)" "\<not> isOk (Inl e)"
  by (simp_all add: isOk_def)

lemma isOk_iff: "isOk m \<longleftrightarrow> (\<exists>x. m = Inr x)"
  by (cases m) auto

lemma ensures_simps [simp]:
  "ensures P Q (Inl e) = P e"
  "ensures P Q (Inr x) = Q x"
  by (simp_all add: ensures_def)

lemma ensures_bind:
  assumes "ensures P Q m" and "\<And>x. m = Inr x \<Longrightarrow> Q x \<Longrightarrow> ensures P R (f x)"
  shows "ensures P R (bind_res m f)"
  using assms by (cases m) auto

lemma ensures_mono:
  assumes "ensures P Q m" and "\<And>e. P e \<Longrightarrow> P' e" and "\<And>x. m = Inr x \<Longrightarrow> Q x \<Longrightarrow> Q' x"
  shows "ensures P' Q' m"
  using assms by (cases m) auto

lemma ensures_InrD: "ensures P Q m \<Longrightarrow> m = Inr x \<Longrightarrow> Q x"
  by simp

lemma ensures_InlD: "ensures P Q m \<Longrightarrow> m = Inl e \<Longrightarrow> P e"
  by simp

lemma ensuresI: "(\<And>e. m = Inl e \<Longrightarrow> P e) \<Longrightarrow> (\<And>x. m = Inr x \<Longrightarrow> Q x) \<Longrightarrow> ensures P Q m"
  by (cases m) auto

section \<open>Lemmas on slices and maps\<close>

lemma go_index_in [go_simps]: "i < length xs \<Longrightarrow> go_index xs i = Inr (xs ! i)"
  by (simp add: go_index_def)

lemma go_index_out: "length xs \<le> i \<Longrightarrow> go_index xs i = Inl IndexOutOfRange"
  by (simp add: go_index_def)

lemma go_last_in [go_simps]: "xs \<noteq> [] \<Longrightarrow> go_last xs = Inr (last xs)"
  by (simp add: go_last_def)

lemma go_slice_from_in [go_simps]: "i \<le> length xs \<Longrightarrow> go_slice_from xs i = Inr (drop i xs)"
  by (simp add: go_slice_from_def)

lemma go_slice_to_in [go_simps]: "i \<le> length xs \<Longrightarrow> go_slice_to xs i = Inr (take i xs)"
  by (simp add: go_slice_to_def)

lemma map_get_upd [simp]: "map_get (m(k \<mapsto> v)) k' = (if k' = k then v else map_get m k')"
  by (simp add: map_get_def)

lemma map_get_empty [simp]: "map_get Map.empty k = 0"
  by (simp add: map_get_def)

section \<open>Majorities of a member list\<close>

interpretation majority: quorum_system "set ns" "length ns div 2 + 1" for ns :: "'a list"
proof unfold_locales
  show "finite (set ns)" by simp
  have "card (set ns) \<le> length ns" by (rule card_length)
  then show "card (set ns) < 2 * (length ns div 2 + 1)" by arith
qed

end
