(* ===== verification/Raft_Types.thy ===== *)
theory Raft_Types
  imports Prelude
begin

text \<open>
  The data of package \<open>raft\<close>: log entries, hard state, snapshots, the arguments and replies of
  the three RPCs (\<^verbatim>\<open>raft/types.go\<close>, \<^verbatim>\<open>raft/node.go\<close>), the storage interfaces a node is
  configured with, and the node itself. The storage interfaces are records of functions on a
  state of type \<open>'d\<close>, as the Go interfaces hide theirs; the contracts are locales of
  the theory \<open>Raft_Stores\<close>.
\<close>

section \<open>Identifiers, bytes and errors\<close>

text \<open>A nil slice and an empty one are the same list; a nil byte slice is the empty string.\<close>

type_synonym bytes = string
type_synonym node_id = string
type_synonym err = string

text \<open>The sentinel \<open>None\<close> of \<^verbatim>\<open>raft/node.go\<close>: no vote cast, no known leader.\<close>

definition NoID :: node_id where
  "NoID = ''''"

section \<open>Log entries, hard state, snapshots\<close>

record LogEntry =
  Term :: nat
  Index :: nat
  Command :: bytes

record HardState =
  CurrentTerm :: nat
  VotedFor :: node_id

record Snapshot =
  LastIncludedIndex :: nat
  LastIncludedTerm :: nat
  Data :: bytes

section \<open>RPC arguments and replies\<close>

record RequestVoteArgs =
  rva_Term :: nat
  rva_CandidateID :: node_id
  rva_LastLogIndex :: nat
  rva_LastLogTerm :: nat

record RequestVoteReply =
  rvr_Term :: nat
  rvr_VoteGranted :: bool

record AppendEntriesArgs =
  aea_Term :: nat
  aea_LeaderID :: node_id
  aea_PrevLogIndex :: nat
  aea_PrevLogTerm :: nat
  aea_Entries :: "LogEntry list"
  aea_LeaderCommit :: nat

record AppendEntriesReply =
  aer_Term :: nat
  aer_Success :: bool
  aer_ConflictIndex :: nat
  aer_ConflictTerm :: nat

record InstallSnapshotArgs =
  isa_Term :: nat
  isa_LeaderID :: node_id
  isa_LastIncludedIndex :: nat
  isa_LastIncludedTerm :: nat
  isa_Offset :: nat
  isa_Data :: bytes
  isa_Done :: bool

record InstallSnapshotReply =
  isr_Term :: nat

section \<open>Storage interfaces\<close>

text \<open>
  A mutating call returns the storage state it leaves behind together with its error, nil as
  \<open>None\<close>: a call that fails may still have changed the disk. \<open>LoadEntries\<close> also returns a
  state because it chops a torn tail off the log file.
\<close>

record 'd StateStore =
  SaveHardState :: "HardState \<Rightarrow> 'd \<Rightarrow> 'd \<times> err option"
  LoadHardState :: "'d \<Rightarrow> err + HardState option"

record 'd LogStoreOps =
  AppendEntries :: "LogEntry list \<Rightarrow> 'd \<Rightarrow> 'd \<times> err option"
  TruncateSuffix :: "nat \<Rightarrow> 'd \<Rightarrow> 'd \<times> err option"
  LoadEntries :: "'d \<Rightarrow> 'd \<times> (err + LogEntry list)"
  Compact :: "LogEntry list \<Rightarrow> 'd \<Rightarrow> 'd \<times> err option"

record 'd SnapshotStoreOps =
  SaveSnapshot :: "Snapshot \<Rightarrow> 'd \<Rightarrow> 'd \<times> err option"
  LoadSnapshot :: "'d \<Rightarrow> err + Snapshot option"

section \<open>Configuration\<close>

text \<open>
  An interface field that may be nil is an \<open>option\<close>. Durations are \<open>int\<close> nanoseconds. The
  transport is only compared with nil by the node, so a flag stands for it; the logger has no
  effect on the state.
\<close>

record 'd Config =
  ID :: node_id
  Peers :: "node_id list"
  Store :: "'d StateStore option"
  LogStore :: "'d LogStoreOps option"
  SnapshotStore :: "'d SnapshotStoreOps option"
  SnapshotThreshold :: nat
  Transport :: bool
  ElectionTimeoutMin :: int
  ElectionTimeoutMax :: int
  HeartbeatInterval :: int
  RPCTimeout :: int

definition Millisecond :: int where
  "Millisecond = 1000000"

definition withDefaults :: "'d Config \<Rightarrow> 'd Config" where
  "withDefaults c =
     c\<lparr>ElectionTimeoutMin := (if ElectionTimeoutMin c = 0 then 150 * Millisecond else ElectionTimeoutMin c),
       ElectionTimeoutMax := (if ElectionTimeoutMax c = 0 then 300 * Millisecond else ElectionTimeoutMax c),
       HeartbeatInterval := (if HeartbeatInterval c = 0 then 50 * Millisecond else HeartbeatInterval c),
       RPCTimeout := (if RPCTimeout c = 0 then 100 * Millisecond else RPCTimeout c)\<rparr>"

section \<open>The node\<close>

datatype State = Follower | Candidate | Leader

primrec State_String :: "State \<Rightarrow> string" where
  "State_String Follower = ''Follower''"
| "State_String Candidate = ''Candidate''"
| "State_String Leader = ''Leader''"

text \<open>
  One goroutine that waits for the answer to a \<open>RequestVote\<close> call: the election's term, the
  peer called and the arguments sent.
\<close>

record VoteCall =
  vc_term :: nat
  vc_peer :: node_id
  vc_args :: RequestVoteArgs

text \<open>
  \<open>RaftNode\<close>, field for field. Beside the struct's own fields it holds what its goroutines
  hold: \<open>votes\<close> is the vote counter captured by the reply goroutines of the election of each
  term, \<open>voteCalls\<close> those goroutines, \<open>replicators\<close> the terms whose replication loop runs.
  \<open>disk\<close> is the state behind the storage interfaces; \<open>stateMachine\<close> records whether one is
  wired; \<open>triggerCh\<close> whether the buffered channel holds a kick.
\<close>

record 'd RaftNode =
  cfg :: "'d Config"
  node_id :: node_id
  peers :: "node_id list"
  currentTerm :: nat
  votedFor :: node_id
  log :: "LogEntry list"
  commitIndex :: nat
  lastApplied :: nat
  nextIndex :: "node_id \<rightharpoonup> nat"
  matchIndex :: "node_id \<rightharpoonup> nat"
  state :: State
  leaderID :: node_id
  electionResetAt :: int
  electionTimeout :: int
  stateMachine :: bool
  pendingSnapshot :: "Snapshot option"
  initialSnapshotData :: "bytes option"
  triggerCh :: bool
  started :: bool
  stopped :: bool
  votes :: "nat \<Rightarrow> nat"
  voteCalls :: "VoteCall list"
  replicators :: "nat list"
  disk :: 'd

text \<open>
  What a panic reports: a run-time panic, or one of the fail-stop panics of the source with
  the store's error.
\<close>

datatype panic =
    RunTime rt_panic
  | NilDereference
  | PersistHardState err
  | PersistLogEntries err
  | PersistTruncation err
  | CompactLog err
  | PersistSnapshot err
  | PersistInstalledSnapshot err
  | CompactForSnapshot err
  | TruncateCommitted nat nat
  | SerializeSnapshot err
  | RestoreSnapshot err
  | SetStateMachineAfterStart

text \<open>A panic ends the process; what survives is the disk as the panic left it.\<close>

type_synonym ('d, 'a) outcome = "(panic \<times> 'd) + 'a"

definition rt :: "'d RaftNode \<Rightarrow> rt_panic + 'a \<Rightarrow> ('d, 'a) outcome" where
  "rt rn m = (case m of Inl p \<Rightarrow> Inl (RunTime p, disk rn) | Inr x \<Rightarrow> Inr x)"

text \<open>
  \<open>time.Now()\<close> and the random draw of \<open>rand.N\<close>, inputs to the operations that restart the
  election timer.
\<close>

record Clock =
  now :: int
  draw :: int

lemma rt_simps [simp]: "rt rn (Inr x) = Inr x" "rt rn (Inl p) = Inl (RunTime p, disk rn)"
  by (simp_all add: rt_def)

end
