(* ===== verification/Raft_Node.thy ===== *)
theory Raft_Node
  imports Raft_Types
begin

text \<open>
  The operations of \<^verbatim>\<open>raft/node.go\<close>: access to the log through its sentinel, the durable
  mutations of the log and of the hard state, stepping down, recovery of a node from its
  stores (\<open>NewNode\<close>), \<open>Start\<close>, \<open>Stop\<close> and \<open>Status\<close>. Every index that Go would check is
  checked here, so a panic of the source is an \<open>Inl\<close> of the model; the lemmas give the value
  of each operation on a well-formed log.
\<close>

section \<open>Reading the log\<close>

definition lastLogIndex :: "'d RaftNode \<Rightarrow> ('d, nat) outcome" where
  "lastLogIndex rn = bind_res (rt rn (go_last (log rn))) (\<lambda>e. Inr (Index e))"

definition lastLogTerm :: "'d RaftNode \<Rightarrow> ('d, nat) outcome" where
  "lastLogTerm rn = bind_res (rt rn (go_last (log rn))) (\<lambda>e. Inr (Term e))"

text \<open>\<open>rn.log[0].Index\<close>, the boundary below which the log is compacted.\<close>

definition baseIndex :: "'d RaftNode \<Rightarrow> ('d, nat) outcome" where
  "baseIndex rn = bind_res (rt rn (go_index (log rn) 0)) (\<lambda>e. Inr (Index e))"

definition firstLogIndex :: "'d RaftNode \<Rightarrow> ('d, nat) outcome" where
  "firstLogIndex rn = bind_res (baseIndex rn) (\<lambda>b. Inr (u64_add b 1))"

definition termAt :: "'d RaftNode \<Rightarrow> nat \<Rightarrow> ('d, nat) outcome" where
  "termAt rn i =
     bind_res (baseIndex rn) (\<lambda>b.
     bind_res (rt rn (go_index (log rn) (u64_sub i b))) (\<lambda>e. Inr (Term e)))"

definition entriesFrom :: "'d RaftNode \<Rightarrow> nat \<Rightarrow> ('d, LogEntry list) outcome" where
  "entriesFrom rn from =
     bind_res (baseIndex rn) (\<lambda>b. rt rn (go_slice_from (log rn) (u64_sub from b)))"

section \<open>Durable mutations\<close>

definition persistLocked :: "'d RaftNode \<Rightarrow> ('d, 'd RaftNode) outcome" where
  "persistLocked rn =
     (case Store (cfg rn) of
        None \<Rightarrow> Inl (NilDereference, disk rn)
      | Some st \<Rightarrow>
          (case SaveHardState st \<lparr>CurrentTerm = currentTerm rn, VotedFor = votedFor rn\<rparr> (disk rn) of
             (d, Some e) \<Rightarrow> Inl (PersistHardState e, d)
           | (d, None) \<Rightarrow> Inr (rn\<lparr>disk := d\<rparr>)))"

text \<open>A write through an optional log store: a nil store is skipped, an error panics.\<close>

definition logWrite ::
  "('d LogStoreOps \<Rightarrow> 'd \<Rightarrow> 'd \<times> err option) \<Rightarrow> (err \<Rightarrow> panic) \<Rightarrow> 'd RaftNode
   \<Rightarrow> ('d, 'd RaftNode) outcome" where
  "logWrite w p rn =
     (case LogStore (cfg rn) of
        None \<Rightarrow> Inr rn
      | Some ls \<Rightarrow>
          (case w ls (disk rn) of
             (d, Some e) \<Rightarrow> Inl (p e, d)
           | (d, None) \<Rightarrow> Inr (rn\<lparr>disk := d\<rparr>)))"

definition appendLogLocked :: "LogEntry list \<Rightarrow> 'd RaftNode \<Rightarrow> ('d, 'd RaftNode) outcome" where
  "appendLogLocked entries rn =
     bind_res (logWrite (\<lambda>ls. AppendEntries ls entries) PersistLogEntries rn)
       (\<lambda>rn. Inr (rn\<lparr>log := log rn @ entries\<rparr>))"

definition truncateLogLocked :: "nat \<Rightarrow> 'd RaftNode \<Rightarrow> ('d, 'd RaftNode) outcome" where
  "truncateLogLocked from rn =
     bind_res (logWrite (\<lambda>ls. TruncateSuffix ls from) PersistTruncation rn)
       (\<lambda>rn. bind_res (baseIndex rn) (\<lambda>b.
              bind_res (rt rn (go_slice_to (log rn) (u64_sub from b))) (\<lambda>l.
              Inr (rn\<lparr>log := l\<rparr>))))"

definition compactLogLocked :: "nat \<Rightarrow> nat \<Rightarrow> 'd RaftNode \<Rightarrow> ('d, 'd RaftNode) outcome" where
  "compactLogLocked index term rn =
     bind_res (baseIndex rn) (\<lambda>b.
     if index \<le> b then Inr rn
     else
       bind_res (lastLogIndex rn) (\<lambda>lli.
       bind_res (if index < lli then entriesFrom rn (u64_add index 1) else Inr []) (\<lambda>suffix.
       bind_res (logWrite (\<lambda>ls. Compact ls suffix) CompactLog rn)
         (\<lambda>rn. Inr (rn\<lparr>log := \<lparr>Term = term, Index = index, Command = []\<rparr> # suffix\<rparr>)))))"

section \<open>Roles and the election timer\<close>

definition resetElectionTimerLocked :: "Clock \<Rightarrow> 'd RaftNode \<Rightarrow> 'd RaftNode" where
  "resetElectionTimerLocked clk rn =
     (let spread = ElectionTimeoutMax (cfg rn) - ElectionTimeoutMin (cfg rn)
      in rn\<lparr>electionResetAt := now clk,
            electionTimeout := ElectionTimeoutMin (cfg rn) +
              (if spread > 0 then draw clk mod spread else 0)\<rparr>)"

definition becomeFollowerLocked ::
  "Clock \<Rightarrow> nat \<Rightarrow> 'd RaftNode \<Rightarrow> ('d, 'd RaftNode) outcome" where
  "becomeFollowerLocked clk term rn =
     bind_res
       (if term > currentTerm rn
        then bind_res (persistLocked (rn\<lparr>currentTerm := term, votedFor := NoID, leaderID := NoID\<rparr>))
               (\<lambda>rn. Inr (resetElectionTimerLocked clk rn))
        else Inr rn)
       (\<lambda>rn. Inr (rn\<lparr>state := Follower\<rparr>))"

definition quorum :: "'d RaftNode \<Rightarrow> nat" where
  "quorum rn = (length (peers rn) + 1) div 2 + 1"

section \<open>Construction and recovery\<close>

datatype new_error =
    IDRequired
  | StoreRequired
  | TimeoutMinAboveMax
  | HeartbeatNotBelowTimeout
  | LoadingHardState err
  | LoadingSnapshot err
  | LoadingLog err
  | NotContiguous nat nat

text \<open>The loop over the loaded entries: skip what the snapshot covers, refuse a gap.\<close>

fun recoverEntries :: "nat \<Rightarrow> nat \<Rightarrow> LogEntry list \<Rightarrow> LogEntry list \<Rightarrow> new_error + LogEntry list" where
  "recoverEntries base want l [] = Inr l"
| "recoverEntries base want l (e # es) =
     (if Index e \<le> base then recoverEntries base want l es
      else if Index e \<noteq> want then Inl (NotContiguous (Index e) want)
      else recoverEntries base (u64_add want 1) (l @ [e]) es)"

definition freshNode :: "'d Config \<Rightarrow> 'd \<Rightarrow> 'd RaftNode" where
  "freshNode c d =
     \<lparr>cfg = c, node_id = ID c, peers = Config.Peers c, currentTerm = 0, votedFor = NoID,
      log = [\<lparr>Term = 0, Index = 0, Command = []\<rparr>], commitIndex = 0, lastApplied = 0,
      nextIndex = Map.empty, matchIndex = Map.empty, state = Follower, leaderID = NoID,
      electionResetAt = 0, electionTimeout = 0, stateMachine = False,
      pendingSnapshot = None, initialSnapshotData = None, triggerCh = False,
      started = False, stopped = False, votes = (\<lambda>_. 0), voteCalls = [], replicators = [],
      disk = d\<rparr>"

definition recoverHardState :: "'d StateStore \<Rightarrow> 'd RaftNode \<Rightarrow> new_error + 'd RaftNode" where
  "recoverHardState st rn =
     (case LoadHardState st (disk rn) of
        Inl e \<Rightarrow> Inl (LoadingHardState e)
      | Inr None \<Rightarrow> Inr rn
      | Inr (Some hs) \<Rightarrow> Inr (rn\<lparr>currentTerm := CurrentTerm hs, votedFor := VotedFor hs\<rparr>))"

definition recoverSnapshot :: "'d RaftNode \<Rightarrow> new_error + 'd RaftNode" where
  "recoverSnapshot rn =
     (case SnapshotStore (cfg rn) of
        None \<Rightarrow> Inr rn
      | Some ss \<Rightarrow>
          (case LoadSnapshot ss (disk rn) of
             Inl e \<Rightarrow> Inl (LoadingSnapshot e)
           | Inr None \<Rightarrow> Inr rn
           | Inr (Some snap) \<Rightarrow>
               Inr (rn\<lparr>log := (log rn)[0 := \<lparr>Term = LastIncludedTerm snap,
                                             Index = LastIncludedIndex snap, Command = []\<rparr>],
                       commitIndex := LastIncludedIndex snap,
                       lastApplied := LastIncludedIndex snap,
                       initialSnapshotData := (if Data snap = [] then None else Some (Data snap))\<rparr>)))"

definition recoverLog :: "'d RaftNode \<Rightarrow> 'd \<times> (new_error + 'd RaftNode)" where
  "recoverLog rn =
     (case LogStore (cfg rn) of
        None \<Rightarrow> (disk rn, Inr rn)
      | Some ls \<Rightarrow>
          (case LoadEntries ls (disk rn) of
             (d, Inl e) \<Rightarrow> (d, Inl (LoadingLog e))
           | (d, Inr entries) \<Rightarrow>
               (let base = Index (hd (log rn))
                in (d, bind_res (recoverEntries base (u64_add base 1) (log rn) entries)
                         (\<lambda>l. Inr (rn\<lparr>disk := d, log := l\<rparr>))))))"

text \<open>
  \<open>NewNode\<close> returns the disk as well: loading may repair it even when the recovery is refused.
  The log it starts from is the one-entry list of \<open>freshNode\<close>, so \<open>rn.log[0]\<close> exists.
\<close>

definition NewNode :: "'d Config \<Rightarrow> 'd \<Rightarrow> 'd \<times> (new_error + 'd RaftNode)" where
  "NewNode cfg0 d =
     (if ID cfg0 = '''' then (d, Inl IDRequired)
      else case Store cfg0 of
        None \<Rightarrow> (d, Inl StoreRequired)
      | Some st \<Rightarrow>
          (let c = withDefaults cfg0 in
           if ElectionTimeoutMin c > ElectionTimeoutMax c then (d, Inl TimeoutMinAboveMax)
           else if HeartbeatInterval c \<ge> ElectionTimeoutMin c then (d, Inl HeartbeatNotBelowTimeout)
           else case bind_res (recoverHardState st (freshNode c d)) recoverSnapshot of
             Inl e \<Rightarrow> (d, Inl e)
           | Inr rn \<Rightarrow> recoverLog rn))"

section \<open>Life cycle and status\<close>

text \<open>The interface \<open>StateMachine\<close>, over a state of type \<open>'s\<close>.\<close>

record 's StateMachineOps =
  sm_Apply :: "LogEntry \<Rightarrow> 's \<Rightarrow> 's"
  sm_Snapshot :: "'s \<Rightarrow> err + bytes"
  sm_Restore :: "bytes \<Rightarrow> 's \<Rightarrow> 's \<times> err option"

datatype start_error =
  TransportRequired | AlreadyStarted | NoStateMachine | RestoringSnapshot err

definition Start ::
  "Clock \<Rightarrow> 's StateMachineOps \<Rightarrow> 's \<Rightarrow> 'd RaftNode \<Rightarrow> 's \<times> (start_error + 'd RaftNode)" where
  "Start clk ops sm rn =
     (if \<not> Transport (cfg rn) then (sm, Inl TransportRequired)
      else if started rn then (sm, Inl AlreadyStarted)
      else case initialSnapshotData rn of
        None \<Rightarrow> (sm, Inr (resetElectionTimerLocked clk (rn\<lparr>started := True\<rparr>)))
      | Some data \<Rightarrow>
          if \<not> stateMachine rn then (sm, Inl NoStateMachine)
          else case sm_Restore ops data sm of
            (sm', Some e) \<Rightarrow> (sm', Inl (RestoringSnapshot e))
          | (sm', None) \<Rightarrow>
              (sm', Inr (resetElectionTimerLocked clk
                           (rn\<lparr>initialSnapshotData := None, started := True\<rparr>))))"

definition SetStateMachine :: "'d RaftNode \<Rightarrow> ('d, 'd RaftNode) outcome" where
  "SetStateMachine rn =
     (if started rn then Inl (SetStateMachineAfterStart, disk rn)
      else Inr (rn\<lparr>stateMachine := True\<rparr>))"

definition Stop :: "'d RaftNode \<Rightarrow> 'd RaftNode" where
  "Stop rn = (if stopped rn then rn else rn\<lparr>stopped := True\<rparr>)"

record Status_rec =
  st_ID :: node_id
  st_State :: State
  st_CurrentTerm :: nat
  st_VotedFor :: node_id
  st_LeaderID :: node_id
  st_CommitIndex :: nat
  st_LastApplied :: nat
  st_LastLogIndex :: nat
  st_LastLogTerm :: nat
  st_FirstLogIndex :: nat

definition Status :: "'d RaftNode \<Rightarrow> ('d, Status_rec) outcome" where
  "Status rn =
     bind_res (lastLogIndex rn) (\<lambda>lli.
     bind_res (lastLogTerm rn) (\<lambda>llt.
     bind_res (firstLogIndex rn) (\<lambda>fli.
     Inr \<lparr>st_ID = node_id rn, st_State = state rn, st_CurrentTerm = currentTerm rn,
          st_VotedFor = votedFor rn, st_LeaderID = leaderID rn, st_CommitIndex = commitIndex rn,
          st_LastApplied = lastApplied rn, st_LastLogIndex = lli, st_LastLogTerm = llt,
          st_FirstLogIndex = fli\<rparr>)))"

section \<open>Well-formed logs\<close>

text \<open>
  The shape every log of a node has: a sentinel in slot 0, indexes that grow by one from it,
  and room for one more index below \<open>2 ^ 64\<close>. \<open>log_term l i\<close> is the term stored for index
  \<open>i\<close>, \<open>log_upto\<close> and \<open>log_after\<close> the parts of the log up to and beyond an index.
\<close>

definition log_base :: "LogEntry list \<Rightarrow> nat" where
  "log_base l = Index (hd l)"

definition log_last :: "LogEntry list \<Rightarrow> nat" where
  "log_last l = Index (last l)"

definition log_entry :: "LogEntry list \<Rightarrow> nat \<Rightarrow> LogEntry" where
  "log_entry l i = l ! (i - log_base l)"

definition log_term :: "LogEntry list \<Rightarrow> nat \<Rightarrow> nat" where
  "log_term l i = Term (log_entry l i)"

definition wf_log :: "LogEntry list \<Rightarrow> bool" where
  "wf_log l \<longleftrightarrow> l \<noteq> [] \<and> (\<forall>i < length l. Index (l ! i) = Index (hd l) + i) \<and>
     Index (hd l) + length l < u64_size"

text \<open>Entries that continue a log after index \<open>i\<close>.\<close>

definition contiguous_from :: "nat \<Rightarrow> LogEntry list \<Rightarrow> bool" where
  "contiguous_from i es \<longleftrightarrow> (\<forall>k < length es. Index (es ! k) = i + k)"

lemma wf_log_nonempty [wf_dests]: "wf_log l \<Longrightarrow> l \<noteq> []"
  by (simp add: wf_log_def)

lemma wf_log_nth: "wf_log l \<Longrightarrow> i < length l \<Longrightarrow> Index (l ! i) = log_base l + i"
  by (simp add: wf_log_def log_base_def)

lemma wf_log_last: "wf_log l \<Longrightarrow> log_last l = log_base l + length l - 1"
  by (cases l) (auto simp: wf_log_def log_base_def log_last_def last_conv_nth)

lemma wf_log_base_le_last: "wf_log l \<Longrightarrow> log_base l \<le> log_last l"
  by (simp add: wf_log_last) (cases l; simp add: wf_log_def)

lemma wf_log_last_bound: "wf_log l \<Longrightarrow> log_last l + 1 < u64_size"
  using wf_log_last [of l] by (cases l) (auto simp: wf_log_def log_base_def)

lemma wf_log_length: "wf_log l \<Longrightarrow> length l = log_last l - log_base l + 1"
  using wf_log_last [of l] by (cases l) (auto simp: wf_log_def)

lemma wf_log_slot: "wf_log l \<Longrightarrow> i \<le> log_last l \<Longrightarrow> i - log_base l < length l"
  by (simp add: wf_log_length)

lemma wf_log_entry_Index:
  "wf_log l \<Longrightarrow> log_base l \<le> i \<Longrightarrow> i \<le> log_last l \<Longrightarrow> Index (log_entry l i) = i"
  by (simp add: log_entry_def wf_log_nth wf_log_slot)

lemma wf_log_single:
  "i + 1 < u64_size \<Longrightarrow> wf_log [\<lparr>Term = t, Index = i, Command = c\<rparr>]"
  by (simp add: wf_log_def)

lemma contiguous_from_Cons [simp]:
  "contiguous_from i (e # es) \<longleftrightarrow> Index e = i \<and> contiguous_from (Suc i) es"
  by (auto simp: contiguous_from_def nth_Cons split: nat.splits)

lemma contiguous_from_Nil [simp]: "contiguous_from i []"
  by (simp add: contiguous_from_def)

lemma contiguous_from_append:
  "contiguous_from i (xs @ ys) \<longleftrightarrow> contiguous_from i xs \<and> contiguous_from (i + length xs) ys"
  by (induction xs arbitrary: i) auto

lemma contiguous_from_drop: "contiguous_from i es \<Longrightarrow> contiguous_from (i + k) (drop k es)"
  by (auto simp: contiguous_from_def)

lemma wf_log_contiguous:
  "wf_log l \<longleftrightarrow> l \<noteq> [] \<and> contiguous_from (log_base l) l \<and> log_base l + length l < u64_size"
  by (auto simp: wf_log_def contiguous_from_def log_base_def)

lemma log_base_append [simp]: "l \<noteq> [] \<Longrightarrow> log_base (l @ es) = log_base l"
  by (simp add: log_base_def)

lemma log_base_take [simp]: "0 < n \<Longrightarrow> log_base (take n l) = log_base l"
  by (cases l; cases n) (simp_all add: log_base_def)

lemma log_base_Cons [simp]: "log_base (e # es) = Index e"
  by (simp add: log_base_def)

lemma wf_log_append:
  assumes "wf_log l" and "contiguous_from (log_last l + 1) es"
    and "log_last l + 1 + length es < u64_size"
  shows "wf_log (l @ es)"
  using assms wf_log_last [OF assms(1)] wf_log_base_le_last [OF assms(1)]
  by (auto simp: wf_log_contiguous contiguous_from_append)

lemma log_last_append:
  assumes "wf_log l" and "contiguous_from (log_last l + 1) es"
  shows "log_last (l @ es) = log_last l + length es"
  using assms(2)
  by (cases es rule: rev_cases) (auto simp: log_last_def contiguous_from_append)

lemma wf_log_take:
  assumes "wf_log l" and "0 < n"
  shows "wf_log (take n l)"
  using assms by (auto simp: wf_log_def hd_take)

lemma log_last_take:
  assumes "wf_log l" and "log_base l < i" and "i \<le> log_last l"
  shows "log_last (take (i - log_base l) l) = i - 1"
  using assms wf_log_slot [of l i] wf_log_last [OF wf_log_take [OF assms(1), of "i - log_base l"]]
  by auto

lemma log_entry_append:
  "wf_log l \<Longrightarrow> i \<le> log_last l \<Longrightarrow> log_entry (l @ es) i = log_entry l i"
  using wf_log_slot [of l i] by (simp add: log_entry_def wf_log_nonempty nth_append)

lemma log_entry_append_new:
  assumes "wf_log l" and "contiguous_from (log_last l + 1) es" and "k < length es"
  shows "log_entry (l @ es) (log_last l + 1 + k) = es ! k"
  using assms wf_log_length [OF assms(1)] wf_log_base_le_last [OF assms(1)]
  by (simp add: log_entry_def wf_log_nonempty nth_append)

lemma log_entry_take:
  assumes "log_base l < i" and "j < i"
  shows "log_entry (take (i - log_base l) l) j = log_entry l j"
  using assms by (auto simp: log_entry_def)

section \<open>The log operations on a well-formed log\<close>

lemma lastLogIndex_wf [go_simps]: "wf_log (log rn) \<Longrightarrow> lastLogIndex rn = Inr (log_last (log rn))"
  by (simp add: lastLogIndex_def go_simps wf_log_nonempty log_last_def)

lemma lastLogTerm_wf [go_simps]: "wf_log (log rn) \<Longrightarrow> lastLogTerm rn = Inr (Term (last (log rn)))"
  by (simp add: lastLogTerm_def go_simps wf_log_nonempty)

lemma baseIndex_wf [go_simps]: "wf_log (log rn) \<Longrightarrow> baseIndex rn = Inr (log_base (log rn))"
  by (simp add: baseIndex_def go_simps wf_log_nonempty log_base_def hd_conv_nth)

lemma firstLogIndex_wf [go_simps]:
  "wf_log (log rn) \<Longrightarrow> firstLogIndex rn = Inr (log_base (log rn) + 1)"
  using wf_log_last_bound [of "log rn"] wf_log_base_le_last [of "log rn"]
  by (simp add: firstLogIndex_def go_simps)

lemma termAt_wf [go_simps]:
  "wf_log (log rn) \<Longrightarrow> log_base (log rn) \<le> i \<Longrightarrow> i \<le> log_last (log rn)
   \<Longrightarrow> termAt rn i = Inr (log_term (log rn) i)"
  by (simp add: termAt_def go_simps wf_log_slot log_term_def log_entry_def)

lemma entriesFrom_wf [go_simps]:
  "wf_log (log rn) \<Longrightarrow> log_base (log rn) \<le> i \<Longrightarrow> i \<le> log_last (log rn) + 1
   \<Longrightarrow> entriesFrom rn i = Inr (drop (i - log_base (log rn)) (log rn))"
  using wf_log_length [of "log rn"] wf_log_base_le_last [of "log rn"]
  by (simp add: entriesFrom_def go_simps)

lemma termAt_below_base:
  assumes "wf_log (log rn)" and "i < log_base (log rn)"
  shows "termAt rn i = Inl (RunTime IndexOutOfRange, disk rn)"
proof -
  have "u64_sub i (log_base (log rn)) = u64_size - (log_base (log rn) - i)"
    using assms(2) by (rule u64_sub_wrap)
  moreover have "length (log rn) \<le> u64_size - (log_base (log rn) - i)"
    using assms by (auto simp: wf_log_contiguous)
  ultimately show ?thesis
    using assms(1) by (simp add: termAt_def go_simps go_index_out)
qed

section \<open>What the mutations do\<close>

text \<open>The fail-stop panics: a store reported an error.\<close>

fun store_panic :: "panic \<Rightarrow> bool" where
  "store_panic (PersistHardState _) = True"
| "store_panic (PersistLogEntries _) = True"
| "store_panic (PersistTruncation _) = True"
| "store_panic (CompactLog _) = True"
| "store_panic (PersistSnapshot _) = True"
| "store_panic (PersistInstalledSnapshot _) = True"
| "store_panic (CompactForSnapshot _) = True"
| "store_panic _ = False"

abbreviation stops_safely :: "panic \<times> 'd \<Rightarrow> bool" where
  "stops_safely \<equiv> (\<lambda>(p, d). store_panic p)"

definition compacted :: "nat \<Rightarrow> nat \<Rightarrow> LogEntry list \<Rightarrow> LogEntry list" where
  "compacted index term l =
     (if index \<le> log_base l then l
      else \<lparr>Term = term, Index = index, Command = []\<rparr> # drop (index + 1 - log_base l) l)"

lemma disk_update_id: "rn\<lparr>disk := disk rn\<rparr> = rn"
  by simp

lemma persistLocked_ensures:
  assumes "Store (cfg rn) \<noteq> None"
  shows "ensures stops_safely (\<lambda>rn'. \<exists>d. rn' = rn\<lparr>disk := d\<rparr>) (persistLocked rn)"
proof -
  obtain st where st: "Store (cfg rn) = Some st"
    using assms by blast
  obtain d e where de:
    "SaveHardState st \<lparr>CurrentTerm = currentTerm rn, VotedFor = votedFor rn\<rparr> (disk rn) = (d, e)"
    by fastforce
  show ?thesis
    by (cases e) (auto simp only: persistLocked_def st de option.case prod.case ensures_simps store_panic.simps)
qed

text \<open>Exactly what saving the hard state does: the store has it, or the node stops with the error.\<close>

lemma persistLocked_saves:
  assumes st: "Store (cfg rn) = Some st"
    and hs: "hs = \<lparr>CurrentTerm = currentTerm rn, VotedFor = votedFor rn\<rparr>"
  shows "ensures (\<lambda>(p, d). \<exists>e. p = PersistHardState e \<and> SaveHardState st hs (disk rn) = (d, Some e))
    (\<lambda>rn'. \<exists>d. rn' = rn\<lparr>disk := d\<rparr> \<and> SaveHardState st hs (disk rn) = (d, None)) (persistLocked rn)"
proof -
  obtain d e where de: "SaveHardState st hs (disk rn) = (d, e)"
    by fastforce
  show ?thesis
    by (cases e) (auto simp only: persistLocked_def st de hs [symmetric] option.case prod.case ensures_simps)
qed

lemma logWrite_ensures:
  assumes "\<And>e. store_panic (p e)"
  shows "ensures stops_safely (\<lambda>rn'. \<exists>d. rn' = rn\<lparr>disk := d\<rparr>) (logWrite w p rn)"
proof (cases "LogStore (cfg rn)")
  case None
  then show ?thesis
    by (simp add: logWrite_def) (metis disk_update_id)
next
  case (Some ls)
  obtain d e where de: "w ls (disk rn) = (d, e)"
    by fastforce
  show ?thesis
    using assms by (cases e) (auto simp only: logWrite_def Some de option.case prod.case ensures_simps)
qed

lemma appendLogLocked_ensures:
  "ensures stops_safely (\<lambda>rn'. \<exists>d. rn' = rn\<lparr>disk := d, log := log rn @ es\<rparr>)
     (appendLogLocked es rn)"
  unfolding appendLogLocked_def
  by (rule ensures_bind [OF logWrite_ensures]) auto

lemma truncateLogLocked_ensures:
  assumes "wf_log (log rn)" and "log_base (log rn) \<le> from" and "from \<le> log_last (log rn)"
  shows "ensures stops_safely
           (\<lambda>rn'. \<exists>d. rn' = rn\<lparr>disk := d, log := take (from - log_base (log rn)) (log rn)\<rparr>)
           (truncateLogLocked from rn)"
proof -
  have "from - log_base (log rn) \<le> length (log rn)"
    using wf_log_slot [OF assms(1,3)] by simp
  then show ?thesis
    unfolding truncateLogLocked_def
    using assms by (intro ensures_bind [OF logWrite_ensures]) (auto simp: go_simps)
qed

lemma compactLogLocked_ensures:
  assumes "wf_log (log rn)"
  shows "ensures stops_safely
           (\<lambda>rn'. \<exists>d. rn' = rn\<lparr>disk := d, log := compacted index term (log rn)\<rparr>)
           (compactLogLocked index term rn)"
proof (cases "index \<le> log_base (log rn)")
  case True
  then have eq: "compactLogLocked index term rn = Inr rn"
    using assms by (simp add: compactLogLocked_def go_simps)
  have "rn = rn\<lparr>disk := disk rn, log := compacted index term (log rn)\<rparr>"
    using True by (simp add: compacted_def)
  then show ?thesis
    unfolding eq ensures_simps by (rule exI)
next
  case False
  let ?suffix = "drop (index + 1 - log_base (log rn)) (log rn)"
  have "log_last (log rn) + 1 < u64_size"
    using assms by (rule wf_log_last_bound)
  moreover have "\<not> index < log_last (log rn) \<Longrightarrow> ?suffix = []"
    using False wf_log_length [OF assms] by simp
  ultimately have eq: "compactLogLocked index term rn =
      bind_res (logWrite (\<lambda>ls. Compact ls ?suffix) CompactLog rn)
        (\<lambda>rn. Inr (rn\<lparr>log := \<lparr>Term = term, Index = index, Command = []\<rparr> # ?suffix\<rparr>))"
    using False assms by (simp add: compactLogLocked_def go_simps)
  show ?thesis
    unfolding eq
    by (rule ensures_bind [OF logWrite_ensures]) (use False in \<open>auto simp: compacted_def\<close>)
qed

text \<open>The parts of a node, as the frames of its operations name them.\<close>

definition same_ident :: "'d RaftNode \<Rightarrow> 'd RaftNode \<Rightarrow> bool" where
  "same_ident rn rn' \<longleftrightarrow> cfg rn' = cfg rn \<and> node_id rn' = node_id rn \<and> peers rn' = peers rn \<and>
     started rn' = started rn \<and> stopped rn' = stopped rn \<and> stateMachine rn' = stateMachine rn"

definition same_log :: "'d RaftNode \<Rightarrow> 'd RaftNode \<Rightarrow> bool" where
  "same_log rn rn' \<longleftrightarrow> log rn' = log rn \<and> commitIndex rn' = commitIndex rn \<and>
     lastApplied rn' = lastApplied rn \<and> pendingSnapshot rn' = pendingSnapshot rn"

definition same_calls :: "'d RaftNode \<Rightarrow> 'd RaftNode \<Rightarrow> bool" where
  "same_calls rn rn' \<longleftrightarrow> votes rn' = votes rn \<and> voteCalls rn' = voteCalls rn \<and>
     replicators rn' = replicators rn \<and> nextIndex rn' = nextIndex rn \<and> matchIndex rn' = matchIndex rn"

lemmas frame_defs = same_ident_def same_log_def same_calls_def

lemma same_refl [simp]: "same_ident rn rn" "same_log rn rn" "same_calls rn rn"
  by (simp_all add: frame_defs)

lemma same_trans:
  "same_ident a b \<Longrightarrow> same_ident b c \<Longrightarrow> same_ident a c"
  "same_log a b \<Longrightarrow> same_log b c \<Longrightarrow> same_log a c"
  "same_calls a b \<Longrightarrow> same_calls b c \<Longrightarrow> same_calls a c"
  by (simp_all add: frame_defs)

lemma same_identD:
  assumes "same_ident rn rn'"
  shows "cfg rn' = cfg rn" "node_id rn' = node_id rn" "peers rn' = peers rn"
    "started rn' = started rn" "stopped rn' = stopped rn" "stateMachine rn' = stateMachine rn"
  using assms by (simp_all add: same_ident_def)

lemma same_logD:
  assumes "same_log rn rn'"
  shows "log rn' = log rn" "commitIndex rn' = commitIndex rn" "lastApplied rn' = lastApplied rn"
    "pendingSnapshot rn' = pendingSnapshot rn"
  using assms by (simp_all add: same_log_def)

lemma same_callsD:
  assumes "same_calls rn rn'"
  shows "votes rn' = votes rn" "voteCalls rn' = voteCalls rn" "replicators rn' = replicators rn"
    "nextIndex rn' = nextIndex rn" "matchIndex rn' = matchIndex rn"
  using assms by (simp_all add: same_calls_def)

lemma resetElectionTimerLocked_frame [simp]:
  "cfg (resetElectionTimerLocked clk rn) = cfg rn"
  "node_id (resetElectionTimerLocked clk rn) = node_id rn"
  "peers (resetElectionTimerLocked clk rn) = peers rn"
  "started (resetElectionTimerLocked clk rn) = started rn"
  "stopped (resetElectionTimerLocked clk rn) = stopped rn"
  "stateMachine (resetElectionTimerLocked clk rn) = stateMachine rn"
  "currentTerm (resetElectionTimerLocked clk rn) = currentTerm rn"
  "votedFor (resetElectionTimerLocked clk rn) = votedFor rn"
  "state (resetElectionTimerLocked clk rn) = state rn"
  "leaderID (resetElectionTimerLocked clk rn) = leaderID rn"
  "log (resetElectionTimerLocked clk rn) = log rn"
  "commitIndex (resetElectionTimerLocked clk rn) = commitIndex rn"
  "lastApplied (resetElectionTimerLocked clk rn) = lastApplied rn"
  "pendingSnapshot (resetElectionTimerLocked clk rn) = pendingSnapshot rn"
  "votes (resetElectionTimerLocked clk rn) = votes rn"
  "voteCalls (resetElectionTimerLocked clk rn) = voteCalls rn"
  "replicators (resetElectionTimerLocked clk rn) = replicators rn"
  "nextIndex (resetElectionTimerLocked clk rn) = nextIndex rn"
  "matchIndex (resetElectionTimerLocked clk rn) = matchIndex rn"
  "triggerCh (resetElectionTimerLocked clk rn) = triggerCh rn"
  "initialSnapshotData (resetElectionTimerLocked clk rn) = initialSnapshotData rn"
  "disk (resetElectionTimerLocked clk rn) = disk rn"
  by (simp_all add: resetElectionTimerLocked_def Let_def)

definition steppedDown :: "nat \<Rightarrow> 'd RaftNode \<Rightarrow> 'd RaftNode \<Rightarrow> bool" where
  "steppedDown term rn rn' \<longleftrightarrow>
     same_ident rn rn' \<and> same_log rn rn' \<and> same_calls rn rn' \<and>
     currentTerm rn' = max term (currentTerm rn) \<and>
     votedFor rn' = (if term > currentTerm rn then NoID else votedFor rn) \<and>
     state rn' = Follower"

lemma becomeFollowerLocked_ensures:
  assumes "Store (cfg rn) \<noteq> None"
  shows "ensures stops_safely (steppedDown term rn) (becomeFollowerLocked clk term rn)"
proof (cases "term > currentTerm rn")
  case True
  let ?rn = "rn\<lparr>currentTerm := term, votedFor := NoID, leaderID := NoID\<rparr>"
  have "ensures stops_safely (\<lambda>rn'. \<exists>d. rn' = ?rn\<lparr>disk := d\<rparr>) (persistLocked ?rn)"
    using assms by (intro persistLocked_ensures) simp
  then show ?thesis
    using True
    by (cases "persistLocked ?rn")
      (auto simp: becomeFollowerLocked_def steppedDown_def frame_defs max_def)
next
  case False
  then show ?thesis
    by (simp add: becomeFollowerLocked_def steppedDown_def frame_defs max_def)
qed

lemma wf_log_compacted:
  assumes "wf_log l" and "index \<le> log_last l"
  shows "wf_log (compacted index term l)"
proof (cases "index \<le> log_base l")
  case False
  have "contiguous_from (index + 1) (drop (index + 1 - log_base l) l)"
    using contiguous_from_drop [of "log_base l" l "index + 1 - log_base l"] False assms(1)
    by (simp add: wf_log_contiguous)
  moreover have "index + 1 + length (drop (index + 1 - log_base l) l) < u64_size"
    using False assms wf_log_length [OF assms(1)] wf_log_last_bound [OF assms(1)] by simp
  ultimately show ?thesis
    using False by (simp add: compacted_def wf_log_contiguous)
qed (use assms in \<open>simp add: compacted_def\<close>)

lemma log_base_compacted: "log_base (compacted index term l) = max index (log_base l)"
  by (simp add: compacted_def)

lemma log_last_compacted:
  assumes "wf_log l" and "index \<le> log_last l"
  shows "log_last (compacted index term l) = log_last l"
proof (cases "index \<le> log_base l")
  case False
  then have "length (compacted index term l) = log_last l - index + 1"
    using assms wf_log_length [OF assms(1)] by (simp add: compacted_def)
  moreover have "log_base (compacted index term l) = index"
    using False by (simp add: compacted_def)
  ultimately show ?thesis
    using wf_log_last [OF wf_log_compacted [OF assms]] assms(2) by simp
qed (simp add: compacted_def)

text \<open>Compaction keeps every entry beyond the boundary where it was.\<close>

lemma log_entry_compacted:
  assumes "wf_log l" and "log_base l \<le> index" and "index < i" and "i \<le> log_last l"
  shows "log_entry (compacted index term l) i = log_entry l i"
proof (cases "index = log_base l")
  case False
  obtain k where k: "i = index + 1 + k"
    using assms(3) less_imp_Suc_add by fastforce
  have "index + 1 - log_base l \<le> length l"
    using assms wf_log_length [OF assms(1)] by simp
  then show ?thesis
    using False assms(2) by (simp add: compacted_def log_entry_def k)
qed (simp add: compacted_def)

end
