(* ===== verification/Raft_Handlers.thy ===== *)
theory Raft_Handlers
  imports Raft_Node
begin

text \<open>
  The RPC receivers of \<^verbatim>\<open>raft/handlers.go\<close>: \<open>HandleRequestVote\<close>, \<open>HandleAppendEntries\<close> and
  \<open>HandleInstallSnapshot\<close>, each the whole critical section from \<open>rn.mu.Lock()\<close> to its return.
  A handler returns its reply and the new node, or the panic that ends the process.
\<close>

section \<open>RequestVote\<close>

text \<open>The decision, once the node's term is at least the candidate's.\<close>

definition decideVote ::
  "Clock \<Rightarrow> RequestVoteArgs \<Rightarrow> 'd RaftNode \<Rightarrow> ('d, RequestVoteReply \<times> 'd RaftNode) outcome" where
  "decideVote clk args rn =
     (let reply = \<lparr>rvr_Term = currentTerm rn, rvr_VoteGranted = False\<rparr> in
      if rva_Term args < currentTerm rn then Inr (reply, rn)
      else
        bind_res (lastLogTerm rn) (\<lambda>llt.
        bind_res (lastLogIndex rn) (\<lambda>lli.
        let upToDate = (rva_LastLogTerm args > llt \<or>
                        rva_LastLogTerm args = llt \<and> rva_LastLogIndex args \<ge> lli) in
        if \<not> upToDate then Inr (reply, rn)
        else if votedFor rn = NoID \<or> votedFor rn = rva_CandidateID args then
          bind_res (persistLocked (rn\<lparr>votedFor := rva_CandidateID args\<rparr>)) (\<lambda>rn.
          Inr (reply\<lparr>rvr_VoteGranted := True\<rparr>, resetElectionTimerLocked clk rn))
        else Inr (reply, rn))))"

definition HandleRequestVote ::
  "Clock \<Rightarrow> RequestVoteArgs \<Rightarrow> 'd RaftNode \<Rightarrow> ('d, RequestVoteReply \<times> 'd RaftNode) outcome" where
  "HandleRequestVote clk args rn =
     (if stopped rn then Inr (\<lparr>rvr_Term = currentTerm rn, rvr_VoteGranted = False\<rparr>, rn)
      else
        bind_res (if rva_Term args > currentTerm rn
                  then becomeFollowerLocked clk (rva_Term args) rn else Inr rn)
          (decideVote clk args))"

section \<open>AppendEntries\<close>

text \<open>The scan for the first index that carries the conflicting term.\<close>

function conflictScan :: "'d RaftNode \<Rightarrow> nat \<Rightarrow> nat \<Rightarrow> nat \<Rightarrow> ('d, nat) outcome" where
  "conflictScan rn base have_term first =
     (if first > u64_add base 1
      then bind_res (termAt rn (first - 1)) (\<lambda>t.
             if t = have_term then conflictScan rn base have_term (first - 1) else Inr first)
      else Inr first)"
  by pat_completeness auto
termination
  by (relation "measure (\<lambda>(rn, base, have_term, first). first)") auto

declare conflictScan.simps [simp del]

text \<open>
  The walk over \<open>args.Entries\<close>. The list argument is \<open>args.Entries[i:]\<close>, what is left of it
  at iteration \<open>i\<close>.
\<close>

fun appendWalk :: "nat \<Rightarrow> LogEntry list \<Rightarrow> 'd RaftNode \<Rightarrow> ('d, 'd RaftNode) outcome" where
  "appendWalk base [] rn = Inr rn"
| "appendWalk base (e # es) rn =
     (if Index e \<le> base then appendWalk base es rn
      else
        bind_res (lastLogIndex rn) (\<lambda>lli.
        if Index e \<le> lli then
          bind_res (termAt rn (Index e)) (\<lambda>t.
          if t = Term e then appendWalk base es rn
          else if Index e \<le> commitIndex rn
          then Inl (TruncateCommitted (Index e) (commitIndex rn), disk rn)
          else bind_res (truncateLogLocked (Index e) rn) (appendLogLocked (e # es)))
        else appendLogLocked (e # es) rn))"

definition advanceFollowerCommit :: "AppendEntriesArgs \<Rightarrow> 'd RaftNode \<Rightarrow> 'd RaftNode" where
  "advanceFollowerCommit args rn =
     (if aea_LeaderCommit args > commitIndex rn then
        let lastNew = u64_add (aea_PrevLogIndex args) (length (aea_Entries args));
            newCommit = min (aea_LeaderCommit args) lastNew
        in if newCommit > commitIndex rn then rn\<lparr>commitIndex := newCommit\<rparr> else rn
      else rn)"

text \<open>The first conflict hint, or \<open>None\<close> when the consistency check passes.\<close>

definition consistencyCheck ::
  "AppendEntriesArgs \<Rightarrow> 'd RaftNode \<Rightarrow> ('d, (nat \<times> nat) option) outcome" where
  "consistencyCheck args rn =
     bind_res (baseIndex rn) (\<lambda>base.
     bind_res (lastLogIndex rn) (\<lambda>lli.
     if aea_PrevLogIndex args > lli then Inr (Some (u64_add lli 1, 0))
     else if aea_PrevLogIndex args \<ge> base then
       bind_res (termAt rn (aea_PrevLogIndex args)) (\<lambda>have_term.
       if have_term \<noteq> aea_PrevLogTerm args then
         bind_res (conflictScan rn base have_term (aea_PrevLogIndex args)) (\<lambda>first.
         Inr (Some (first, have_term)))
       else Inr None)
     else Inr None))"

text \<open>From the consistency check to the reply, on a node that has acknowledged the leader.\<close>

definition appendToLog ::
  "AppendEntriesArgs \<Rightarrow> AppendEntriesReply \<Rightarrow> 'd RaftNode
   \<Rightarrow> ('d, AppendEntriesReply \<times> 'd RaftNode) outcome" where
  "appendToLog args reply rn =
     bind_res (consistencyCheck args rn) (\<lambda>conflict.
     case conflict of
       Some (ci, ct) \<Rightarrow> Inr (reply\<lparr>aer_ConflictIndex := ci, aer_ConflictTerm := ct\<rparr>, rn)
     | None \<Rightarrow>
         bind_res (baseIndex rn) (\<lambda>base.
         bind_res (appendWalk base (aea_Entries args) rn) (\<lambda>rn.
         Inr (reply\<lparr>aer_Success := True\<rparr>, advanceFollowerCommit args rn))))"

definition rejectAppend :: "nat \<Rightarrow> AppendEntriesReply" where
  "rejectAppend term = \<lparr>aer_Term = term, aer_Success = False,
                        aer_ConflictIndex = 0, aer_ConflictTerm = 0\<rparr>"

definition HandleAppendEntries ::
  "Clock \<Rightarrow> AppendEntriesArgs \<Rightarrow> 'd RaftNode \<Rightarrow> ('d, AppendEntriesReply \<times> 'd RaftNode) outcome" where
  "HandleAppendEntries clk args rn =
     (if stopped rn then Inr (rejectAppend (currentTerm rn), rn)
      else
        bind_res (if aea_Term args > currentTerm rn
                  then becomeFollowerLocked clk (aea_Term args) rn else Inr rn) (\<lambda>r1.
        if aea_Term args < currentTerm r1 then Inr (rejectAppend (currentTerm r1), r1)
        else
          bind_res (if state r1 \<noteq> Follower
                    then becomeFollowerLocked clk (aea_Term args) r1 else Inr r1) (\<lambda>r2.
          appendToLog args (rejectAppend (currentTerm r1))
            (resetElectionTimerLocked clk (r2\<lparr>leaderID := aea_LeaderID args\<rparr>)))))"

section \<open>InstallSnapshot\<close>

text \<open>The suffix of the log that a snapshot at the given position leaves in place.\<close>

definition retainedSuffix :: "InstallSnapshotArgs \<Rightarrow> 'd RaftNode \<Rightarrow> ('d, LogEntry list) outcome" where
  "retainedSuffix args rn =
     bind_res (lastLogIndex rn) (\<lambda>lli.
     if isa_LastIncludedIndex args \<le> lli then
       bind_res (baseIndex rn) (\<lambda>base.
       if isa_LastIncludedIndex args \<ge> base then
         bind_res (termAt rn (isa_LastIncludedIndex args)) (\<lambda>t.
         if t = isa_LastIncludedTerm args
         then entriesFrom rn (u64_add (isa_LastIncludedIndex args) 1) else Inr [])
       else Inr [])
     else Inr [])"

definition saveInstalledSnapshot :: "Snapshot \<Rightarrow> 'd RaftNode \<Rightarrow> ('d, 'd RaftNode) outcome" where
  "saveInstalledSnapshot snap rn =
     (case SnapshotStore (cfg rn) of
        None \<Rightarrow> Inr rn
      | Some ss \<Rightarrow>
          (case SaveSnapshot ss snap (disk rn) of
             (d, Some e) \<Rightarrow> Inl (PersistInstalledSnapshot e, d)
           | (d, None) \<Rightarrow> Inr (rn\<lparr>disk := d\<rparr>)))"

definition compactForSnapshot :: "LogEntry list \<Rightarrow> 'd RaftNode \<Rightarrow> ('d, 'd RaftNode) outcome" where
  "compactForSnapshot suffix rn = logWrite (\<lambda>ls. Compact ls suffix) CompactForSnapshot rn"

text \<open>From the test against the commit index to the return.\<close>

definition installSnapshot :: "InstallSnapshotArgs \<Rightarrow> 'd RaftNode \<Rightarrow> ('d, 'd RaftNode) outcome" where
  "installSnapshot args rn =
     (if isa_LastIncludedIndex args \<le> commitIndex rn then Inr rn
      else
        bind_res (retainedSuffix args rn) (\<lambda>suffix.
        let snap = \<lparr>LastIncludedIndex = isa_LastIncludedIndex args,
                    LastIncludedTerm = isa_LastIncludedTerm args, Data = isa_Data args\<rparr> in
        bind_res (saveInstalledSnapshot snap rn) (\<lambda>rn.
        bind_res (compactForSnapshot suffix rn) (\<lambda>rn.
        Inr (rn\<lparr>log := \<lparr>Term = isa_LastIncludedTerm args,
                         Index = isa_LastIncludedIndex args, Command = []\<rparr> # suffix,
                commitIndex := isa_LastIncludedIndex args,
                pendingSnapshot := Some snap\<rparr>)))))"

definition HandleInstallSnapshot ::
  "Clock \<Rightarrow> InstallSnapshotArgs \<Rightarrow> 'd RaftNode \<Rightarrow> ('d, InstallSnapshotReply \<times> 'd RaftNode) outcome" where
  "HandleInstallSnapshot clk args rn =
     (if stopped rn then Inr (\<lparr>isr_Term = currentTerm rn\<rparr>, rn)
      else
        bind_res (if isa_Term args > currentTerm rn
                  then becomeFollowerLocked clk (isa_Term args) rn else Inr rn) (\<lambda>r1.
        if isa_Term args < currentTerm r1 then Inr (\<lparr>isr_Term = currentTerm r1\<rparr>, r1)
        else
          bind_res (if state r1 \<noteq> Follower
                    then becomeFollowerLocked clk (isa_Term args) r1 else Inr r1) (\<lambda>r2.
          bind_res (installSnapshot args
                      (resetElectionTimerLocked clk (r2\<lparr>leaderID := isa_LeaderID args\<rparr>))) (\<lambda>r3.
          Inr (\<lparr>isr_Term = currentTerm r1\<rparr>, r3)))))"

section \<open>The append walk as a function on logs\<close>

text \<open>
  What the walk of \<open>HandleAppendEntries\<close> leaves of the log \<open>l\<close>: entries already held are
  skipped; at the first entry that conflicts or is missing, the log is cut there and the rest
  of the request is appended.
\<close>

fun walk_log :: "LogEntry list \<Rightarrow> LogEntry list \<Rightarrow> LogEntry list" where
  "walk_log [] l = l"
| "walk_log (e # es) l =
     (if Index e \<le> log_base l then walk_log es l
      else if Index e \<le> log_last l then
        if log_term l (Index e) = Term e then walk_log es l
        else take (Index e - log_base l) l @ e # es
      else l @ e # es)"

text \<open>The index at which the walk would cut the log, if any.\<close>

fun walk_conflict :: "LogEntry list \<Rightarrow> LogEntry list \<Rightarrow> nat option" where
  "walk_conflict [] l = None"
| "walk_conflict (e # es) l =
     (if Index e \<le> log_base l then walk_conflict es l
      else if Index e \<le> log_last l then
        if log_term l (Index e) = Term e then walk_conflict es l else Some (Index e)
      else None)"

text \<open>
  The hypotheses shared by the lemmas on the walk: a well-formed log and entries that continue
  it from some index it reaches, without running out of indexes.
\<close>

definition walkable :: "nat \<Rightarrow> LogEntry list \<Rightarrow> LogEntry list \<Rightarrow> bool" where
  "walkable k es l \<longleftrightarrow> wf_log l \<and> contiguous_from k es \<and> k \<le> log_last l + 1 \<and>
     k + length es < u64_size"

lemma walkable_Cons:
  assumes "walkable k (e # es) l"
  shows "Index e = k" "wf_log l" "contiguous_from (Suc k) es" "k \<le> log_last l + 1"
    "k + length (e # es) < u64_size"
  using assms by (simp_all add: walkable_def)

lemma walkable_next: "walkable k (e # es) l \<Longrightarrow> k \<le> log_last l \<Longrightarrow> walkable (Suc k) es l"
  by (simp add: walkable_def)

lemma walk_cut:
  assumes "walkable k (e # es) l" and "log_base l < k"
  defines "l' \<equiv> take (k - log_base l) l @ e # es"
  shows "wf_log l'" "log_base l' = log_base l" "log_last l' = k + length es"
    "\<And>i. i < k \<Longrightarrow> log_entry l' i = log_entry l i"
    "\<And>j. j < length (e # es) \<Longrightarrow> log_entry l' (k + j) = (e # es) ! j"
proof -
  note w = walkable_Cons [OF assms(1)]
  let ?t = "take (k - log_base l) l"
  have wt: "wf_log ?t"
    using w(2) assms(2) by (intro wf_log_take) simp_all
  have lt: "log_last ?t = k - 1"
  proof (cases "k \<le> log_last l")
    case True
    then show ?thesis using log_last_take [OF w(2) assms(2)] by simp
  next
    case False
    then have "k = log_last l + 1" using w(4) by simp
    moreover from this have "?t = l"
      using wf_log_length [OF w(2)] wf_log_base_le_last [OF w(2)] by simp
    ultimately show ?thesis by simp
  qed
  have k: "k - 1 + 1 = k" using assms(2) by simp
  have c: "contiguous_from (log_last ?t + 1) (e # es)"
    using w(1,3) k by (simp add: lt)
  show "log_base l' = log_base l"
    using log_base_append [OF wf_log_nonempty [OF wt], of "e # es"] assms(2) by (simp add: l'_def)
  show "wf_log l'"
    unfolding l'_def using wf_log_append [OF wt c] w(5) k by (simp add: lt)
  show "log_last l' = k + length es"
    unfolding l'_def using log_last_append [OF wt c] k assms(2) by (simp add: lt)
  show "log_entry l' i = log_entry l i" if "i < k" for i
  proof -
    have "i \<le> log_last ?t" using that by (simp add: lt)
    then show ?thesis
      using log_entry_append [OF wt] log_entry_take [OF assms(2) that] by (simp add: l'_def)
  qed
  show "log_entry l' (k + j) = (e # es) ! j" if "j < length (e # es)" for j
    using log_entry_append_new [OF wt c that] k by (simp add: l'_def lt)
qed

lemma walk_append:
  assumes "walkable k (e # es) l" and "log_last l < k"
  shows "l @ e # es = take (k - log_base l) l @ e # es"
proof -
  note w = walkable_Cons [OF assms(1)]
  have "length l \<le> k - log_base l"
    using assms(2) wf_log_length [OF w(2)] wf_log_base_le_last [OF w(2)] by simp
  then show ?thesis by simp
qed

text \<open>The two ways the walk ends: it changes nothing, or it cuts at one place and appends.\<close>

lemma walk_log_cases:
  assumes "walkable k es l"
  obtains
    (held) "walk_log es l = l" "walk_conflict es l = None"
      "\<And>j. j < length es \<Longrightarrow> log_base l < k + j \<Longrightarrow>
         k + j \<le> log_last l \<and> log_term l (k + j) = Term (es ! j)"
  | (cut) n e es' where "n < length es" "drop n es = e # es'" "walkable (k + n) (e # es') l"
      "log_base l < k + n"
      "walk_log es l = take (k + n - log_base l) l @ e # es'"
      "walk_conflict es l = (if k + n \<le> log_last l then Some (k + n) else None)"
      "k + n \<le> log_last l \<Longrightarrow> log_term l (k + n) \<noteq> Term e"
      "\<And>j. j < n \<Longrightarrow> log_base l < k + j \<Longrightarrow>
         k + j \<le> log_last l \<and> log_term l (k + j) = Term (es ! j)"
  using assms
proof (induction es arbitrary: k thesis)
  case Nil
  show ?case by (rule Nil.prems(1)) simp_all
next
  case (Cons e es)
  note w = walkable_Cons [OF Cons.prems(3)]
  have skip: thesis
    if k_last: "k \<le> log_last l"
      and eqs: "walk_log (e # es) l = walk_log es l" "walk_conflict (e # es) l = walk_conflict es l"
      and this_one: "log_base l < k \<Longrightarrow> log_term l k = Term e"
  proof (rule Cons.IH [OF _ _ walkable_next [OF Cons.prems(3) k_last]])
    assume h: "walk_log es l = l" "walk_conflict es l = None"
      "\<And>j. j < length es \<Longrightarrow> log_base l < Suc k + j \<Longrightarrow>
         Suc k + j \<le> log_last l \<and> log_term l (Suc k + j) = Term (es ! j)"
    show thesis
    proof (rule Cons.prems(1))
      show "k + j \<le> log_last l \<and> log_term l (k + j) = Term ((e # es) ! j)"
        if "j < length (e # es)" "log_base l < k + j" for j
        using that h(3) [of "j - 1"] this_one k_last by (cases j) simp_all
    qed (use eqs h in simp_all)
  next
    fix n e' es'
    assume h: "n < length es" "drop n es = e' # es'" "walkable (Suc k + n) (e' # es') l"
      "log_base l < Suc k + n" "walk_log es l = take (Suc k + n - log_base l) l @ e' # es'"
      "walk_conflict es l = (if Suc k + n \<le> log_last l then Some (Suc k + n) else None)"
      "Suc k + n \<le> log_last l \<Longrightarrow> log_term l (Suc k + n) \<noteq> Term e'"
      "\<And>j. j < n \<Longrightarrow> log_base l < Suc k + j \<Longrightarrow>
         Suc k + j \<le> log_last l \<and> log_term l (Suc k + j) = Term (es ! j)"
    show thesis
    proof (rule Cons.prems(2) [of "Suc n" e' es'])
      show "k + j \<le> log_last l \<and> log_term l (k + j) = Term ((e # es) ! j)"
        if "j < Suc n" "log_base l < k + j" for j
        using that h(8) [of "j - 1"] this_one k_last by (cases j) simp_all
    qed (use eqs h in simp_all)
  qed
  show ?case
  proof (cases "k \<le> log_base l")
    case True
    then show ?thesis
      using skip w(1) wf_log_base_le_last [OF w(2)] by simp
  next
    case False
    show ?thesis
    proof (cases "k \<le> log_last l \<and> log_term l k = Term e")
      case True
      then show ?thesis using skip w(1) by simp
    next
      case cutting: False
      show ?thesis
      proof (rule Cons.prems(2) [of 0 e es])
        show "walk_log (e # es) l = take (k + 0 - log_base l) l @ e # es"
          using False cutting w(1) walk_append [OF Cons.prems(3)] by auto
      qed (use False cutting w(1) Cons.prems(3) in auto)
    qed
  qed
qed

text \<open>What holds of the log after the walk, whichever way it ended.\<close>

lemma walk_log_wf:
  assumes "walkable k es l"
  shows "wf_log (walk_log es l)" and "log_base (walk_log es l) = log_base l"
    and "k + length es \<le> log_last (walk_log es l) + 1"
proof -
  have "wf_log (walk_log es l) \<and> log_base (walk_log es l) = log_base l \<and>
      k + length es \<le> log_last (walk_log es l) + 1"
    using assms
  proof (cases rule: walk_log_cases)
    case held
    have "wf_log l" "k \<le> log_last l + 1"
      using assms by (simp_all add: walkable_def)
    moreover have "k + length es \<le> log_last l + 1"
    proof (cases es rule: rev_cases)
      case (snoc xs x)
      then show ?thesis
        using held(3) [of "length xs"] wf_log_base_le_last [OF \<open>wf_log l\<close>] by fastforce
    qed (use \<open>k \<le> log_last l + 1\<close> in simp)
    ultimately show ?thesis using held(1) by simp
  next
    case (cut n e es')
    have "length es = n + Suc (length es')"
      using arg_cong [OF cut(2), of length] cut(1) by simp
    then show ?thesis
      using walk_cut(1-3) [OF cut(3,4)] by (simp add: cut(5))
  qed
  then show "wf_log (walk_log es l)" and "log_base (walk_log es l) = log_base l"
    and "k + length es \<le> log_last (walk_log es l) + 1"
    by simp_all
qed

text \<open>The request's entries are in the log afterwards, as far as the log is not compacted.\<close>

lemma walk_log_has_entries:
  assumes "walkable k es l" and "j < length es" and "log_base l < k + j"
  shows "log_term (walk_log es l) (k + j) = Term (es ! j)"
  using assms(1)
proof (cases rule: walk_log_cases)
  case held
  then show ?thesis using assms(2,3) by simp
next
  case (cut n e es')
  show ?thesis
  proof (cases "j < n")
    case True
    then show ?thesis
      using cut(8) [OF True assms(3)] walk_cut(4) [OF cut(3,4), of "k + j"]
      by (simp add: cut(5) log_term_def)
  next
    case False
    have "es ! j = (e # es') ! (j - n)"
      using False assms(2) cut(1) by (simp flip: cut(2))
    moreover have "j - n < length (e # es')"
      using False assms(2) by (simp flip: cut(2))
    ultimately show ?thesis
      using walk_cut(5) [OF cut(3,4), of "j - n"] False by (simp add: cut(5) log_term_def)
  qed
qed

text \<open>
  What the walk writes is the request's entries themselves: beyond the old end of the log and from
  the conflict on. After a conflict the log ends where the request ends.
\<close>

lemma walk_log_writes:
  assumes "walkable k es l" and "j < length es" and "log_base l < k + j"
    and new: "log_last l < k + j \<or> (\<exists>c. walk_conflict es l = Some c \<and> c \<le> k + j)"
  shows "log_entry (walk_log es l) (k + j) = es ! j"
  using assms(1)
proof (cases rule: walk_log_cases)
  case held
  then show ?thesis using held(3) [OF assms(2,3)] new by auto
next
  case (cut n e es')
  have "\<not> j < n"
    using cut(6) cut(8) [of j] assms(3) new by (auto split: if_splits)
  then have "es ! j = (e # es') ! (j - n)" "j - n < length (e # es')" "k + n + (j - n) = k + j"
    using assms(2) cut(1) by (simp_all flip: cut(2))
  then show ?thesis
    using walk_cut(5) [OF cut(3,4), of "j - n"] by (simp add: cut(5))
qed

lemma walk_log_last:
  assumes "walkable k es l"
  shows "log_last (walk_log es l) =
    (if walk_conflict es l = None then max (log_last l) (k + length es - 1) else k + length es - 1)"
  using assms
proof (cases rule: walk_log_cases)
  case held
  have "k + length es \<le> log_last l + 1"
    using walk_log_wf(3) [OF assms] held(1) by simp
  then show ?thesis using held(1,2) by simp
next
  case (cut n e es')
  have "length es = n + Suc (length es')"
    using arg_cong [OF cut(2), of length] cut(1) by simp
  then show ?thesis
    using walk_cut(3) [OF cut(3,4)] cut(5,6) by (auto simp: max_def)
qed

text \<open>Nothing before the conflict changes; without one nothing is lost at all.\<close>

lemma walk_log_keeps:
  assumes "walkable k es l" and "i \<le> log_last l"
    and "\<And>c. walk_conflict es l = Some c \<Longrightarrow> i < c"
  shows "i \<le> log_last (walk_log es l)" and "log_entry (walk_log es l) i = log_entry l i"
proof -
  have "i \<le> log_last (walk_log es l) \<and> log_entry (walk_log es l) i = log_entry l i"
    using assms(1)
  proof (cases rule: walk_log_cases)
    case held
    then show ?thesis using assms(2) by simp
  next
    case (cut n e es')
    then have "i < k + n"
      using assms(2,3) by (cases "k + n \<le> log_last l") simp_all
    then show ?thesis
      using walk_cut(3,4) [OF cut(3,4)] by (simp add: cut(5))
  qed
  then show "i \<le> log_last (walk_log es l)" and "log_entry (walk_log es l) i = log_entry l i"
    by simp_all
qed

lemma walk_conflict_bounds:
  assumes "walkable k es l" and "walk_conflict es l = Some c"
  shows "k \<le> c" "log_base l < c" "c \<le> log_last l" "c < k + length es"
  using assms(1) assms(2) by (cases rule: walk_log_cases; auto split: if_splits)+

section \<open>The loops of the handlers\<close>

lemma replace_tail_ensures:
  assumes wf: "wf_log (log rn)" and k: "log_base (log rn) < k" "k \<le> log_last (log rn)" "\<not> k \<le> commitIndex rn"
  shows "ensures stops_safely (\<lambda>rn'. \<exists>d. rn' = rn\<lparr>disk := d, log := take (k - log_base (log rn)) (log rn) @ es\<rparr>)
    (bind_res (truncateLogLocked k rn) (appendLogLocked es))"
proof (rule ensures_bind [OF truncateLogLocked_ensures [OF wf]])
  fix x
  assume "\<exists>d. x = rn\<lparr>disk := d, log := take (k - log_base (log rn)) (log rn)\<rparr>"
  then show "ensures stops_safely (\<lambda>rn'. \<exists>d. rn' = rn\<lparr>disk := d, log := take (k - log_base (log rn)) (log rn) @ es\<rparr>)
      (appendLogLocked es x)"
    using appendLogLocked_ensures [of x es] by (auto elim!: ensures_mono)
qed (use k in simp_all)

text \<open>A walk over entries that the log already holds touches neither the log nor the store.\<close>

lemma appendWalk_held:
  assumes "walkable k es (log rn)"
    and "\<And>j. j < length es \<Longrightarrow> log_base (log rn) < k + j \<Longrightarrow>
      k + j \<le> log_last (log rn) \<and> log_term (log rn) (k + j) = Term (es ! j)"
  shows "appendWalk (log_base (log rn)) es rn = Inr rn"
  using assms
proof (induction es arbitrary: k)
  case (Cons e es)
  note w = walkable_Cons [OF Cons.prems(1)]
  have first: "k \<le> log_last (log rn)"
    using Cons.prems(2) [of 0] wf_log_base_le_last [OF w(2)] by fastforce
  have "appendWalk (log_base (log rn)) es rn = Inr rn"
    using Cons.prems(2) [of "Suc j" for j]
    by (intro Cons.IH [OF walkable_next [OF Cons.prems(1) first]]) fastforce+
  moreover have "termAt rn k = Inr (Term e)" if "log_base (log rn) < k"
    using Cons.prems(2) [of 0] termAt_wf [OF w(2)] that first by simp
  ultimately show ?case
    using w(1) first lastLogIndex_wf [OF w(2)] by simp
qed simp

lemma appendWalk_ensures:
  assumes "walkable k es (log rn)"
  shows "ensures
           (\<lambda>(p, d). store_panic p \<or>
              (\<exists>c. walk_conflict es (log rn) = Some c \<and> c \<le> commitIndex rn \<and>
                   p = TruncateCommitted c (commitIndex rn)))
           (\<lambda>rn'. (\<exists>d. rn' = rn\<lparr>disk := d, log := walk_log es (log rn)\<rparr>) \<and>
              (\<forall>c. walk_conflict es (log rn) = Some c \<longrightarrow> commitIndex rn < c))
           (appendWalk (log_base (log rn)) es rn)"
  using assms
proof (induction es arbitrary: k)
  case Nil
  have "rn = rn\<lparr>disk := disk rn, log := log rn\<rparr>" by simp
  then show ?case
    by (simp only: appendWalk.simps walk_log.simps walk_conflict.simps ensures_simps) blast
next
  case (Cons e es)
  note w = walkable_Cons [OF Cons.prems]
  have last_ok: "lastLogIndex rn = Inr (log_last (log rn))"
    using w(2) by (rule lastLogIndex_wf)
  consider (below) "k \<le> log_base (log rn)"
    | (same) "log_base (log rn) < k" "k \<le> log_last (log rn)" "log_term (log rn) k = Term e"
    | (clash) "log_base (log rn) < k" "k \<le> log_last (log rn)" "log_term (log rn) k \<noteq> Term e"
    | (beyond) "log_base (log rn) < k" "log_last (log rn) < k"
    by linarith
  then show ?case
  proof cases
    case below
    then show ?thesis
      using Cons.IH [OF walkable_next [OF Cons.prems]] w(1) wf_log_base_le_last [OF w(2)] by simp
  next
    case same
    then have "termAt rn k = Inr (Term e)"
      using termAt_wf [OF w(2)] by simp
    then show ?thesis
      using Cons.IH [OF walkable_next [OF Cons.prems]] same w(1) last_ok by simp
  next
    case clash
    then have t: "termAt rn k = Inr (log_term (log rn) k)"
      using termAt_wf [OF w(2)] by simp
    show ?thesis
    proof (cases "k \<le> commitIndex rn")
      case True
      then show ?thesis using clash t w(1) last_ok by simp
    next
      case False
      have "ensures stops_safely (\<lambda>rn'. \<exists>d. rn' = rn\<lparr>disk := d, log := take (k - log_base (log rn)) (log rn) @ e # es\<rparr>)
          (bind_res (truncateLogLocked k rn) (appendLogLocked (e # es)))"
        using replace_tail_ensures [OF w(2)] clash(1,2) False by simp
      then have "ensures (\<lambda>(p, d). store_panic p \<or>
              (\<exists>c. walk_conflict (e # es) (log rn) = Some c \<and> c \<le> commitIndex rn \<and>
                   p = TruncateCommitted c (commitIndex rn)))
          (\<lambda>rn'. \<exists>d. rn' = rn\<lparr>disk := d, log := take (k - log_base (log rn)) (log rn) @ e # es\<rparr>)
          (bind_res (truncateLogLocked k rn) (appendLogLocked (e # es)))"
        by (rule ensures_mono) auto
      then show ?thesis
        using clash False t w(1) last_ok by simp
    qed
  next
    case beyond
    have "ensures (\<lambda>(p, d). store_panic p \<or>
              (\<exists>c. walk_conflict (e # es) (log rn) = Some c \<and> c \<le> commitIndex rn \<and>
                   p = TruncateCommitted c (commitIndex rn)))
          (\<lambda>rn'. \<exists>d. rn' = rn\<lparr>disk := d, log := log rn @ e # es\<rparr>)
          (appendLogLocked (e # es) rn)"
      by (rule ensures_mono [OF appendLogLocked_ensures]) auto
    then show ?thesis
      using beyond w(1) last_ok by simp
  qed
qed

text \<open>The scan finds the start of the run of equal terms, within the uncompacted log.\<close>

lemma conflictScan_spec:
  assumes "wf_log (log rn)" and "log_base (log rn) \<le> first" and "first \<le> log_last (log rn)"
    and "log_term (log rn) first = t"
  shows "\<exists>f. conflictScan rn (log_base (log rn)) t first = Inr f \<and> f \<le> first \<and>
     min first (log_base (log rn) + 1) \<le> f \<and>
     (\<forall>i. f \<le> i \<and> i \<le> first \<longrightarrow> log_term (log rn) i = t) \<and>
     (f \<le> log_base (log rn) + 1 \<or> log_term (log rn) (f - 1) \<noteq> t)"
  using assms(2-)
proof (induction first rule: less_induct)
  case (less first)
  let ?b = "log_base (log rn)"
  have b1: "u64_add ?b 1 = ?b + 1"
    using wf_log_last_bound [OF assms(1)] wf_log_base_le_last [OF assms(1)] by (simp add: go_simps)
  show ?case
  proof (cases "first > ?b + 1 \<and> log_term (log rn) (first - 1) = t")
    case True
    then have "termAt rn (first - 1) = Inr t"
      using less.prems termAt_wf [OF assms(1), of "first - 1"] by auto
    then have "conflictScan rn ?b t first = conflictScan rn ?b t (first - 1)"
      unfolding conflictScan.simps [of rn ?b t first] b1 using True by simp
    moreover have "first - 1 < first" "?b \<le> first - 1" "first - 1 \<le> log_last (log rn)"
        "log_term (log rn) (first - 1) = t"
      using True less.prems by auto
    note IH = less.IH [OF this]
    obtain f where f: "conflictScan rn ?b t (first - 1) = Inr f" "f \<le> first - 1"
        "min (first - 1) (?b + 1) \<le> f"
        "\<forall>i. f \<le> i \<and> i \<le> first - 1 \<longrightarrow> log_term (log rn) i = t"
        "f \<le> ?b + 1 \<or> log_term (log rn) (f - 1) \<noteq> t"
      using IH by blast
    moreover have "log_term (log rn) i = t" if "f \<le> i" "i \<le> first" for i
      using f(4) that less.prems(3) by (cases "i = first") auto
    ultimately show ?thesis
      using True by (intro exI [of _ f]) auto
  next
    case False
    have "termAt rn (first - 1) = Inr (log_term (log rn) (first - 1))" if "first > ?b + 1"
      using that less.prems termAt_wf [OF assms(1), of "first - 1"] by auto
    then have "conflictScan rn ?b t first = Inr first"
      unfolding conflictScan.simps [of rn ?b t first] b1 using False by auto
    then show ?thesis
      using False less.prems(3) by (intro exI [of _ first]) auto
  qed
qed

end
