(* ===== verification/Raft_Election.thy ===== *)
theory Raft_Election
  imports Raft_Node
begin

text \<open>
  Leader election, \<^verbatim>\<open>raft/election.go\<close>: the ticker's test, \<open>startElectionLocked\<close> with the
  goroutines it launches, the critical section of a vote reply, and \<open>becomeLeaderLocked\<close>.
\<close>

definition becomeLeaderLocked :: "'d RaftNode \<Rightarrow> ('d, 'd RaftNode) outcome" where
  "becomeLeaderLocked rn =
     bind_res (if peers rn = [] then Inr 0 else lastLogIndex rn) (\<lambda>lli.
     Inr (rn\<lparr>state := Leader, leaderID := node_id rn,
             nextIndex := (\<lambda>p. if p \<in> set (peers rn) then Some (u64_add lli 1) else None),
             matchIndex := (\<lambda>p. if p \<in> set (peers rn) then Some 0 else None),
             replicators := currentTerm rn # replicators rn\<rparr>))"

text \<open>
  The election itself. Its counter starts at 1 for the node's own vote; with peers to ask, one
  goroutine per peer is launched with the same arguments.
\<close>

definition startElectionLocked :: "Clock \<Rightarrow> 'd RaftNode \<Rightarrow> ('d, 'd RaftNode) outcome" where
  "startElectionLocked clk rn =
     bind_res (persistLocked (rn\<lparr>state := Candidate, currentTerm := u64_add (currentTerm rn) 1,
                                 votedFor := node_id rn, leaderID := NoID\<rparr>)) (\<lambda>rn.
     let rn = resetElectionTimerLocked clk rn; term = currentTerm rn in
     bind_res (lastLogIndex rn) (\<lambda>lli.
     bind_res (lastLogTerm rn) (\<lambda>llt.
     let args = \<lparr>rva_Term = term, rva_CandidateID = node_id rn,
                 rva_LastLogIndex = lli, rva_LastLogTerm = llt\<rparr>;
         rn = rn\<lparr>votes := (votes rn)(term := 1)\<rparr> in
     if 1 \<ge> quorum rn then becomeLeaderLocked rn
     else Inr (rn\<lparr>voteCalls :=
                   map (\<lambda>p. \<lparr>vc_term = term, vc_peer = p, vc_args = args\<rparr>) (peers rn) @ voteCalls rn\<rparr>))))"

definition runElectionTicker :: "Clock \<Rightarrow> 'd RaftNode \<Rightarrow> ('d, 'd RaftNode) outcome" where
  "runElectionTicker clk rn =
     (if state rn \<noteq> Leader \<and> now clk - electionResetAt rn \<ge> electionTimeout rn
      then startElectionLocked clk rn else Inr rn)"

text \<open>What a reply goroutine of the election of \<open>term\<close> does once its answer is there.\<close>

definition handleVoteReply ::
  "Clock \<Rightarrow> nat \<Rightarrow> RequestVoteReply \<Rightarrow> 'd RaftNode \<Rightarrow> ('d, 'd RaftNode) outcome" where
  "handleVoteReply clk term reply rn =
     (if stopped rn then Inr rn
      else if rvr_Term reply > currentTerm rn then becomeFollowerLocked clk (rvr_Term reply) rn
      else if state rn \<noteq> Candidate \<or> currentTerm rn \<noteq> term then Inr rn
      else if rvr_VoteGranted reply then
        let rn = rn\<lparr>votes := (votes rn)(term := Suc (votes rn term))\<rparr> in
        if votes rn term = quorum rn then becomeLeaderLocked rn else Inr rn
      else Inr rn)"

end
