(* ===== verification/Raft_Replication.thy ===== *)
theory Raft_Replication
  imports Raft_Node
begin

text \<open>
  Log replication on the leader, \<^verbatim>\<open>raft/replication.go\<close>, and \<open>Propose\<close> of \<^verbatim>\<open>raft/node.go\<close>:
  building the messages of a round, digesting replies, the back-off after a rejection and the
  commit rule. The applier of the same file is the theory \<open>Raft_Applier\<close>.
\<close>

section \<open>The commit rule\<close>

text \<open>How many members hold the entry at \<open>n\<close>: the leader itself and the peers that confirmed it.\<close>

definition replicaCount :: "'d RaftNode \<Rightarrow> nat \<Rightarrow> nat" where
  "replicaCount rn n = 1 + length (filter (\<lambda>p. map_get (matchIndex rn) p \<ge> n) (peers rn))"

text \<open>The loop \<open>for n := lastLogIndex(); n > commitIndex; n--\<close>; \<open>None\<close> when it commits nothing.\<close>

fun commitScan :: "'d RaftNode \<Rightarrow> nat \<Rightarrow> ('d, nat option) outcome" where
  "commitScan rn 0 = Inr None"
| "commitScan rn (Suc m) =
     (if Suc m > commitIndex rn then
        bind_res (termAt rn (Suc m)) (\<lambda>t.
        if t \<noteq> currentTerm rn then Inr None
        else if replicaCount rn (Suc m) \<ge> quorum rn then Inr (Some (Suc m))
        else commitScan rn m)
      else Inr None)"

definition advanceCommitIndexLocked :: "'d RaftNode \<Rightarrow> ('d, 'd RaftNode) outcome" where
  "advanceCommitIndexLocked rn =
     (if state rn \<noteq> Leader then Inr rn
      else
        bind_res (lastLogIndex rn) (\<lambda>lli.
        bind_res (commitScan rn lli) (\<lambda>c.
        Inr (case c of None \<Rightarrow> rn | Some n \<Rightarrow> rn\<lparr>commitIndex := n\<rparr>))))"

section \<open>Proposals\<close>

text \<open>\<open>ErrNotLeader\<close> is the only error; the value is the index and term of the new entry.\<close>

datatype propose_error = ErrNotLeader

definition Propose ::
  "bytes \<Rightarrow> 'd RaftNode \<Rightarrow> ('d, (propose_error + nat \<times> nat) \<times> 'd RaftNode) outcome" where
  "Propose command rn =
     (if state rn \<noteq> Leader then Inr (Inl ErrNotLeader, rn)
      else
        bind_res (lastLogIndex rn) (\<lambda>lli.
        let index = u64_add lli 1; term = currentTerm rn in
        bind_res (appendLogLocked [\<lparr>Term = term, Index = index, Command = command\<rparr>] rn) (\<lambda>rn.
        bind_res (advanceCommitIndexLocked rn) (\<lambda>rn.
        Inr (Inr (index, term), rn\<lparr>triggerCh := True\<rparr>)))))"

section \<open>Replication rounds\<close>

datatype outbound = SendEntries node_id AppendEntriesArgs | SendSnapshot node_id

definition buildOutbound :: "nat \<Rightarrow> 'd RaftNode \<Rightarrow> node_id \<Rightarrow> ('d, outbound) outcome" where
  "buildOutbound term rn peer =
     bind_res (baseIndex rn) (\<lambda>base.
     let next = map_get (nextIndex rn) peer in
     if next \<le> base then Inr (SendSnapshot peer)
     else
       let prevIndex = next - 1 in
       bind_res (termAt rn prevIndex) (\<lambda>pt.
       bind_res (entriesFrom rn next) (\<lambda>es.
       Inr (SendEntries peer
         \<lparr>aea_Term = term, aea_LeaderID = node_id rn, aea_PrevLogIndex = prevIndex,
          aea_PrevLogTerm = pt, aea_Entries = es, aea_LeaderCommit = commitIndex rn\<rparr>))))"

fun buildAll :: "nat \<Rightarrow> 'd RaftNode \<Rightarrow> node_id list \<Rightarrow> ('d, outbound list) outcome" where
  "buildAll term rn [] = Inr []"
| "buildAll term rn (p # ps) =
     bind_res (buildOutbound term rn p) (\<lambda>m.
     bind_res (buildAll term rn ps) (\<lambda>ms. Inr (m # ms)))"

text \<open>The messages of a round, or \<open>None\<close> when this node no longer leads \<open>term\<close> (the loop exits).\<close>

definition replicationRound :: "nat \<Rightarrow> 'd RaftNode \<Rightarrow> ('d, outbound list option) outcome" where
  "replicationRound term rn =
     (if state rn \<noteq> Leader \<or> currentTerm rn \<noteq> term then Inr None
      else bind_res (buildAll term rn (peers rn)) (\<lambda>ms. Inr (Some ms)))"

text \<open>
  One turn of \<open>runReplication\<close>: a round, then the select, whose choice is an input. The loop
  ends when the round reports the end of the leadership or the stop channel is chosen.
\<close>

datatype wakeup = StopCh | TickerC | TriggerCh

definition runReplication ::
  "nat \<Rightarrow> wakeup \<Rightarrow> 'd RaftNode \<Rightarrow> ('d, outbound list \<times> 'd RaftNode) outcome" where
  "runReplication term w rn =
     bind_res (replicationRound term rn) (\<lambda>r.
     case r of
       None \<Rightarrow> Inr ([], rn\<lparr>replicators := remove1 term (replicators rn)\<rparr>)
     | Some ms \<Rightarrow>
         Inr (ms, case w of
                    StopCh \<Rightarrow> rn\<lparr>replicators := remove1 term (replicators rn)\<rparr>
                  | TickerC \<Rightarrow> rn
                  | TriggerCh \<Rightarrow> rn\<lparr>triggerCh := False\<rparr>))"

section \<open>Digesting replies\<close>

text \<open>The backwards scan for the leader's last entry of the conflicting term, from slot \<open>i\<close>.\<close>

fun lastOfTerm :: "LogEntry list \<Rightarrow> nat \<Rightarrow> nat \<Rightarrow> nat option" where
  "lastOfTerm l ct 0 = None"
| "lastOfTerm l ct (Suc i) =
     (if Term (l ! Suc i) = ct then Some (u64_add (Index (l ! Suc i)) 1)
      else if Term (l ! Suc i) < ct then None
      else lastOfTerm l ct i)"

definition nextIndexAfterRejection :: "LogEntry list \<Rightarrow> nat \<Rightarrow> AppendEntriesReply \<Rightarrow> nat" where
  "nextIndexAfterRejection l prevLogIndex reply =
     (if aer_ConflictTerm reply = 0 then
        if aer_ConflictIndex reply \<ge> 1 then aer_ConflictIndex reply
        else if prevLogIndex \<ge> 1 then prevLogIndex
        else 1
      else case lastOfTerm l (aer_ConflictTerm reply) (length l - 1) of
             Some n \<Rightarrow> n
           | None \<Rightarrow> aer_ConflictIndex reply)"

definition handleAppendEntriesReply ::
  "Clock \<Rightarrow> node_id \<Rightarrow> nat \<Rightarrow> AppendEntriesArgs \<Rightarrow> AppendEntriesReply \<Rightarrow> 'd RaftNode
   \<Rightarrow> ('d, 'd RaftNode) outcome" where
  "handleAppendEntriesReply clk peer term args reply rn =
     (if stopped rn then Inr rn
      else if aer_Term reply > currentTerm rn then becomeFollowerLocked clk (aer_Term reply) rn
      else if state rn \<noteq> Leader \<or> currentTerm rn \<noteq> term then Inr rn
      else if aer_Success reply then
        let matched = u64_add (aea_PrevLogIndex args) (length (aea_Entries args)) in
        if matched > map_get (matchIndex rn) peer then
          advanceCommitIndexLocked
            (rn\<lparr>matchIndex := (matchIndex rn)(peer \<mapsto> matched),
                nextIndex := (nextIndex rn)(peer \<mapsto> u64_add matched 1)\<rparr>)
        else Inr rn
      else
        let next = nextIndexAfterRejection (log rn) (aea_PrevLogIndex args) reply;
            rn = (if next < map_get (nextIndex rn) peer
                  then rn\<lparr>nextIndex := (nextIndex rn)(peer \<mapsto> next)\<rparr> else rn)
        in Inr (rn\<lparr>triggerCh := True\<rparr>))"

section \<open>Sending a snapshot\<close>

text \<open>
  The two halves of \<open>sendSnapshot\<close>, before and after the call. Loading happens without the
  lock; a store that is nil is dereferenced.
\<close>

definition sendSnapshot_args ::
  "nat \<Rightarrow> 'd RaftNode \<Rightarrow> ('d, (Snapshot \<times> InstallSnapshotArgs) option) outcome" where
  "sendSnapshot_args term rn =
     (case SnapshotStore (cfg rn) of
        None \<Rightarrow> Inl (NilDereference, disk rn)
      | Some ss \<Rightarrow>
          (case LoadSnapshot ss (disk rn) of
             Inl _ \<Rightarrow> Inr None
           | Inr None \<Rightarrow> Inr None
           | Inr (Some snap) \<Rightarrow>
               Inr (Some (snap,
                 \<lparr>isa_Term = term, isa_LeaderID = node_id rn,
                  isa_LastIncludedIndex = LastIncludedIndex snap,
                  isa_LastIncludedTerm = LastIncludedTerm snap,
                  isa_Offset = 0, isa_Data = Data snap, isa_Done = True\<rparr>))))"

definition sendSnapshot_reply ::
  "Clock \<Rightarrow> node_id \<Rightarrow> nat \<Rightarrow> Snapshot \<Rightarrow> InstallSnapshotReply \<Rightarrow> 'd RaftNode
   \<Rightarrow> ('d, 'd RaftNode) outcome" where
  "sendSnapshot_reply clk peer term snap reply rn =
     (if stopped rn then Inr rn
      else if isr_Term reply > currentTerm rn then becomeFollowerLocked clk (isr_Term reply) rn
      else if state rn \<noteq> Leader \<or> currentTerm rn \<noteq> term then Inr rn
      else if LastIncludedIndex snap > map_get (matchIndex rn) peer then
        Inr (rn\<lparr>matchIndex := (matchIndex rn)(peer \<mapsto> LastIncludedIndex snap),
                nextIndex := (nextIndex rn)(peer \<mapsto> u64_add (LastIncludedIndex snap) 1)\<rparr>)
      else Inr rn)"

end
