(* ===== verification/Raft_Applier.thy ===== *)
theory Raft_Applier
  imports Raft_Replication
begin

text \<open>
  The applier goroutine of \<^verbatim>\<open>raft/replication.go\<close>. \<open>runApplier\<close> gives the lock up while it
  calls the state machine, so its loop is cut at those points: \<open>applierPC\<close> says which call is
  in progress, and \<open>applierStep\<close> runs that call and the critical section after it. RPC handlers
  may run between two steps. Only the applier calls the state machine, so its state is a
  component of the applier.
\<close>

datatype applierPC =
    AtLoop
  | Restoring Snapshot
  | Applying "LogEntry list"
  | Serializing nat nat
  | Exited

text \<open>From the loop head to the first point where the lock is free: \<open>Wait\<close>, \<open>Restore\<close> or \<open>Apply\<close>.\<close>

definition applierLoop :: "'d RaftNode \<Rightarrow> ('d, applierPC \<times> 'd RaftNode) outcome" where
  "applierLoop rn =
     (if pendingSnapshot rn = None \<and> lastApplied rn \<ge> commitIndex rn \<and> \<not> stopped rn
      then Inr (AtLoop, rn)
      else if stopped rn then Inr (Exited, rn)
      else case pendingSnapshot rn of
        Some snap \<Rightarrow>
          (let rn = rn\<lparr>pendingSnapshot := None\<rparr> in
           if LastIncludedIndex snap > lastApplied rn then Inr (Restoring snap, rn)
           else Inr (AtLoop, rn))
      | None \<Rightarrow>
          bind_res (entriesFrom rn (u64_add (lastApplied rn) 1)) (\<lambda>batch.
          bind_res (rt rn (go_slice_to batch (u64_sub (commitIndex rn) (lastApplied rn)))) (\<lambda>batch.
          Inr (Applying batch, rn))))"

text \<open>\<open>maybeSnapshotLocked\<close> up to the call of \<open>Snapshot\<close>, and after it.\<close>

definition maybeSnapshot_begin :: "'d RaftNode \<Rightarrow> ('d, applierPC) outcome" where
  "maybeSnapshot_begin rn =
     (if SnapshotStore (cfg rn) = None \<or> SnapshotThreshold (cfg rn) = 0 \<or> \<not> stateMachine rn
      then Inr AtLoop
      else
        bind_res (baseIndex rn) (\<lambda>base.
        if u64_sub (lastApplied rn) base < SnapshotThreshold (cfg rn) then Inr AtLoop
        else bind_res (termAt rn (lastApplied rn)) (\<lambda>snapTerm.
             Inr (Serializing (lastApplied rn) snapTerm))))"

definition maybeSnapshot_finish ::
  "nat \<Rightarrow> nat \<Rightarrow> err + bytes \<Rightarrow> 'd RaftNode \<Rightarrow> ('d, 'd RaftNode) outcome" where
  "maybeSnapshot_finish snapIndex snapTerm serialized rn =
     (case serialized of
        Inl e \<Rightarrow> Inl (SerializeSnapshot e, disk rn)
      | Inr data \<Rightarrow>
          bind_res (baseIndex rn) (\<lambda>base.
          if snapIndex \<le> base then Inr rn
          else case SnapshotStore (cfg rn) of
            None \<Rightarrow> Inl (NilDereference, disk rn)
          | Some ss \<Rightarrow>
              (case SaveSnapshot ss \<lparr>LastIncludedIndex = snapIndex, LastIncludedTerm = snapTerm,
                                     Data = data\<rparr> (disk rn) of
                 (d, Some e) \<Rightarrow> Inl (PersistSnapshot e, d)
               | (d, None) \<Rightarrow> compactLogLocked snapIndex snapTerm (rn\<lparr>disk := d\<rparr>))))"

record ('d, 's) Applier =
  apc :: applierPC
  machine :: 's
  anode :: "'d RaftNode"

definition applierStep ::
  "'s StateMachineOps \<Rightarrow> ('d, 's) Applier \<Rightarrow> ('d, ('d, 's) Applier) outcome" where
  "applierStep ops a =
     (let rn = anode a; sm = machine a in
      case apc a of
        Exited \<Rightarrow> Inr a
      | AtLoop \<Rightarrow>
          bind_res (applierLoop rn) (\<lambda>(pc, rn). Inr (a\<lparr>apc := pc, anode := rn\<rparr>))
      | Restoring snap \<Rightarrow>
          if \<not> stateMachine rn then Inl (NilDereference, disk rn)
          else (case sm_Restore ops (Data snap) sm of
                  (sm', Some e) \<Rightarrow> Inl (RestoreSnapshot e, disk rn)
                | (sm', None) \<Rightarrow>
                    Inr (a\<lparr>apc := AtLoop, machine := sm',
                           anode := rn\<lparr>lastApplied := LastIncludedIndex snap\<rparr>\<rparr>))
      | Applying batch \<Rightarrow>
          (let sm' = (if stateMachine rn then fold (sm_Apply ops) batch sm else sm);
               rn = rn\<lparr>lastApplied := u64_add (lastApplied rn) (length batch)\<rparr>
           in bind_res (maybeSnapshot_begin rn) (\<lambda>pc.
              Inr (a\<lparr>apc := pc, machine := sm', anode := rn\<rparr>)))
      | Serializing snapIndex snapTerm \<Rightarrow>
          bind_res (maybeSnapshot_finish snapIndex snapTerm (sm_Snapshot ops sm) rn) (\<lambda>rn.
          Inr (a\<lparr>apc := AtLoop, anode := rn\<rparr>)))"

end
