(* ===== verification/Raft_Invariant.thy ===== *)
theory Raft_Invariant
  imports Raft_Handlers Raft_Election Raft_Applier
begin

text \<open>
  The invariant of a node and its preservation by the RPC handlers, the election and the
  replication code. Each lemma also says which panics remain possible: on a well-formed node
  no operation indexes the log out of range, so only the fail-stop panics of the stores and
  the assertion against truncating committed entries are left.
\<close>

section \<open>The invariant\<close>

definition progress_ok :: "'d RaftNode \<Rightarrow> bool" where
  "progress_ok rn \<longleftrightarrow> (state rn = Leader \<longrightarrow>
     (\<forall>p \<in> set (peers rn). map_get (nextIndex rn) p \<le> log_last (log rn) + 1 \<and>
        map_get (matchIndex rn) p \<le> log_last (log rn)))"

definition wf_node :: "'d RaftNode \<Rightarrow> bool" where
  "wf_node rn \<longleftrightarrow> Store (cfg rn) \<noteq> None \<and> currentTerm rn < u64_size \<and> wf_log (log rn) \<and>
     log_base (log rn) \<le> commitIndex rn \<and> commitIndex rn \<le> log_last (log rn) \<and>
     lastApplied rn \<le> commitIndex rn \<and> progress_ok rn"

text \<open>Well-formed arguments: what a leader that satisfies the invariant sends.\<close>

definition wf_aea :: "AppendEntriesArgs \<Rightarrow> bool" where
  "wf_aea args \<longleftrightarrow> aea_Term args < u64_size \<and>
     contiguous_from (aea_PrevLogIndex args + 1) (aea_Entries args) \<and>
     aea_PrevLogIndex args + 1 + length (aea_Entries args) < u64_size"

definition wf_isa :: "InstallSnapshotArgs \<Rightarrow> bool" where
  "wf_isa args \<longleftrightarrow> isa_Term args < u64_size \<and> isa_LastIncludedIndex args + 1 < u64_size"

section \<open>Specifications of the handlers\<close>

text \<open>The candidate's log is at least as up to date as \<open>l\<close>: last terms first, then last indexes.\<close>

definition up_to_date :: "RequestVoteArgs \<Rightarrow> LogEntry list \<Rightarrow> bool" where
  "up_to_date args l \<longleftrightarrow> rva_LastLogTerm args > Term (last l) \<or>
     rva_LastLogTerm args = Term (last l) \<and> rva_LastLogIndex args \<ge> log_last l"

text \<open>The vote in force when a request for \<open>term\<close> is judged.\<close>

definition vote_in :: "nat \<Rightarrow> 'd RaftNode \<Rightarrow> node_id" where
  "vote_in term rn = (if term > currentTerm rn then NoID else votedFor rn)"

definition grants_vote :: "RequestVoteArgs \<Rightarrow> 'd RaftNode \<Rightarrow> bool" where
  "grants_vote args rn \<longleftrightarrow> \<not> stopped rn \<and> currentTerm rn \<le> rva_Term args \<and>
     up_to_date args (log rn) \<and> vote_in (rva_Term args) rn \<in> {NoID, rva_CandidateID args}"

text \<open>The consistency check of AppendEntries on a log.\<close>

definition accepts :: "AppendEntriesArgs \<Rightarrow> LogEntry list \<Rightarrow> bool" where
  "accepts args l \<longleftrightarrow> aea_PrevLogIndex args \<le> log_last l \<and>
     (log_base l \<le> aea_PrevLogIndex args \<longrightarrow>
        log_term l (aea_PrevLogIndex args) = aea_PrevLogTerm args)"

definition follower_commit :: "AppendEntriesArgs \<Rightarrow> nat \<Rightarrow> nat" where
  "follower_commit args c =
     max c (min (aea_LeaderCommit args) (aea_PrevLogIndex args + length (aea_Entries args)))"

text \<open>A node that has acknowledged \<open>leader\<close> as the leader of \<open>term\<close>.\<close>

definition contacted :: "nat \<Rightarrow> node_id \<Rightarrow> 'd RaftNode \<Rightarrow> 'd RaftNode \<Rightarrow> bool" where
  "contacted term leader rn rn' \<longleftrightarrow> same_ident rn rn' \<and> same_log rn rn' \<and> same_calls rn rn' \<and>
     currentTerm rn' = term \<and> votedFor rn' = vote_in term rn \<and>
     state rn' = Follower \<and> leaderID rn' = leader"

definition retained :: "InstallSnapshotArgs \<Rightarrow> LogEntry list \<Rightarrow> LogEntry list" where
  "retained args l =
     (if isa_LastIncludedIndex args \<le> log_last l \<and> log_base l \<le> isa_LastIncludedIndex args \<and>
         log_term l (isa_LastIncludedIndex args) = isa_LastIncludedTerm args
      then drop (isa_LastIncludedIndex args + 1 - log_base l) l else [])"

section \<open>Stepping down\<close>

lemma wf_node_ids [wf_dests]:
  assumes "wf_node rn"
  shows "Store (cfg rn) \<noteq> None" "wf_log (log rn)" "currentTerm rn < u64_size"
    "log_base (log rn) \<le> commitIndex rn" "commitIndex rn \<le> log_last (log rn)"
    "lastApplied rn \<le> commitIndex rn"
  using assms by (simp_all add: wf_node_def)

lemma wf_node_steppedDown:
  "wf_node rn \<Longrightarrow> steppedDown term rn rn' \<Longrightarrow> term < u64_size \<Longrightarrow> wf_node rn'"
  by (auto simp: wf_node_def steppedDown_def frame_defs progress_ok_def)

lemma wf_node_contacted:
  "wf_node rn \<Longrightarrow> contacted term ld rn rn' \<Longrightarrow> term < u64_size \<Longrightarrow> wf_node rn'"
  by (auto simp: wf_node_def contacted_def frame_defs progress_ok_def)

lemma becomeFollowerLocked_wf:
  assumes "wf_node rn" and "term < u64_size"
  shows "ensures stops_safely (\<lambda>rn'. wf_node rn' \<and> steppedDown term rn rn')
           (becomeFollowerLocked clk term rn)"
  by (rule ensures_mono [OF becomeFollowerLocked_ensures])
    (use assms wf_node_steppedDown in \<open>auto simp: wf_dests\<close>)

text \<open>
  The opening that AppendEntries and InstallSnapshot share: adopt the term, step down, note the
  leader and restart the timer; then the rest, \<open>F\<close>, runs on the node reached.
\<close>

lemma leader_contact_rule:
  assumes st: "Store (cfg rn) \<noteq> None" and le: "currentTerm rn \<le> term"
    and P: "\<And>p d. store_panic p \<Longrightarrow> P (p, d)"
    and F: "\<And>rn'. contacted term leader rn rn' \<Longrightarrow> ensures P Q (F term rn')"
  shows "ensures P Q
    (bind_res (if term > currentTerm rn then becomeFollowerLocked clk term rn else Inr rn) (\<lambda>r1.
     if term < currentTerm r1 then A r1
     else bind_res (if state r1 \<noteq> Follower then becomeFollowerLocked clk term r1 else Inr r1) (\<lambda>r2.
          F (currentTerm r1) (resetElectionTimerLocked clk (r2\<lparr>leaderID := leader\<rparr>)))))"
proof (rule ensures_bind)
  let ?Q1 = "\<lambda>r1. same_ident rn r1 \<and> same_log rn r1 \<and> same_calls rn r1 \<and>
    currentTerm r1 = term \<and> votedFor r1 = vote_in term rn"
  show "ensures P ?Q1
      (if term > currentTerm rn then becomeFollowerLocked clk term rn else Inr rn)"
  proof (cases "term > currentTerm rn")
    case True
    then show ?thesis
      using becomeFollowerLocked_ensures [OF st, of "term" clk] P
      by (auto elim!: ensures_mono simp: steppedDown_def vote_in_def max_def)
  next
    case False
    then show ?thesis using le by (simp add: frame_defs vote_in_def)
  qed
  fix r1
  assume r1: "?Q1 r1"
  let ?Q2 = "\<lambda>r2. same_ident rn r2 \<and> same_log rn r2 \<and> same_calls rn r2 \<and>
    currentTerm r2 = term \<and> votedFor r2 = vote_in term rn \<and> state r2 = Follower"
  have "ensures P ?Q2 (if state r1 \<noteq> Follower then becomeFollowerLocked clk term r1 else Inr r1)"
  proof (cases "state r1 = Follower")
    case False
    have "Store (cfg r1) \<noteq> None" using st r1 by (simp add: frame_defs)
    from becomeFollowerLocked_ensures [OF this, of "term" clk] show ?thesis
      using False P r1 by (auto elim!: ensures_mono simp: steppedDown_def frame_defs)
  qed (use r1 in simp)
  then have "ensures P Q
      (bind_res (if state r1 \<noteq> Follower then becomeFollowerLocked clk term r1 else Inr r1) (\<lambda>r2.
          F (currentTerm r1) (resetElectionTimerLocked clk (r2\<lparr>leaderID := leader\<rparr>))))"
  proof (rule ensures_bind)
    fix r2
    assume "?Q2 r2"
    then have "contacted term leader rn (resetElectionTimerLocked clk (r2\<lparr>leaderID := leader\<rparr>))"
      by (simp add: contacted_def frame_defs)
    then show "ensures P Q
        (F (currentTerm r1) (resetElectionTimerLocked clk (r2\<lparr>leaderID := leader\<rparr>)))"
      using F r1 by simp
  qed
  then show "ensures P Q
      (if term < currentTerm r1 then A r1
       else bind_res (if state r1 \<noteq> Follower then becomeFollowerLocked clk term r1 else Inr r1) (\<lambda>r2.
          F (currentTerm r1) (resetElectionTimerLocked clk (r2\<lparr>leaderID := leader\<rparr>))))"
    using r1 by simp
qed

section \<open>RequestVote\<close>

definition vote_post :: "RequestVoteArgs \<Rightarrow> 'd RaftNode \<Rightarrow> RequestVoteReply \<Rightarrow> 'd RaftNode \<Rightarrow> bool" where
  "vote_post args rn reply rn' \<longleftrightarrow>
     rvr_VoteGranted reply = grants_vote args rn \<and> rvr_Term reply = currentTerm rn' \<and>
     currentTerm rn' = (if stopped rn then currentTerm rn else max (rva_Term args) (currentTerm rn)) \<and>
     votedFor rn' = (if grants_vote args rn then rva_CandidateID args
                     else if stopped rn then votedFor rn else vote_in (rva_Term args) rn) \<and>
     state rn' = (if \<not> stopped rn \<and> rva_Term args > currentTerm rn then Follower else state rn) \<and>
     same_ident rn rn' \<and> same_log rn rn' \<and> same_calls rn rn'"

definition decide_post :: "RequestVoteArgs \<Rightarrow> 'd RaftNode \<Rightarrow> RequestVoteReply \<Rightarrow> 'd RaftNode \<Rightarrow> bool" where
  "decide_post args r reply rn' \<longleftrightarrow> rvr_Term reply = currentTerm r \<and> currentTerm rn' = currentTerm r \<and>
     state rn' = state r \<and> same_ident r rn' \<and> same_log r rn' \<and> same_calls r rn' \<and>
     rvr_VoteGranted reply = (currentTerm r \<le> rva_Term args \<and> up_to_date args (log r) \<and>
        votedFor r \<in> {NoID, rva_CandidateID args}) \<and>
     votedFor rn' = (if rvr_VoteGranted reply then rva_CandidateID args else votedFor r)"

lemma decideVote_spec:
  assumes wf: "wf_log (log r)" and st: "Store (cfg r) \<noteq> None"
  shows "ensures stops_safely (\<lambda>(reply, rn'). decide_post args r reply rn') (decideVote clk args r)"
proof (cases "currentTerm r \<le> rva_Term args \<and> up_to_date args (log r) \<and>
    votedFor r \<in> {NoID, rva_CandidateID args}")
  case True
  have "ensures stops_safely (\<lambda>rn'. \<exists>d. rn' = r\<lparr>votedFor := rva_CandidateID args, disk := d\<rparr>)
      (persistLocked (r\<lparr>votedFor := rva_CandidateID args\<rparr>))"
    using persistLocked_ensures [of "r\<lparr>votedFor := rva_CandidateID args\<rparr>"] st by simp
  then show ?thesis
    using True wf
    by (cases "persistLocked (r\<lparr>votedFor := rva_CandidateID args\<rparr>)")
      (auto simp: decideVote_def Let_def go_simps up_to_date_def frame_defs decide_post_def)
next
  case False
  then have "decideVote clk args r = Inr (\<lparr>rvr_Term = currentTerm r, rvr_VoteGranted = False\<rparr>, r)"
    using wf by (auto simp: decideVote_def Let_def go_simps up_to_date_def)
  then show ?thesis
    using False by (simp add: decide_post_def)
qed

lemma HandleRequestVote_spec:
  assumes wf: "wf_node rn"
  shows "ensures stops_safely (\<lambda>(reply, rn'). vote_post args rn reply rn')
           (HandleRequestVote clk args rn)"
proof (cases "stopped rn")
  case True
  then show ?thesis
    by (simp add: HandleRequestVote_def vote_post_def grants_vote_def frame_defs)
next
  case running: False
  let ?Q1 = "\<lambda>r. same_ident rn r \<and> same_log rn r \<and> same_calls rn r \<and>
    currentTerm r = max (rva_Term args) (currentTerm rn) \<and> votedFor r = vote_in (rva_Term args) rn \<and>
    state r = (if rva_Term args > currentTerm rn then Follower else state rn)"
  have first: "ensures stops_safely ?Q1
      (if rva_Term args > currentTerm rn then becomeFollowerLocked clk (rva_Term args) rn else Inr rn)"
  proof (cases "rva_Term args > currentTerm rn")
    case True
    then show ?thesis
      using becomeFollowerLocked_ensures [of rn "rva_Term args" clk] wf
      by (auto elim!: ensures_mono simp: steppedDown_def vote_in_def wf_dests)
  qed (simp add: frame_defs vote_in_def)
  have post: "vote_post args rn reply rn'" if r: "?Q1 r" and d: "decide_post args r reply rn'" for r reply rn'
  proof -
    have "same_ident rn rn'" "same_log rn rn'" "same_calls rn rn'"
      using r d same_trans unfolding decide_post_def by blast+
    then show ?thesis
      using r d running same_logD(1) [of rn r]
      by (auto simp: decide_post_def vote_post_def grants_vote_def)
  qed
  have second: "ensures stops_safely (\<lambda>(reply, rn'). vote_post args rn reply rn') (decideVote clk args r)"
    if r: "?Q1 r" for r
  proof (rule ensures_mono [OF decideVote_spec])
    show "wf_log (log r)" "Store (cfg r) \<noteq> None"
      using r wf same_logD(1) [of rn r] same_identD(1) [of rn r] by (simp_all add: wf_dests)
  qed (use post [OF r] in auto)
  show ?thesis
    using running ensures_bind [OF first second] by (simp add: HandleRequestVote_def)
qed

section \<open>AppendEntries\<close>

text \<open>The hint of a rejection: one past a log that is too short, or the conflicting run of terms.\<close>

definition conflict_run :: "LogEntry list \<Rightarrow> nat \<Rightarrow> nat \<Rightarrow> bool" where
  "conflict_run l prev f \<longleftrightarrow> f \<le> prev \<and> min prev (log_base l + 1) \<le> f \<and>
     (\<forall>i. f \<le> i \<and> i \<le> prev \<longrightarrow> log_term l i = log_term l prev) \<and>
     (f \<le> log_base l + 1 \<or> log_term l (f - 1) \<noteq> log_term l prev)"

lemma consistencyCheck_cases:
  assumes wf: "wf_log (log rn)"
  obtains
    (accept) "accepts args (log rn)" "consistencyCheck args rn = Inr None"
  | (short) "\<not> accepts args (log rn)" "log_last (log rn) < aea_PrevLogIndex args"
      "consistencyCheck args rn = Inr (Some (log_last (log rn) + 1, 0))"
  | (clash) f where "\<not> accepts args (log rn)" "log_base (log rn) \<le> aea_PrevLogIndex args"
      "aea_PrevLogIndex args \<le> log_last (log rn)"
      "log_term (log rn) (aea_PrevLogIndex args) \<noteq> aea_PrevLogTerm args"
      "consistencyCheck args rn = Inr (Some (f, log_term (log rn) (aea_PrevLogIndex args)))"
      "conflict_run (log rn) (aea_PrevLogIndex args) f"
proof -
  let ?p = "aea_PrevLogIndex args"
  have last1: "u64_add (log_last (log rn)) 1 = log_last (log rn) + 1"
    using wf_log_last_bound [OF wf] by (rule u64_add_small)
  note ok = baseIndex_wf [OF wf] lastLogIndex_wf [OF wf]
  show thesis
  proof (cases "?p > log_last (log rn)")
    case True
    show thesis
      by (rule short) (use True ok last1 in \<open>simp_all add: consistencyCheck_def accepts_def\<close>)
  next
    case in_reach: False
    show thesis
    proof (cases "log_base (log rn) \<le> ?p \<and> log_term (log rn) ?p \<noteq> aea_PrevLogTerm args")
      case True
      have t: "termAt rn ?p = Inr (log_term (log rn) ?p)"
        using True in_reach by (intro termAt_wf [OF wf]) simp_all
      obtain f where f: "conflictScan rn (log_base (log rn)) (log_term (log rn) ?p) ?p = Inr f"
          "conflict_run (log rn) ?p f"
        using conflictScan_spec [OF wf _ _ refl, of ?p] True in_reach
        unfolding conflict_run_def not_less by blast
      show thesis
        by (rule clash [of f])
          (use True in_reach f(2) in \<open>simp_all add: consistencyCheck_def accepts_def ok t f(1)\<close>)
    next
      case False
      have "termAt rn ?p = Inr (log_term (log rn) ?p)" if "log_base (log rn) \<le> ?p"
        using that in_reach by (intro termAt_wf [OF wf]) simp_all
      then show thesis
        by (intro accept) (use False in_reach in \<open>auto simp: consistencyCheck_def accepts_def ok\<close>)
    qed
  qed
qed

lemma advanceFollowerCommit_spec:
  assumes "wf_aea args"
  shows "advanceFollowerCommit args rn = rn\<lparr>commitIndex := follower_commit args (commitIndex rn)\<rparr>"
  using assms
  by (auto simp: advanceFollowerCommit_def follower_commit_def wf_aea_def go_simps Let_def max_def min_def)

lemma walkable_aea:
  assumes "wf_log l" and "wf_aea args" and "accepts args l"
  shows "walkable (aea_PrevLogIndex args + 1) (aea_Entries args) l"
  using assms by (simp add: walkable_def wf_aea_def accepts_def)

text \<open>The panic that the source raises to report a violation of Leader Completeness.\<close>

definition truncates_committed :: "AppendEntriesArgs \<Rightarrow> 'd RaftNode \<Rightarrow> bool" where
  "truncates_committed args rn \<longleftrightarrow>
     (\<exists>c. walk_conflict (aea_Entries args) (log rn) = Some c \<and> c \<le> commitIndex rn)"

definition append_panic :: "AppendEntriesArgs \<Rightarrow> 'd RaftNode \<Rightarrow> panic \<times> 'd \<Rightarrow> bool" where
  "append_panic args rn = (\<lambda>(p, d). store_panic p \<or>
     truncates_committed args rn \<and> (\<exists>c. p = TruncateCommitted c (commitIndex rn)))"

definition append_post ::
  "AppendEntriesArgs \<Rightarrow> 'd RaftNode \<Rightarrow> AppendEntriesReply \<Rightarrow> 'd RaftNode \<Rightarrow> bool" where
  "append_post args rn reply rn' \<longleftrightarrow>
     (if accepts args (log rn)
      then aer_Success reply \<and> \<not> truncates_committed args rn \<and>
           log rn' = walk_log (aea_Entries args) (log rn) \<and>
           commitIndex rn' = follower_commit args (commitIndex rn)
      else \<not> aer_Success reply \<and> log rn' = log rn \<and> commitIndex rn' = commitIndex rn) \<and>
     same_ident rn rn' \<and> same_calls rn rn' \<and> lastApplied rn' = lastApplied rn \<and>
     pendingSnapshot rn' = pendingSnapshot rn \<and> currentTerm rn' = currentTerm rn \<and>
     votedFor rn' = votedFor rn \<and> state rn' = state rn \<and> leaderID rn' = leaderID rn"

lemma appendToLog_spec:
  assumes wf: "wf_log (log rn)" and args: "wf_aea args" and rej: "\<not> aer_Success reply"
  shows "ensures (append_panic args rn)
           (\<lambda>(reply', rn'). append_post args rn reply' rn' \<and> aer_Term reply' = aer_Term reply)
           (appendToLog args reply rn)"
proof (cases "accepts args (log rn)")
  case True
  then have check: "consistencyCheck args rn = Inr None"
    using consistencyCheck_cases [OF wf, of args] by blast
  have walk: "ensures (append_panic args rn)
      (\<lambda>rn'. (\<exists>d. rn' = rn\<lparr>disk := d, log := walk_log (aea_Entries args) (log rn)\<rparr>) \<and>
         \<not> truncates_committed args rn)
      (appendWalk (log_base (log rn)) (aea_Entries args) rn)"
    by (rule ensures_mono [OF appendWalk_ensures [OF walkable_aea [OF wf args True]]])
      (auto simp: append_panic_def truncates_committed_def)
  show ?thesis
    unfolding appendToLog_def check bind_res_simps option.case baseIndex_wf [OF wf]
    by (rule ensures_bind [OF walk])
      (use True in \<open>auto simp: advanceFollowerCommit_spec [OF args] append_post_def frame_defs\<close>)
next
  case False
  then obtain ci ct where "consistencyCheck args rn = Inr (Some (ci, ct))"
    using consistencyCheck_cases [OF wf, of args] by blast
  then show ?thesis
    using False rej by (simp add: appendToLog_def append_post_def frame_defs)
qed

definition hae_post ::
  "AppendEntriesArgs \<Rightarrow> 'd RaftNode \<Rightarrow> AppendEntriesReply \<Rightarrow> 'd RaftNode \<Rightarrow> bool" where
  "hae_post args rn reply rn' \<longleftrightarrow>
     (if stopped rn \<or> aea_Term args < currentTerm rn
      then reply = rejectAppend (currentTerm rn) \<and> rn' = rn
      else \<exists>r. contacted (aea_Term args) (aea_LeaderID args) rn r \<and>
             append_post args r reply rn' \<and> aer_Term reply = aea_Term args)"

lemma append_panic_contacted:
  "contacted t ld rn r \<Longrightarrow> append_panic args r = append_panic args rn"
  by (simp add: append_panic_def truncates_committed_def contacted_def same_log_def)

lemma HandleAppendEntries_spec:
  assumes wf: "wf_node rn" and args: "wf_aea args"
  shows "ensures (append_panic args rn) (\<lambda>(reply, rn'). hae_post args rn reply rn')
           (HandleAppendEntries clk args rn)"
proof (cases "stopped rn \<or> aea_Term args < currentTerm rn")
  case True
  then have "HandleAppendEntries clk args rn = Inr (rejectAppend (currentTerm rn), rn)"
    by (auto simp: HandleAppendEntries_def)
  then show ?thesis using True by (simp add: hae_post_def)
next
  case False
  have F: "ensures (append_panic args rn) (\<lambda>(reply, rn'). hae_post args rn reply rn')
      (appendToLog args (rejectAppend (aea_Term args)) r)"
    if r: "contacted (aea_Term args) (aea_LeaderID args) rn r" for r
  proof -
    have "wf_log (log r)"
      using r wf same_logD(1) [of rn r] by (simp add: contacted_def wf_dests)
    then have "ensures (append_panic args r)
        (\<lambda>(reply, rn'). append_post args r reply rn' \<and> aer_Term reply = aer_Term (rejectAppend (aea_Term args)))
        (appendToLog args (rejectAppend (aea_Term args)) r)"
      using args by (intro appendToLog_spec) (simp_all add: rejectAppend_def)
    then show ?thesis
      unfolding append_panic_contacted [OF r]
      by (rule ensures_mono) (use r False in \<open>auto simp: hae_post_def rejectAppend_def\<close>)
  qed
  have running: "\<not> stopped rn" and cur: "currentTerm rn \<le> aea_Term args"
    using False by simp_all
  show ?thesis
    unfolding HandleAppendEntries_def if_not_P [OF running]
    by (rule leader_contact_rule [where F = "\<lambda>t r. appendToLog args (rejectAppend t) r" and
          A = "\<lambda>r1. Inr (rejectAppend (currentTerm r1), r1)", OF wf_node_ids(1) [OF wf] cur _ F])
      (simp_all add: append_panic_def)
qed

lemma append_post_wf:
  assumes wf: "wf_node r" and args: "wf_aea args" and post: "append_post args r reply rn'"
    and st: "state r = Follower"
  shows "wf_node rn'"
proof (cases "accepts args (log r)")
  case True
  note wl = wf_node_ids(2) [OF wf]
  note walk = walk_log_wf [OF walkable_aea [OF wl args True]]
  have log': "log rn' = walk_log (aea_Entries args) (log r)"
    and commit': "commitIndex rn' = follower_commit args (commitIndex r)"
    and safe: "\<not> truncates_committed args r"
    using post True by (simp_all add: append_post_def)
  have "commitIndex r \<le> log_last (log rn')"
    unfolding log' using safe wf_node_ids(5) [OF wf]
    by (intro walk_log_keeps(1) [OF walkable_aea [OF wl args True]])
      (auto simp: truncates_committed_def not_le)
  moreover have "aea_PrevLogIndex args + length (aea_Entries args) \<le> log_last (log rn')"
    using walk(3) by (simp add: log')
  ultimately have "commitIndex rn' \<le> log_last (log rn')"
    by (simp add: commit' follower_commit_def)
  moreover have "commitIndex r \<le> commitIndex rn'"
    by (simp add: commit' follower_commit_def)
  ultimately show ?thesis
    using wf post st walk(1,2)
    by (auto simp: wf_node_def append_post_def same_ident_def progress_ok_def log')
next
  case False
  then show ?thesis
    using wf post st
    by (auto simp: wf_node_def append_post_def same_ident_def progress_ok_def)
qed

lemma hae_post_wf:
  assumes "wf_node rn" and "wf_aea args" and "hae_post args rn reply rn'"
  shows "wf_node rn'"
proof (cases "stopped rn \<or> aea_Term args < currentTerm rn")
  case False
  then obtain r where r: "contacted (aea_Term args) (aea_LeaderID args) rn r"
      "append_post args r reply rn'"
    using assms(3) by (auto simp: hae_post_def)
  moreover have "wf_node r"
    using wf_node_contacted [OF assms(1) r(1)] assms(2) by (simp add: wf_aea_def)
  ultimately show ?thesis
    using append_post_wf [OF _ assms(2)] unfolding contacted_def by blast
qed (use assms in \<open>simp add: hae_post_def\<close>)

section \<open>InstallSnapshot\<close>

definition sentinel :: "nat \<Rightarrow> nat \<Rightarrow> LogEntry" where
  "sentinel index term = \<lparr>Term = term, Index = index, Command = []\<rparr>"

definition install_log :: "InstallSnapshotArgs \<Rightarrow> LogEntry list \<Rightarrow> LogEntry list" where
  "install_log args l =
     sentinel (isa_LastIncludedIndex args) (isa_LastIncludedTerm args) # retained args l"

definition install_post :: "InstallSnapshotArgs \<Rightarrow> 'd RaftNode \<Rightarrow> 'd RaftNode \<Rightarrow> bool" where
  "install_post args rn rn' \<longleftrightarrow>
     (if isa_LastIncludedIndex args \<le> commitIndex rn then same_log rn rn'
      else log rn' = install_log args (log rn) \<and>
           commitIndex rn' = isa_LastIncludedIndex args \<and> lastApplied rn' = lastApplied rn \<and>
           pendingSnapshot rn' = Some \<lparr>LastIncludedIndex = isa_LastIncludedIndex args,
             LastIncludedTerm = isa_LastIncludedTerm args, Data = isa_Data args\<rparr>) \<and>
     same_ident rn rn' \<and> same_calls rn rn' \<and> currentTerm rn' = currentTerm rn \<and>
     votedFor rn' = votedFor rn \<and> state rn' = state rn \<and> leaderID rn' = leaderID rn"

lemma retainedSuffix_spec:
  assumes wf: "wf_log (log rn)" and args: "wf_isa args"
  shows "retainedSuffix args rn = Inr (retained args (log rn))"
proof (cases "isa_LastIncludedIndex args \<le> log_last (log rn) \<and>
    log_base (log rn) \<le> isa_LastIncludedIndex args")
  case True
  moreover have "u64_add (isa_LastIncludedIndex args) 1 = isa_LastIncludedIndex args + 1"
    using args by (simp add: wf_isa_def u64_add_small)
  ultimately show ?thesis
    using termAt_wf [OF wf, of "isa_LastIncludedIndex args"]
      entriesFrom_wf [OF wf, of "isa_LastIncludedIndex args + 1"]
    by (simp add: retainedSuffix_def retained_def lastLogIndex_wf [OF wf] baseIndex_wf [OF wf])
next
  case False
  then show ?thesis
    by (auto simp: retainedSuffix_def retained_def lastLogIndex_wf [OF wf] baseIndex_wf [OF wf])
qed

lemma saveInstalledSnapshot_ensures:
  "ensures stops_safely (\<lambda>rn'. \<exists>d. rn' = rn\<lparr>disk := d\<rparr>) (saveInstalledSnapshot snap rn)"
proof (cases "SnapshotStore (cfg rn)")
  case None
  have "rn = rn\<lparr>disk := disk rn\<rparr>" by simp
  then show ?thesis
    unfolding saveInstalledSnapshot_def None option.case ensures_simps by (rule exI)
next
  case (Some ss)
  obtain d e where "SaveSnapshot ss snap (disk rn) = (d, e)" by fastforce
  then show ?thesis
    by (cases e) (auto simp only: saveInstalledSnapshot_def Some option.case prod.case
        ensures_simps store_panic.simps)
qed

lemma installSnapshot_spec:
  assumes wf: "wf_log (log rn)" and args: "wf_isa args"
  shows "ensures stops_safely (install_post args rn) (installSnapshot args rn)"
proof (cases "isa_LastIncludedIndex args \<le> commitIndex rn")
  case True
  then show ?thesis by (simp add: installSnapshot_def install_post_def)
next
  case False
  let ?snap = "\<lparr>LastIncludedIndex = isa_LastIncludedIndex args,
    LastIncludedTerm = isa_LastIncludedTerm args, Data = isa_Data args\<rparr>"
  let ?fin = "\<lambda>r. r\<lparr>log := \<lparr>Term = isa_LastIncludedTerm args, Index = isa_LastIncludedIndex args,
      Command = []\<rparr> # retained args (log rn), commitIndex := isa_LastIncludedIndex args,
      pendingSnapshot := Some ?snap\<rparr>"
  have compact: "ensures stops_safely (\<lambda>r'. \<exists>d. r' = r\<lparr>disk := d\<rparr>)
      (compactForSnapshot (retained args (log rn)) r)" for r :: "'a RaftNode"
    unfolding compactForSnapshot_def by (rule logWrite_ensures) simp
  have fin: "install_post args rn (?fin r2)"
    if "\<exists>d. r1 = rn\<lparr>disk := d\<rparr>" "\<exists>d. r2 = r1\<lparr>disk := d\<rparr>" for r1 r2
    using that False
    by (auto simp: install_post_def install_log_def sentinel_def same_ident_def same_calls_def)
  have "ensures stops_safely (install_post args rn)
      (bind_res (saveInstalledSnapshot ?snap rn) (\<lambda>r1.
       bind_res (compactForSnapshot (retained args (log rn)) r1) (\<lambda>r2. Inr (?fin r2))))"
    using fin
    by (intro ensures_bind [OF saveInstalledSnapshot_ensures] ensures_bind [OF compact]) simp
  then show ?thesis
    using False by (simp add: installSnapshot_def retainedSuffix_spec [OF wf args] Let_def)
qed

definition his_post ::
  "InstallSnapshotArgs \<Rightarrow> 'd RaftNode \<Rightarrow> InstallSnapshotReply \<Rightarrow> 'd RaftNode \<Rightarrow> bool" where
  "his_post args rn reply rn' \<longleftrightarrow>
     (if stopped rn \<or> isa_Term args < currentTerm rn
      then isr_Term reply = currentTerm rn \<and> rn' = rn
      else isr_Term reply = isa_Term args \<and>
           (\<exists>r. contacted (isa_Term args) (isa_LeaderID args) rn r \<and> install_post args r rn'))"

lemma HandleInstallSnapshot_spec:
  assumes wf: "wf_node rn" and args: "wf_isa args"
  shows "ensures stops_safely (\<lambda>(reply, rn'). his_post args rn reply rn')
           (HandleInstallSnapshot clk args rn)"
proof (cases "stopped rn \<or> isa_Term args < currentTerm rn")
  case True
  then have "HandleInstallSnapshot clk args rn = Inr (\<lparr>isr_Term = currentTerm rn\<rparr>, rn)"
    by (auto simp: HandleInstallSnapshot_def)
  then show ?thesis using True by (simp add: his_post_def)
next
  case False
  have running: "\<not> stopped rn" and cur: "currentTerm rn \<le> isa_Term args"
    using False by simp_all
  have F: "ensures stops_safely (\<lambda>(reply, rn'). his_post args rn reply rn')
      (bind_res (installSnapshot args r) (\<lambda>r3. Inr (\<lparr>isr_Term = isa_Term args\<rparr>, r3)))"
    if r: "contacted (isa_Term args) (isa_LeaderID args) rn r" for r
  proof -
    have "wf_log (log r)"
      using r wf same_logD(1) [of rn r] by (simp add: contacted_def wf_dests)
    then show ?thesis
      using r False by (intro ensures_bind [OF installSnapshot_spec [OF _ args]]) (auto simp: his_post_def)
  qed
  show ?thesis
    unfolding HandleInstallSnapshot_def if_not_P [OF running]
    by (rule leader_contact_rule [where
          F = "\<lambda>t r. bind_res (installSnapshot args r) (\<lambda>r3. Inr (\<lparr>isr_Term = t\<rparr>, r3))" and
          A = "\<lambda>r1. Inr (\<lparr>isr_Term = currentTerm r1\<rparr>, r1)", OF wf_node_ids(1) [OF wf] cur _ F])
      simp_all
qed

lemma install_log_wf:
  assumes wf: "wf_log l" and args: "wf_isa args"
  shows "wf_log (install_log args l)"
    and "log_base (install_log args l) = isa_LastIncludedIndex args"
    and "isa_LastIncludedIndex args \<le> log_last (install_log args l)"
proof -
  let ?i = "isa_LastIncludedIndex args"
  show base: "log_base (install_log args l) = ?i"
    by (simp add: install_log_def sentinel_def)
  have range: "log_base l \<le> ?i \<and> ?i \<le> log_last l" if "retained args l \<noteq> []"
    using that by (auto simp: retained_def split: if_splits)
  show wf': "wf_log (install_log args l)"
  proof (cases "retained args l = []")
    case True
    then show ?thesis
      using args by (simp add: install_log_def sentinel_def wf_log_single wf_isa_def)
  next
    case some: False
    show ?thesis
    proof (cases "?i = log_base l")
      case True
      then have "retained args l = tl l"
        using some by (simp add: retained_def drop_Suc split: if_splits)
      moreover have "contiguous_from (log_base l) (hd l # tl l)"
          "log_base l + length (hd l # tl l) < u64_size"
        using wf by (simp_all add: wf_log_contiguous)
      ultimately show ?thesis
        using True by (simp add: install_log_def sentinel_def wf_log_contiguous)
    next
      case False
      then have "install_log args l = compacted ?i (isa_LastIncludedTerm args) l"
        using some range [OF some]
        by (simp add: install_log_def compacted_def sentinel_def retained_def split: if_splits)
      then show ?thesis
        using wf_log_compacted [OF wf] range [OF some] by simp
    qed
  qed
  show "?i \<le> log_last (install_log args l)"
    using wf_log_base_le_last [OF wf'] base by simp
qed

lemma his_post_wf:
  assumes wf: "wf_node rn" and args: "wf_isa args" and post: "his_post args rn reply rn'"
  shows "wf_node rn'"
proof (cases "stopped rn \<or> isa_Term args < currentTerm rn")
  case False
  then obtain r where r: "contacted (isa_Term args) (isa_LeaderID args) rn r" "install_post args r rn'"
    using post by (auto simp: his_post_def)
  have wr: "wf_node r"
    using wf_node_contacted [OF wf r(1)] args by (simp add: wf_isa_def)
  have st: "state r = Follower" using r(1) by (simp add: contacted_def)
  show ?thesis
  proof (cases "isa_LastIncludedIndex args \<le> commitIndex r")
    case True
    then show ?thesis
      using wr r(2) st
      by (auto simp: wf_node_def install_post_def same_ident_def same_log_def progress_ok_def)
  next
    case grow: False
    then show ?thesis
      using wr r(2) st install_log_wf [OF wf_node_ids(2) [OF wr] args]
      by (auto simp: wf_node_def install_post_def same_ident_def progress_ok_def)
  qed
qed (use assms in \<open>simp add: his_post_def\<close>)

end
