(* ===== verification/Raft_Leader.thy ===== *)
theory Raft_Leader
  imports Raft_Invariant
begin

text \<open>
  Lemmas on the leader's side: winning an election, the commit rule, proposals, the messages
  of a replication round, and the back-off after a rejection.
\<close>

section \<open>Specifications\<close>

text \<open>The new entries above the commit index that the leader may commit by counting copies.\<close>

definition committable :: "'d RaftNode \<Rightarrow> nat \<Rightarrow> bool" where
  "committable rn n \<longleftrightarrow> commitIndex rn < n \<and> n \<le> log_last (log rn) \<and>
     log_term (log rn) n = currentTerm rn \<and> quorum rn \<le> replicaCount rn n"

text \<open>Terms never decrease along a log and never exceed the node's term.\<close>

definition sorted_terms :: "LogEntry list \<Rightarrow> bool" where
  "sorted_terms l \<longleftrightarrow> (\<forall>i j. i \<le> j \<and> j < length l \<longrightarrow> Term (l ! i) \<le> Term (l ! j))"

definition terms_ok :: "'d RaftNode \<Rightarrow> bool" where
  "terms_ok rn \<longleftrightarrow> sorted_terms (log rn) \<and> Term (last (log rn)) \<le> currentTerm rn"

text \<open>A request that describes the log \<open>l\<close> of the leader that sends it.\<close>

definition describes :: "LogEntry list \<Rightarrow> AppendEntriesArgs \<Rightarrow> bool" where
  "describes l args \<longleftrightarrow> log_base l \<le> aea_PrevLogIndex args \<and> aea_PrevLogIndex args \<le> log_last l \<and>
     aea_PrevLogTerm args = log_term l (aea_PrevLogIndex args) \<and>
     aea_Entries args = drop (aea_PrevLogIndex args + 1 - log_base l) l"

section \<open>Elections\<close>

lemma becomeLeaderLocked_spec:
  assumes wf: "wf_node rn"
  shows "\<exists>rn'. becomeLeaderLocked rn = Inr rn' \<and> state rn' = Leader \<and> leaderID rn' = node_id rn \<and>
     currentTerm rn' = currentTerm rn \<and> votedFor rn' = votedFor rn \<and> votes rn' = votes rn \<and>
     voteCalls rn' = voteCalls rn \<and> replicators rn' = currentTerm rn # replicators rn \<and>
     same_ident rn rn' \<and> same_log rn rn' \<and> disk rn' = disk rn \<and> wf_node rn'"
proof -
  have last1: "u64_add (log_last (log rn)) 1 = log_last (log rn) + 1"
    using wf_log_last_bound [OF wf_node_ids(2) [OF wf]] by (rule u64_add_small)
  show ?thesis
    using wf last1 lastLogIndex_wf [OF wf_node_ids(2) [OF wf]]
    by (cases "peers rn = []")
      (simp_all add: becomeLeaderLocked_def frame_defs wf_node_def progress_ok_def map_get_def)
qed

definition voteRequest :: "'d RaftNode \<Rightarrow> RequestVoteArgs" where
  "voteRequest rn = \<lparr>rva_Term = currentTerm rn, rva_CandidateID = node_id rn,
     rva_LastLogIndex = log_last (log rn), rva_LastLogTerm = Term (last (log rn))\<rparr>"

definition voteCallsOf :: "'d RaftNode \<Rightarrow> VoteCall list" where
  "voteCallsOf rn = map (\<lambda>p. \<lparr>vc_term = currentTerm rn, vc_peer = p, vc_args = voteRequest rn\<rparr>) (peers rn)"

text \<open>The new term and the vote for itself have been saved; saving them has failed.\<close>

definition candidacy :: "'d RaftNode \<Rightarrow> HardState" where
  "candidacy rn = \<lparr>CurrentTerm = currentTerm rn + 1, VotedFor = node_id rn\<rparr>"

definition candidacy_saved :: "'d RaftNode \<Rightarrow> 'd \<Rightarrow> bool" where
  "candidacy_saved rn d \<longleftrightarrow>
     (\<exists>st. Store (cfg rn) = Some st \<and> SaveHardState st (candidacy rn) (disk rn) = (d, None))"

definition candidacy_unsaved :: "'d RaftNode \<Rightarrow> panic \<times> 'd \<Rightarrow> bool" where
  "candidacy_unsaved rn = (\<lambda>(p, d). \<exists>st e. Store (cfg rn) = Some st \<and> p = PersistHardState e \<and>
     SaveHardState st (candidacy rn) (disk rn) = (d, Some e))"

definition election_post :: "'d RaftNode \<Rightarrow> 'd RaftNode \<Rightarrow> bool" where
  "election_post rn rn' \<longleftrightarrow>
     currentTerm rn' = currentTerm rn + 1 \<and> votedFor rn' = node_id rn \<and>
     candidacy_saved rn (disk rn') \<and> votes rn' = (votes rn)(currentTerm rn + 1 := 1) \<and>
     same_ident rn rn' \<and> same_log rn rn' \<and>
     (if peers rn = []
      then state rn' = Leader \<and> voteCalls rn' = voteCalls rn
      else state rn' = Candidate \<and> voteCalls rn' = voteCallsOf rn' @ voteCalls rn)"

lemma startElectionLocked_spec:
  assumes wf: "wf_node rn" and room: "currentTerm rn + 1 < u64_size"
  shows "ensures (candidacy_unsaved rn) (\<lambda>rn'. election_post rn rn' \<and> wf_node rn')
           (startElectionLocked clk rn)"
proof -
  let ?r0 = "rn\<lparr>state := Candidate, currentTerm := u64_add (currentTerm rn) 1,
    votedFor := node_id rn, leaderID := NoID\<rparr>"
  have add1: "u64_add (currentTerm rn) (Suc 0) = Suc (currentTerm rn)"
    using room by (simp add: u64_add_Suc0)
  obtain st where st: "Store (cfg rn) = Some st"
    using wf_node_ids(1) [OF wf] by blast
  have "candidacy rn = \<lparr>CurrentTerm = currentTerm ?r0, VotedFor = votedFor ?r0\<rparr>"
    by (simp add: candidacy_def add1)
  then have persist: "ensures (candidacy_unsaved rn)
      (\<lambda>r. \<exists>d. r = ?r0\<lparr>disk := d\<rparr> \<and> SaveHardState st (candidacy rn) (disk rn) = (d, None)) (persistLocked ?r0)"
    using persistLocked_saves [of ?r0 st "candidacy rn"] st
    by (auto elim!: ensures_mono simp: candidacy_unsaved_def)
  show ?thesis
    unfolding startElectionLocked_def
  proof (rule ensures_bind [OF persist])
    fix r
    assume "\<exists>d. r = ?r0\<lparr>disk := d\<rparr> \<and> SaveHardState st (candidacy rn) (disk rn) = (d, None)"
    then obtain d where r: "r = ?r0\<lparr>disk := d\<rparr>"
      and "SaveHardState st (candidacy rn) (disk rn) = (d, None)" by blast
    with st have saved: "candidacy_saved rn d" by (auto simp: candidacy_saved_def)
    let ?r = "resetElectionTimerLocked clk r"
    let ?v = "?r\<lparr>votes := (votes ?r)(currentTerm ?r := 1)\<rparr>"
    have wl: "wf_log (log ?r)" using wf by (simp add: r wf_dests)
    have wv: "wf_node ?v"
      using wf room by (simp add: wf_node_def progress_ok_def r add1)
    obtain rl where rl: "becomeLeaderLocked ?v = Inr rl" "state rl = Leader"
        "currentTerm rl = currentTerm ?v" "votedFor rl = votedFor ?v" "votes rl = votes ?v"
        "voteCalls rl = voteCalls ?v" "same_ident ?v rl" "same_log ?v rl" "wf_node rl" "disk rl = disk ?v"
      using becomeLeaderLocked_spec [OF wv] by blast
    have "1 \<ge> quorum ?v \<longleftrightarrow> peers rn = []"
      by (cases "peers rn") (simp_all add: quorum_def r)
    moreover have "election_post rn rl" if "peers rn = []"
      using rl that saved by (simp add: election_post_def r add1 same_ident_def same_log_def)
    moreover have "election_post rn (?v\<lparr>voteCalls := voteCallsOf ?v @ voteCalls ?v\<rparr>)"
      if "peers rn \<noteq> []"
      using that saved by (simp add: election_post_def r add1 same_ident_def same_log_def
          voteCallsOf_def voteRequest_def)
    moreover have "wf_node (?v\<lparr>voteCalls := voteCallsOf ?v @ voteCalls ?v\<rparr>)"
      using wv by (simp add: wf_node_def progress_ok_def)
    ultimately show "ensures (candidacy_unsaved rn) (\<lambda>rn'. election_post rn rn' \<and> wf_node rn')
        (let rn = ?r; term = currentTerm rn in
         bind_res (lastLogIndex rn) (\<lambda>lli.
         bind_res (lastLogTerm rn) (\<lambda>llt.
         let args = \<lparr>rva_Term = term, rva_CandidateID = node_id rn,
                     rva_LastLogIndex = lli, rva_LastLogTerm = llt\<rparr>;
             rn = rn\<lparr>votes := (votes rn)(term := 1)\<rparr> in
         if 1 \<ge> quorum rn then becomeLeaderLocked rn
         else Inr (rn\<lparr>voteCalls := map (\<lambda>p. \<lparr>vc_term = term, vc_peer = p, vc_args = args\<rparr>) (peers rn)
                        @ voteCalls rn\<rparr>))))"
      using rl(1,9) lastLogIndex_wf [OF wl] lastLogTerm_wf [OF wl]
      by (simp add: Let_def voteCallsOf_def voteRequest_def)
  qed
qed

lemma handleVoteReply_cases:
  assumes wf: "wf_node rn" and rt: "rvr_Term reply < u64_size"
  shows "ensures stops_safely
    (\<lambda>rn'. wf_node rn' \<and> same_ident rn rn' \<and> same_log rn rn' \<and> voteCalls rn' = voteCalls rn \<and>
       (if \<not> stopped rn \<and> rvr_Term reply > currentTerm rn
        then steppedDown (rvr_Term reply) rn rn'
        else currentTerm rn' = currentTerm rn \<and> votedFor rn' = votedFor rn \<and>
          (if \<not> stopped rn \<and> state rn = Candidate \<and> currentTerm rn = term \<and> rvr_VoteGranted reply
           then votes rn' = (votes rn)(term := Suc (votes rn term)) \<and>
             state rn' = (if Suc (votes rn term) = quorum rn then Leader else Candidate)
           else rn' = rn)))
    (handleVoteReply clk term reply rn)"
proof -
  have quiet_case: ?thesis
    if "handleVoteReply clk term reply rn = Inr rn" "stopped rn \<or> \<not> rvr_Term reply > currentTerm rn"
      "\<not> (\<not> stopped rn \<and> state rn = Candidate \<and> currentTerm rn = term \<and> rvr_VoteGranted reply)"
    using that wf by auto
  consider (quiet) "stopped rn \<or> \<not> rvr_Term reply > currentTerm rn"
      "\<not> (\<not> stopped rn \<and> state rn = Candidate \<and> currentTerm rn = term \<and> rvr_VoteGranted reply)"
    | (newer) "\<not> stopped rn" "rvr_Term reply > currentTerm rn"
    | (vote) "\<not> stopped rn" "\<not> rvr_Term reply > currentTerm rn" "state rn = Candidate"
        "currentTerm rn = term" "rvr_VoteGranted reply"
    by blast
  then show ?thesis
  proof cases
    case quiet
    then have "handleVoteReply clk term reply rn = Inr rn"
      by (auto simp: handleVoteReply_def)
    then show ?thesis using quiet_case quiet by blast
  next
    case newer
    then have "handleVoteReply clk term reply rn = becomeFollowerLocked clk (rvr_Term reply) rn"
      by (simp add: handleVoteReply_def)
    moreover have "ensures stops_safely (\<lambda>rn'. wf_node rn' \<and> steppedDown (rvr_Term reply) rn rn')
        (becomeFollowerLocked clk (rvr_Term reply) rn)"
      by (rule becomeFollowerLocked_wf [OF wf rt])
    ultimately show ?thesis
      using newer by (auto elim!: ensures_mono simp: steppedDown_def same_calls_def)
  next
    case vote
    let ?v = "rn\<lparr>votes := (votes rn)(term := Suc (votes rn term))\<rparr>"
    have wv: "wf_node ?v"
      using wf by (simp add: wf_node_def progress_ok_def)
    have q: "quorum ?v = quorum rn" by (simp add: quorum_def)
    show ?thesis
    proof (cases "Suc (votes rn term) = quorum rn")
      case True
      then have "handleVoteReply clk term reply rn = becomeLeaderLocked ?v"
        using vote q by (simp add: handleVoteReply_def Let_def)
      then show ?thesis
        using becomeLeaderLocked_spec [OF wv] vote True
        by (auto simp: same_ident_def same_log_def)
    next
      case False
      then have "handleVoteReply clk term reply rn = Inr ?v"
        using vote q by (simp add: handleVoteReply_def Let_def)
      then show ?thesis
        using wv vote False by (simp add: same_ident_def same_log_def)
    qed
  qed
qed

section \<open>The commit rule\<close>

lemma sorted_log_term:
  "wf_log l \<Longrightarrow> sorted_terms l \<Longrightarrow> i \<le> j \<Longrightarrow> j \<le> log_last l \<Longrightarrow> log_term l i \<le> log_term l j"
  using wf_log_slot [of l j] diff_le_mono [of i j "log_base l"]
  by (simp add: sorted_terms_def log_term_def log_entry_def)

lemma log_term_last: "wf_log l \<Longrightarrow> log_term l (log_last l) = Term (last l)"
  using wf_log_length [of l]
  by (simp add: log_term_def log_entry_def last_conv_nth wf_log_nonempty)

lemma terms_ok_bound:
  "wf_log (log rn) \<Longrightarrow> terms_ok rn \<Longrightarrow> i \<le> log_last (log rn) \<Longrightarrow> log_term (log rn) i \<le> currentTerm rn"
  using sorted_log_term [of "log rn" i "log_last (log rn)"] log_term_last [of "log rn"]
  by (simp add: terms_ok_def)

lemma commitScan_spec:
  assumes wf: "wf_node rn" and m: "m \<le> log_last (log rn)"
  shows "\<exists>c. commitScan rn m = Inr c \<and>
    (case c of
       Some n \<Rightarrow> committable rn n \<and> n \<le> m \<and> (\<forall>k. committable rn k \<and> k \<le> m \<longrightarrow> k \<le> n)
     | None \<Rightarrow> terms_ok rn \<longrightarrow> (\<forall>k. committable rn k \<longrightarrow> m < k))"
  using m
proof (induction m)
  case 0
  then show ?case by (simp add: committable_def)
next
  case (Suc m)
  note wl = wf_node_ids(2) [OF wf]
  show ?case
  proof (cases "Suc m > commitIndex rn")
    case False
    then show ?thesis by (auto simp: committable_def)
  next
    case True
    then have t: "termAt rn (Suc m) = Inr (log_term (log rn) (Suc m))"
      using Suc.prems wf_node_ids(4) [OF wf] by (intro termAt_wf [OF wl]) simp_all
    show ?thesis
    proof (cases "log_term (log rn) (Suc m) = currentTerm rn")
      case old: False
      have "Suc m < k" if "terms_ok rn" "committable rn k" for k
      proof (rule ccontr)
        assume "\<not> Suc m < k"
        then have "log_term (log rn) k \<le> log_term (log rn) (Suc m)"
          using that(1) Suc.prems by (intro sorted_log_term [OF wl]) (simp_all add: terms_ok_def)
        moreover have "log_term (log rn) (Suc m) \<le> currentTerm rn"
          using terms_ok_bound [OF wl that(1) Suc.prems] .
        ultimately show False
          using old that(2) by (simp add: committable_def)
      qed
      then show ?thesis using True t old by auto
    next
      case cur: True
      show ?thesis
      proof (cases "quorum rn \<le> replicaCount rn (Suc m)")
        case enough: True
        then have "committable rn (Suc m)"
          using True cur Suc.prems by (simp add: committable_def)
        then show ?thesis using True t cur enough by auto
      next
        case few: False
        then have notm: "\<not> committable rn (Suc m)"
          by (simp add: committable_def)
        obtain c where c: "commitScan rn m = Inr c"
          "case c of
             Some n \<Rightarrow> committable rn n \<and> n \<le> m \<and> (\<forall>k. committable rn k \<and> k \<le> m \<longrightarrow> k \<le> n)
           | None \<Rightarrow> terms_ok rn \<longrightarrow> (\<forall>k. committable rn k \<longrightarrow> m < k)"
          using Suc.IH Suc.prems by auto
        have "commitScan rn (Suc m) = Inr c"
          using True t cur few c(1) by simp
        moreover have "case c of
             Some n \<Rightarrow> committable rn n \<and> n \<le> Suc m \<and> (\<forall>k. committable rn k \<and> k \<le> Suc m \<longrightarrow> k \<le> n)
           | None \<Rightarrow> terms_ok rn \<longrightarrow> (\<forall>k. committable rn k \<longrightarrow> Suc m < k)"
        proof (cases c)
          case None
          then show ?thesis using c(2) notm by (simp, metis Suc_lessI)
        qed (use c(2) notm in \<open>auto simp: le_Suc_eq\<close>)
        ultimately show ?thesis by blast
      qed
    qed
  qed
qed

lemma advanceCommitIndexLocked_spec:
  assumes wf: "wf_node rn"
  obtains c where "advanceCommitIndexLocked rn = Inr (rn\<lparr>commitIndex := c\<rparr>)"
    "commitIndex rn \<le> c" "c \<noteq> commitIndex rn \<Longrightarrow> state rn = Leader \<and> committable rn c"
    "state rn = Leader \<Longrightarrow> terms_ok rn \<Longrightarrow> \<forall>k. committable rn k \<longrightarrow> k \<le> c"
proof (cases "state rn = Leader")
  case True
  obtain r where r: "commitScan rn (log_last (log rn)) = Inr r"
    "case r of
       Some n \<Rightarrow> committable rn n \<and> n \<le> log_last (log rn) \<and>
         (\<forall>k. committable rn k \<and> k \<le> log_last (log rn) \<longrightarrow> k \<le> n)
     | None \<Rightarrow> terms_ok rn \<longrightarrow> (\<forall>k. committable rn k \<longrightarrow> log_last (log rn) < k)"
    using commitScan_spec [OF wf order_refl] by blast
  have adv: "advanceCommitIndexLocked rn = Inr (case r of None \<Rightarrow> rn | Some n \<Rightarrow> rn\<lparr>commitIndex := n\<rparr>)"
    using True lastLogIndex_wf [OF wf_node_ids(2) [OF wf]] r(1)
    by (simp add: advanceCommitIndexLocked_def)
  show thesis
  proof (cases r)
    case None
    show thesis
      by (rule that [of "commitIndex rn"]) (use None adv r(2) in \<open>auto simp: committable_def\<close>)
  next
    case (Some n)
    show thesis
      by (rule that [of n]) (use Some adv r(2) True in \<open>auto simp: committable_def\<close>)
  qed
next
  case False
  show thesis
    by (rule that [of "commitIndex rn"]) (use False in \<open>simp_all add: advanceCommitIndexLocked_def\<close>)
qed

lemma wf_node_commit:
  "wf_node rn \<Longrightarrow> commitIndex rn \<le> c \<Longrightarrow> c \<le> log_last (log rn) \<Longrightarrow> wf_node (rn\<lparr>commitIndex := c\<rparr>)"
  by (auto simp: wf_node_def progress_ok_def)

lemma advanceCommitIndexLocked_wf:
  assumes wf: "wf_node rn"
  shows "\<exists>c. advanceCommitIndexLocked rn = Inr (rn\<lparr>commitIndex := c\<rparr>) \<and> commitIndex rn \<le> c \<and>
     wf_node (rn\<lparr>commitIndex := c\<rparr>)"
proof -
  obtain c where c: "advanceCommitIndexLocked rn = Inr (rn\<lparr>commitIndex := c\<rparr>)"
    "commitIndex rn \<le> c" "c \<noteq> commitIndex rn \<Longrightarrow> state rn = Leader \<and> committable rn c"
    using advanceCommitIndexLocked_spec [OF wf] by metis
  moreover have "c \<le> log_last (log rn)"
    using c(3) wf_node_ids(5) [OF wf] by (cases "c = commitIndex rn") (simp_all add: committable_def)
  ultimately show ?thesis
    using wf_node_commit [OF wf] by blast
qed

section \<open>Proposals\<close>

definition propose_post ::
  "bytes \<Rightarrow> 'd RaftNode \<Rightarrow> propose_error + nat \<times> nat \<Rightarrow> 'd RaftNode \<Rightarrow> bool" where
  "propose_post command rn res rn' \<longleftrightarrow>
     (if state rn = Leader
      then res = Inr (log_last (log rn) + 1, currentTerm rn) \<and>
           log rn' = log rn @ [\<lparr>Term = currentTerm rn, Index = log_last (log rn) + 1, Command = command\<rparr>] \<and>
           commitIndex rn \<le> commitIndex rn' \<and> triggerCh rn' \<and>
           currentTerm rn' = currentTerm rn \<and> votedFor rn' = votedFor rn \<and> state rn' = Leader \<and>
           lastApplied rn' = lastApplied rn \<and> pendingSnapshot rn' = pendingSnapshot rn \<and>
           same_ident rn rn' \<and> same_calls rn rn'
      else res = Inl ErrNotLeader \<and> rn' = rn)"

lemma Propose_spec:
  assumes wf: "wf_node rn" and room: "log_last (log rn) + 2 < u64_size"
  shows "ensures stops_safely (\<lambda>(res, rn'). propose_post command rn res rn' \<and> wf_node rn')
           (Propose command rn)"
proof (cases "state rn = Leader")
  case False
  then show ?thesis using wf by (simp add: Propose_def propose_post_def)
next
  case True
  let ?e = "\<lparr>Term = currentTerm rn, Index = log_last (log rn) + 1, Command = command\<rparr>"
  note wl = wf_node_ids(2) [OF wf]
  have last1: "u64_add (log_last (log rn)) (Suc 0) = Suc (log_last (log rn))"
    using room by (simp add: u64_add_Suc0)
  have c: "contiguous_from (log_last (log rn) + 1) [?e]" by simp
  have wl': "wf_log (log rn @ [?e])" and last': "log_last (log rn @ [?e]) = log_last (log rn) + 1"
    using wf_log_append [OF wl c] log_last_append [OF wl c] room by simp_all
  have step: "ensures stops_safely (\<lambda>(res, rn'). propose_post command rn res rn' \<and> wf_node rn')
      (bind_res (advanceCommitIndexLocked r) (\<lambda>rn'. Inr (Inr (log_last (log rn) + 1, currentTerm rn),
         rn'\<lparr>triggerCh := True\<rparr>)))"
    if "\<exists>d. r = rn\<lparr>disk := d, log := log rn @ [?e]\<rparr>" for r
  proof -
    obtain d where r: "r = rn\<lparr>disk := d, log := log rn @ [?e]\<rparr>" using \<open>\<exists>d. _\<close> by blast
    have "wf_node r"
      using wf wl' last' wf_log_nonempty [OF wl] by (fastforce simp: r wf_node_def progress_ok_def)
    then obtain cm where cm: "advanceCommitIndexLocked r = Inr (r\<lparr>commitIndex := cm\<rparr>)"
        "commitIndex r \<le> cm" "wf_node (r\<lparr>commitIndex := cm\<rparr>)"
      using advanceCommitIndexLocked_wf by blast
    have "wf_node (r\<lparr>commitIndex := cm, triggerCh := True\<rparr>)"
      using cm(3) by (simp add: wf_node_def progress_ok_def)
    then show ?thesis
      using cm(1,2) True by (simp add: propose_post_def r same_ident_def same_calls_def)
  qed
  have "Propose command rn = bind_res (appendLogLocked [?e] rn) (\<lambda>r.
      bind_res (advanceCommitIndexLocked r) (\<lambda>rn'. Inr (Inr (log_last (log rn) + 1, currentTerm rn),
         rn'\<lparr>triggerCh := True\<rparr>)))"
    using True lastLogIndex_wf [OF wl] last1 by (simp add: Propose_def Let_def)
  then show ?thesis
    using ensures_bind [OF appendLogLocked_ensures step] by simp
qed

section \<open>Replication rounds\<close>

lemma describes_wf:
  assumes wf: "wf_log l" and d: "describes l args"
  shows "contiguous_from (aea_PrevLogIndex args + 1) (aea_Entries args)"
    and "aea_PrevLogIndex args + length (aea_Entries args) = log_last l"
proof -
  let ?p = "aea_PrevLogIndex args"
  have "contiguous_from (log_base l + (?p + 1 - log_base l)) (drop (?p + 1 - log_base l) l)"
    using wf by (intro contiguous_from_drop) (simp add: wf_log_contiguous)
  then show "contiguous_from (?p + 1) (aea_Entries args)"
    using d by (simp add: describes_def)
  show "?p + length (aea_Entries args) = log_last l"
    using d wf_log_length [OF wf] by (simp add: describes_def)
qed

lemma describes_wf_aea:
  "wf_log l \<Longrightarrow> describes l args \<Longrightarrow> aea_Term args < u64_size \<Longrightarrow> wf_aea args"
  using describes_wf [of l args] wf_log_last_bound [of l] by (simp add: wf_aea_def)

definition outbound_ok :: "nat \<Rightarrow> 'd RaftNode \<Rightarrow> node_id \<Rightarrow> outbound \<Rightarrow> bool" where
  "outbound_ok term rn p m \<longleftrightarrow>
     (case m of
        SendSnapshot q \<Rightarrow> q = p \<and> map_get (nextIndex rn) p \<le> log_base (log rn)
      | SendEntries q args \<Rightarrow> q = p \<and> describes (log rn) args \<and>
          aea_PrevLogIndex args + 1 = map_get (nextIndex rn) p \<and> aea_Term args = term \<and>
          aea_LeaderID args = node_id rn \<and> aea_LeaderCommit args = commitIndex rn)"

lemma buildOutbound_spec:
  assumes wf: "wf_node rn" and ld: "state rn = Leader" and p: "p \<in> set (peers rn)"
  shows "\<exists>m. buildOutbound term rn p = Inr m \<and> outbound_ok term rn p m"
proof (cases "map_get (nextIndex rn) p \<le> log_base (log rn)")
  case True
  then show ?thesis
    using baseIndex_wf [OF wf_node_ids(2) [OF wf]] by (simp add: buildOutbound_def outbound_ok_def)
next
  case False
  let ?n = "map_get (nextIndex rn) p"
  note wl = wf_node_ids(2) [OF wf]
  have n: "?n \<le> log_last (log rn) + 1"
    using wf ld p by (simp add: wf_node_def progress_ok_def)
  have "termAt rn (?n - 1) = Inr (log_term (log rn) (?n - 1))"
    using False n by (intro termAt_wf [OF wl]) auto
  moreover have "entriesFrom rn ?n = Inr (drop (?n - log_base (log rn)) (log rn))"
    using False n by (intro entriesFrom_wf [OF wl]) simp_all
  ultimately show ?thesis
    using False n baseIndex_wf [OF wl]
    by (auto simp: buildOutbound_def outbound_ok_def describes_def Let_def)
qed

lemma buildAll_spec:
  assumes wf: "wf_node rn" and ld: "state rn = Leader" and ps: "set ps \<subseteq> set (peers rn)"
  shows "\<exists>ms. buildAll term rn ps = Inr ms \<and> list_all2 (outbound_ok term rn) ps ms"
  using ps
proof (induction ps)
  case (Cons p ps)
  then obtain ms where ms: "buildAll term rn ps = Inr ms" "list_all2 (outbound_ok term rn) ps ms"
    by auto
  obtain m where "buildOutbound term rn p = Inr m" "outbound_ok term rn p m"
    using buildOutbound_spec [OF wf ld] Cons.prems by force
  then show ?case using ms by simp
qed simp

section \<open>Backing off after a rejection\<close>

lemma lastOfTerm_spec:
  assumes "i < length l" and "sorted_terms l"
  shows "case lastOfTerm l ct i of
      Some n \<Rightarrow> \<exists>k. 1 \<le> k \<and> k \<le> i \<and> Term (l ! k) = ct \<and> n = u64_add (Index (l ! k)) 1 \<and>
        (\<forall>k'. k < k' \<and> k' \<le> i \<longrightarrow> ct < Term (l ! k'))
    | None \<Rightarrow> \<forall>k. 1 \<le> k \<and> k \<le> i \<longrightarrow> Term (l ! k) \<noteq> ct"
  using assms(1)
proof (induction i)
  case (Suc i)
  have below: "Term (l ! k) \<le> Term (l ! Suc i)" if "k \<le> Suc i" for k
    using assms(2) that Suc.prems by (simp add: sorted_terms_def)
  consider "Term (l ! Suc i) = ct" | "Term (l ! Suc i) < ct" | "ct < Term (l ! Suc i)" by linarith
  then show ?case
  proof cases
    case 1
    then show ?thesis by (auto intro!: exI [of _ "Suc i"])
  next
    case 2
    then have "Term (l ! k) \<noteq> ct" if "k \<le> Suc i" for k
      using below [OF that] by simp
    then show ?thesis using 2 by simp
  next
    case 3
    then have eq: "lastOfTerm l ct (Suc i) = lastOfTerm l ct i" by simp
    have IH: "case lastOfTerm l ct i of
        Some n \<Rightarrow> \<exists>k. 1 \<le> k \<and> k \<le> i \<and> Term (l ! k) = ct \<and> n = u64_add (Index (l ! k)) 1 \<and>
          (\<forall>k'. k < k' \<and> k' \<le> i \<longrightarrow> ct < Term (l ! k'))
      | None \<Rightarrow> \<forall>k. 1 \<le> k \<and> k \<le> i \<longrightarrow> Term (l ! k) \<noteq> ct"
      using Suc.IH Suc.prems by simp
    show ?thesis
    proof (cases "lastOfTerm l ct i")
      case None
      then show ?thesis using IH 3 by (auto simp: eq le_Suc_eq)
    next
      case (Some n)
      then obtain k where "1 \<le> k" "k \<le> i" "Term (l ! k) = ct" "n = u64_add (Index (l ! k)) 1"
          "\<forall>k'. k < k' \<and> k' \<le> i \<longrightarrow> ct < Term (l ! k')"
        using IH by auto
      then show ?thesis
        unfolding eq Some option.case using 3 by (intro exI [of _ k]) (auto simp: le_Suc_eq)
    qed
  qed
qed simp

text \<open>The same by index, on a well-formed log.\<close>

lemma lastOfTerm_log:
  assumes wf: "wf_log l" and st: "sorted_terms l"
  shows "case lastOfTerm l ct (length l - 1) of
      Some n \<Rightarrow> \<exists>j. log_base l < j \<and> j \<le> log_last l \<and> log_term l j = ct \<and> n = j + 1 \<and>
        (\<forall>i. j < i \<and> i \<le> log_last l \<longrightarrow> ct < log_term l i)
    | None \<Rightarrow> \<forall>j. log_base l < j \<and> j \<le> log_last l \<longrightarrow> log_term l j \<noteq> ct"
proof -
  have pos: "length l - 1 < length l" using wf_log_nonempty [OF wf] by (cases l) simp_all
  have slot: "i - log_base l \<le> length l - 1" if "i \<le> log_last l" for i
    using wf_log_slot [OF wf that] by simp
  note spec = lastOfTerm_spec [OF pos st, of ct]
  show ?thesis
  proof (cases "lastOfTerm l ct (length l - 1)")
    case None
    have "log_term l j \<noteq> ct" if "log_base l < j" "j \<le> log_last l" for j
      using spec [unfolded None] slot [OF that(2)] that(1) by (simp add: log_term_def log_entry_def)
    then show ?thesis unfolding None option.case by blast
  next
    case (Some n)
    then obtain k where k: "1 \<le> k" "k \<le> length l - 1" "Term (l ! k) = ct"
        "n = u64_add (Index (l ! k)) 1" "\<forall>k'. k < k' \<and> k' \<le> length l - 1 \<longrightarrow> ct < Term (l ! k')"
      using spec by auto
    have klen: "k < length l" using k(2) pos by simp
    have last: "log_base l + k \<le> log_last l"
      using klen wf_log_last [OF wf] by simp
    have "n = log_base l + k + 1"
      using k(4) last wf_log_last_bound [OF wf] wf_log_nth [OF wf klen] by (simp add: u64_add_Suc0)
    moreover have "ct < log_term l i" if "log_base l + k < i" "i \<le> log_last l" for i
      using k(5) slot [OF that(2)] that(1) by (simp add: log_term_def log_entry_def less_diff_conv add.commute)
    ultimately show ?thesis
      unfolding Some option.case using k(1,3) last
      by (intro exI [of _ "log_base l + k"]) (simp add: log_term_def log_entry_def)
  qed
qed

lemma sorted_log_term_mono:
  assumes "wf_log l" and "sorted_terms l" and "i \<le> j" and "j \<le> log_last l"
  shows "log_term l i \<le> log_term l j"
  using assms wf_log_slot [OF assms(1,4)] diff_le_mono [OF assms(3), of "log_base l"]
  by (simp add: sorted_terms_def log_term_def log_entry_def)

text \<open>
  How the logs of a leader and a follower relate (a consequence of Log Matching): when the
  follower's entry at \<open>i\<close> and a later entry of the leader were made in the same term, the
  leader has that term at \<open>i\<close> as well.
\<close>

definition run_agrees :: "LogEntry list \<Rightarrow> LogEntry list \<Rightarrow> bool" where
  "run_agrees f l \<longleftrightarrow> (\<forall>i j. log_base f \<le> i \<and> i \<le> log_last f \<and> log_base l \<le> i \<and> i \<le> j \<and>
     j \<le> log_last l \<and> log_term f i = log_term l j \<longrightarrow> log_term l i = log_term f i)"

text \<open>The back-off when the follower reports a run of the conflicting term \<open>ct\<close> that starts at \<open>f\<close>.\<close>

lemma backoff_in_run:
  assumes wff: "wf_log lf" and wf: "wf_log l" and sf: "sorted_terms lf" and sl: "sorted_terms l"
    and agree: "run_agrees lf l" and pos: "\<And>j. log_base l < j \<Longrightarrow> j \<le> log_last l \<Longrightarrow> 0 < log_term l j"
    and p: "log_base l \<le> p" "p \<le> log_last l" "0 < p" "log_base lf \<le> p" "p \<le> log_last lf" "log_term lf p \<noteq> log_term l p"
    and hint: "aer_ConflictIndex reply = f" "aer_ConflictTerm reply = log_term lf p" "conflict_run lf p f"
  defines "n \<equiv> nextIndexAfterRejection l p reply"
  shows "1 \<le> n \<and> n \<le> p \<and> (\<forall>i. n \<le> i \<and> i \<le> p \<and> log_base l < i \<longrightarrow> log_term lf i \<noteq> log_term l i)"
proof -
  let ?ct = "log_term lf p"
  have f1: "1 \<le> f" and fp: "f \<le> p" and run: "\<And>i. f \<le> i \<Longrightarrow> i \<le> p \<Longrightarrow> log_term lf i = ?ct"
    using hint(3) p(3) unfolding conflict_run_def by (linarith, blast, blast)
  note lot = lastOfTerm_log [OF wf sl, of ?ct]
  show ?thesis
  proof (cases "?ct = 0 \<or> lastOfTerm l ?ct (length l - 1) = None")
    case True
    then have nf: "n = f" using hint f1 by (auto simp: n_def nextIndexAfterRejection_def)
    have nct: "log_term l i \<noteq> ?ct" if i: "log_base l < i" "i \<le> log_last l" for i
    proof (cases "?ct = 0")
      case True
      then show ?thesis using pos [OF i] by simp
    next
      case False
      then have none: "lastOfTerm l ?ct (length l - 1) = None" using \<open>?ct = 0 \<or> _\<close> by simp
      then show ?thesis using lot [unfolded none option.case] i by blast
    qed
    have "log_term lf i \<noteq> log_term l i" if "f \<le> i" "i \<le> p" "log_base l < i" for i
      using run [OF that(1,2)] nct [OF that(3)] that(2) p(2) by simp
    then show ?thesis using f1 fp unfolding nf by blast
  next
    case False
    then obtain m where m: "lastOfTerm l ?ct (length l - 1) = Some m" and ct0: "?ct \<noteq> 0" by auto
    obtain j where j: "log_base l < j" "j \<le> log_last l" "log_term l j = ?ct" "m = j + 1"
        "\<forall>i. j < i \<and> i \<le> log_last l \<longrightarrow> ?ct < log_term l i"
      using lot unfolding m option.case by blast
    have nxt: "n = j + 1" using m ct0 j(4) hint by (simp add: n_def nextIndexAfterRejection_def)
    have jp: "j < p"
      using agree [unfolded run_agrees_def, rule_format, of p j] p j(2,3) by (metis not_less)
    have "log_term lf i \<noteq> log_term l i" if "j < i" "i \<le> p" for i
      using j(5) that p(2) sorted_log_term_mono [OF wff sf that(2) p(5)] by fastforce
    then show ?thesis using jp unfolding nxt by simp
  qed
qed

lemma nextIndexAfterRejection_spec:
  assumes wff: "wf_log (log rn)" and wf: "wf_log l" and sf: "sorted_terms (log rn)" and sl: "sorted_terms l"
    and agree: "run_agrees (log rn) l" and pos: "\<And>j. log_base l < j \<Longrightarrow> j \<le> log_last l \<Longrightarrow> 0 < log_term l j"
    and prev: "log_base l \<le> aea_PrevLogIndex args" "aea_PrevLogIndex args \<le> log_last l"
      "aea_PrevLogTerm args = log_term l (aea_PrevLogIndex args)" "0 < aea_PrevLogIndex args"
    and hint: "consistencyCheck args rn = Inr (Some (aer_ConflictIndex reply, aer_ConflictTerm reply))"
  defines "n \<equiv> nextIndexAfterRejection l (aea_PrevLogIndex args) reply"
  shows "1 \<le> n" and "n \<le> aea_PrevLogIndex args"
    and "\<And>i. n \<le> i \<Longrightarrow> i \<le> aea_PrevLogIndex args \<Longrightarrow> log_base l < i \<Longrightarrow> i \<le> log_last (log rn) \<Longrightarrow>
           log_term (log rn) i \<noteq> log_term l i"
proof -
  let ?p = "aea_PrevLogIndex args"
  have "1 \<le> n \<and> n \<le> ?p \<and> (\<forall>i. n \<le> i \<and> i \<le> ?p \<and> log_base l < i \<and> i \<le> log_last (log rn) \<longrightarrow>
      log_term (log rn) i \<noteq> log_term l i)"
  proof (rule consistencyCheck_cases [OF wff, of args])
    assume "consistencyCheck args rn = Inr None"
    then show ?thesis using hint by simp
  next
    assume short: "\<not> accepts args (log rn)" "log_last (log rn) < ?p"
      "consistencyCheck args rn = Inr (Some (log_last (log rn) + 1, 0))"
    then have "n = log_last (log rn) + 1"
      using hint by (simp add: n_def nextIndexAfterRejection_def)
    then show ?thesis using short(2) by simp
  next
    fix f
    assume clash: "\<not> accepts args (log rn)" "log_base (log rn) \<le> ?p" "?p \<le> log_last (log rn)"
      "log_term (log rn) ?p \<noteq> aea_PrevLogTerm args"
      "consistencyCheck args rn = Inr (Some (f, log_term (log rn) ?p))" "conflict_run (log rn) ?p f"
    then have "log_term (log rn) ?p \<noteq> log_term l ?p" "aer_ConflictIndex reply = f"
        "aer_ConflictTerm reply = log_term (log rn) ?p"
      using prev(3) hint by simp_all
    from backoff_in_run [OF wff wf sf sl agree pos prev(1,2,4) clash(2,3) this clash(6)]
    show ?thesis unfolding n_def by blast
  qed
  then show "1 \<le> n" and "n \<le> ?p"
    and "\<And>i. n \<le> i \<Longrightarrow> i \<le> ?p \<Longrightarrow> log_base l < i \<Longrightarrow> i \<le> log_last (log rn) \<Longrightarrow>
           log_term (log rn) i \<noteq> log_term l i"
    by blast+
qed

section \<open>Digesting replies\<close>

text \<open>
  The request a reply answers: its entries are still inside the leader's log, which only grows
  while the leadership lasts.
\<close>

definition answered :: "AppendEntriesArgs \<Rightarrow> 'd RaftNode \<Rightarrow> bool" where
  "answered args rn \<longleftrightarrow> aea_PrevLogIndex args + length (aea_Entries args) \<le> log_last (log rn)"

text \<open>
  The commit index \<open>c\<close> that the leader in the state \<open>rn\<close> has to choose: it never moves back, it moves
  only to an index that may be committed, and where terms never decrease along the log it is the
  greatest such index.
\<close>

definition commit_chosen :: "'d RaftNode \<Rightarrow> nat \<Rightarrow> bool" where
  "commit_chosen rn c \<longleftrightarrow> commitIndex rn \<le> c \<and> (c \<noteq> commitIndex rn \<longrightarrow> committable rn c) \<and>
     (terms_ok rn \<longrightarrow> (\<forall>k. committable rn k \<longrightarrow> k \<le> c))"

definition reply_post ::
  "node_id \<Rightarrow> nat \<Rightarrow> AppendEntriesArgs \<Rightarrow> AppendEntriesReply \<Rightarrow> 'd RaftNode \<Rightarrow> 'd RaftNode \<Rightarrow> bool" where
  "reply_post peer term args reply rn rn' \<longleftrightarrow>
     (if \<not> stopped rn \<and> aer_Term reply > currentTerm rn then steppedDown (aer_Term reply) rn rn'
      else if stopped rn \<or> state rn \<noteq> Leader \<or> currentTerm rn \<noteq> term then rn' = rn
      else log rn' = log rn \<and> commitIndex rn \<le> commitIndex rn' \<and> state rn' = Leader \<and>
        currentTerm rn' = term \<and> votedFor rn' = votedFor rn \<and> same_ident rn rn' \<and>
        votes rn' = votes rn \<and> voteCalls rn' = voteCalls rn \<and> lastApplied rn' = lastApplied rn \<and>
        pendingSnapshot rn' = pendingSnapshot rn \<and> disk rn' = disk rn \<and>
        (if aer_Success reply
         then map_get (matchIndex rn') peer =
                max (map_get (matchIndex rn) peer) (aea_PrevLogIndex args + length (aea_Entries args)) \<and>
              (if map_get (matchIndex rn) peer < aea_PrevLogIndex args + length (aea_Entries args)
               then map_get (nextIndex rn') peer = map_get (matchIndex rn') peer + 1 \<and>
                    commit_chosen (rn\<lparr>matchIndex := matchIndex rn'\<rparr>) (commitIndex rn')
               else rn' = rn)
         else matchIndex rn' = matchIndex rn \<and> commitIndex rn' = commitIndex rn \<and> triggerCh rn' \<and>
              map_get (nextIndex rn') peer =
                min (map_get (nextIndex rn) peer)
                  (nextIndexAfterRejection (log rn) (aea_PrevLogIndex args) reply)) \<and>
        (\<forall>q. q \<noteq> peer \<longrightarrow> map_get (matchIndex rn') q = map_get (matchIndex rn) q \<and>
                          map_get (nextIndex rn') q = map_get (nextIndex rn) q))"

lemma advanceCommitIndexLocked_chosen:
  assumes wf: "wf_node rn" and "state rn = Leader"
  shows "\<exists>c. advanceCommitIndexLocked rn = Inr (rn\<lparr>commitIndex := c\<rparr>) \<and> commit_chosen rn c \<and>
     wf_node (rn\<lparr>commitIndex := c\<rparr>)"
proof -
  obtain c where c: "advanceCommitIndexLocked rn = Inr (rn\<lparr>commitIndex := c\<rparr>)" "commitIndex rn \<le> c"
    "c \<noteq> commitIndex rn \<Longrightarrow> state rn = Leader \<and> committable rn c"
    "state rn = Leader \<Longrightarrow> terms_ok rn \<Longrightarrow> \<forall>k. committable rn k \<longrightarrow> k \<le> c"
    using advanceCommitIndexLocked_spec [OF wf] by metis
  have "c \<le> log_last (log rn)"
    using c(3) wf_node_ids(5) [OF wf] by (cases "c = commitIndex rn") (simp_all add: committable_def)
  then have "wf_node (rn\<lparr>commitIndex := c\<rparr>)"
    using wf_node_commit [OF wf c(2)] by simp
  then show ?thesis
    using c assms(2) by (auto simp: commit_chosen_def)
qed

lemma handleAppendEntriesReply_spec:
  assumes wf: "wf_node rn" and ans: "answered args rn" and rt: "aer_Term reply < u64_size"
  shows "ensures stops_safely (\<lambda>rn'. reply_post peer term args reply rn rn' \<and> wf_node rn')
           (handleAppendEntriesReply clk peer term args reply rn)"
proof (cases "\<not> stopped rn \<and> aer_Term reply > currentTerm rn")
  case True
  then show ?thesis
    using becomeFollowerLocked_wf [OF wf rt, of clk]
    by (auto elim!: ensures_mono simp: handleAppendEntriesReply_def reply_post_def)
next
  case low: False
  show ?thesis
  proof (cases "stopped rn \<or> state rn \<noteq> Leader \<or> currentTerm rn \<noteq> term")
    case True
    then show ?thesis
      using low wf by (auto simp: handleAppendEntriesReply_def reply_post_def)
  next
    case live: False
    let ?m = "aea_PrevLogIndex args + length (aea_Entries args)"
    note bound = wf_log_last_bound [OF wf_node_ids(2) [OF wf]]
    have m: "u64_add (aea_PrevLogIndex args) (length (aea_Entries args)) = ?m"
        "u64_add ?m 1 = ?m + 1"
      using ans bound by (simp_all add: answered_def u64_add_small)
    show ?thesis
    proof (cases "aer_Success reply \<and> ?m > map_get (matchIndex rn) peer")
      case True
      let ?r = "rn\<lparr>matchIndex := (matchIndex rn)(peer \<mapsto> ?m), nextIndex := (nextIndex rn)(peer \<mapsto> ?m + 1)\<rparr>"
      have "wf_node ?r"
        using wf ans by (auto simp: wf_node_def progress_ok_def answered_def)
      then obtain c where c: "advanceCommitIndexLocked ?r = Inr (?r\<lparr>commitIndex := c\<rparr>)"
          "commit_chosen ?r c" "wf_node (?r\<lparr>commitIndex := c\<rparr>)"
        using advanceCommitIndexLocked_chosen live by fastforce
      have same: "committable ?r = committable (rn\<lparr>matchIndex := (matchIndex rn)(peer \<mapsto> ?m)\<rparr>)"
        by (simp add: fun_eq_iff committable_def replicaCount_def quorum_def)
      have chosen: "commit_chosen (rn\<lparr>matchIndex := (matchIndex rn)(peer \<mapsto> ?m)\<rparr>) c"
        using c(2) same by (simp add: commit_chosen_def terms_ok_def)
      have "handleAppendEntriesReply clk peer term args reply rn = Inr (?r\<lparr>commitIndex := c\<rparr>)"
        using True live low c(1) unfolding handleAppendEntriesReply_def Let_def m by simp
      moreover have "reply_post peer term args reply rn (?r\<lparr>commitIndex := c\<rparr>)"
        using True live low chosen by (simp add: reply_post_def same_ident_def) (simp add: commit_chosen_def)
      ultimately show ?thesis using c(3) by simp
    next
      case False
      show ?thesis
      proof (cases "aer_Success reply")
        case True
        then have "handleAppendEntriesReply clk peer term args reply rn = Inr rn"
          using False live low m(1) by (simp add: handleAppendEntriesReply_def)
        then show ?thesis
          using True False live low wf by (simp add: reply_post_def)
      next
        case rejected: False
        let ?n = "nextIndexAfterRejection (log rn) (aea_PrevLogIndex args) reply"
        let ?r = "if ?n < map_get (nextIndex rn) peer
          then rn\<lparr>nextIndex := (nextIndex rn)(peer \<mapsto> ?n)\<rparr> else rn"
        have "handleAppendEntriesReply clk peer term args reply rn = Inr (?r\<lparr>triggerCh := True\<rparr>)"
          using rejected live low by (simp add: handleAppendEntriesReply_def Let_def)
        moreover have "reply_post peer term args reply rn (?r\<lparr>triggerCh := True\<rparr>)"
          using rejected live low by (simp add: reply_post_def same_ident_def)
        moreover have "wf_node (?r\<lparr>triggerCh := True\<rparr>)"
          using wf by (auto simp: wf_node_def progress_ok_def)
        ultimately show ?thesis by simp
      qed
    qed
  qed
qed

lemma sendSnapshot_reply_spec:
  assumes wf: "wf_node rn" and snap: "LastIncludedIndex snap \<le> log_last (log rn)"
    and rt: "isr_Term reply < u64_size"
  shows "ensures stops_safely (\<lambda>rn'. wf_node rn' \<and> same_log rn rn' \<and>
           (if \<not> stopped rn \<and> isr_Term reply > currentTerm rn then steppedDown (isr_Term reply) rn rn'
            else currentTerm rn' = currentTerm rn \<and> votedFor rn' = votedFor rn \<and> state rn' = state rn \<and>
              (\<not> stopped rn \<and> state rn = Leader \<and> currentTerm rn = term \<longrightarrow>
                 LastIncludedIndex snap \<le> map_get (matchIndex rn') peer)))
           (sendSnapshot_reply clk peer term snap reply rn)"
proof (cases "\<not> stopped rn \<and> isr_Term reply > currentTerm rn")
  case True
  then show ?thesis
    using becomeFollowerLocked_wf [OF wf rt, of clk]
    by (auto elim!: ensures_mono simp: sendSnapshot_reply_def steppedDown_def)
next
  case False
  let ?i = "LastIncludedIndex snap"
  have "u64_add ?i (Suc 0) = Suc ?i"
    using snap wf_log_last_bound [OF wf_node_ids(2) [OF wf]] by (simp add: u64_add_Suc0)
  moreover have "wf_node (rn\<lparr>matchIndex := (matchIndex rn)(peer \<mapsto> ?i), nextIndex := (nextIndex rn)(peer \<mapsto> Suc ?i)\<rparr>)"
    using wf snap by (auto simp: wf_node_def progress_ok_def)
  ultimately show ?thesis
    using False wf by (auto simp: sendSnapshot_reply_def same_log_def)
qed

end
