(* ===== verification/Raft_Properties.thy ===== *)
theory Raft_Properties
  imports Raft_Leader
begin

text \<open>
  The properties of a single node: what each RPC handler answers and leaves behind, the commit
  rule, proposals, replication rounds and the back-off. The witnesses run them on the node
  \<open>demoNode\<close>, whose store is the one-cell memory store of the repository's unit tests.
\<close>

section \<open>A concrete node\<close>

definition memStore :: "HardState StateStore" where
  "memStore = \<lparr>SaveHardState = (\<lambda>hs d. (hs, None)), LoadHardState = (\<lambda>d. Inr (Some d))\<rparr>"

definition demoConfig :: "HardState Config" where
  "demoConfig = \<lparr>ID = ''n1'', Peers = [''n2'', ''n3''], Store = Some memStore, LogStore = None,
     SnapshotStore = None, SnapshotThreshold = 0, Transport = True,
     ElectionTimeoutMin = 150, ElectionTimeoutMax = 300, HeartbeatInterval = 50, RPCTimeout = 100\<rparr>"

definition demoLog :: "LogEntry list" where
  "demoLog = [\<lparr>Term = 0, Index = 0, Command = []\<rparr>, \<lparr>Term = 1, Index = 1, Command = ''a''\<rparr>,
              \<lparr>Term = 2, Index = 2, Command = ''b''\<rparr>]"

definition demoNode :: "HardState RaftNode" where
  "demoNode = (freshNode demoConfig \<lparr>CurrentTerm = 2, VotedFor = []\<rparr>)\<lparr>currentTerm := 2, log := demoLog\<rparr>"

definition demoLeader :: "HardState RaftNode" where
  "demoLeader = demoNode\<lparr>state := Leader, nextIndex := [''n2'' \<mapsto> 2, ''n3'' \<mapsto> 3],
     matchIndex := [''n2'' \<mapsto> 2, ''n3'' \<mapsto> 0]\<rparr>"

definition demoClock :: Clock where
  "demoClock = \<lparr>now = 0, draw = 0\<rparr>"

lemmas demo_defs = demoNode_def demoLeader_def demoLog_def demoConfig_def freshNode_def memStore_def

lemma demo_log:
  "wf_log demoLog" "log_base demoLog = 0" "log_last demoLog = 2"
  by (auto simp: wf_log_def log_base_def log_last_def demoLog_def u64_size_def nth_Cons split: nat.splits)

lemma demo_fields [simp]:
  "log demoNode = demoLog" "log demoLeader = demoLog" "currentTerm demoNode = 2" "currentTerm demoLeader = 2"
  "commitIndex demoNode = 0" "commitIndex demoLeader = 0" "stopped demoNode = False"
  "stopped demoLeader = False" "state demoLeader = Leader" "state demoNode = Follower"
  "votedFor demoNode = NoID" "peers demoLeader = [''n2'', ''n3'']"
  "map_get (matchIndex demoLeader) = (\<lambda>p. if p = ''n2'' then 2 else 0)"
  "map_get (nextIndex demoLeader) = (\<lambda>p. if p = ''n3'' then 3 else if p = ''n2'' then 2 else 0)"
  by (simp_all add: demo_defs NoID_def map_get_def fun_eq_iff)

lemma demo_wf: "wf_node demoNode" "wf_node demoLeader"
proof -
  have s: "Store (cfg demoNode) \<noteq> None" "Store (cfg demoLeader) \<noteq> None"
    "lastApplied demoNode = 0" "lastApplied demoLeader = 0" "(2::nat) < u64_size"
    by (simp_all add: demo_defs u64_size_def)
  show "wf_node demoNode" "wf_node demoLeader"
    using s demo_log by (simp_all add: wf_node_def progress_ok_def)
qed

section \<open>RequestVote\<close>

lemma vote_post_wf:
  assumes "wf_node rn" and "vote_post args rn reply rn'" and "rva_Term args < u64_size"
  shows "wf_node rn'"
proof -
  have "same_ident rn rn'" "same_log rn rn'" "same_calls rn rn'" "state rn' = Leader \<longrightarrow> state rn = Leader"
    "currentTerm rn' < u64_size"
    using assms wf_node_ids(3) [OF assms(1)] by (auto simp: vote_post_def split: if_splits)
  then show ?thesis
    using assms(1) by (auto simp: wf_node_def progress_ok_def frame_defs)
qed

text \<open>
  C4: A node answers RequestVote in the way the protocol prescribes. It grants the vote exactly
  when it runs, the candidate's term is not older, the candidate's log is at least as up to
  date, and its vote in that term is free or already the candidate's; a granted vote is
  recorded, a newer term is adopted and makes it a follower, and the log is not touched. The
  only panics possible are the fail-stop ones of the store, and the node stays well formed.
\<close>

theorem request_vote_correct:
  assumes "wf_node rn" and "rva_Term args < u64_size"
  shows "ensures stops_safely (\<lambda>(reply, rn'). vote_post args rn reply rn' \<and> wf_node rn')
           (HandleRequestVote clk args rn)"
  by (rule ensures_mono [OF HandleRequestVote_spec [OF assms(1)]])
    (use vote_post_wf [OF assms(1) _ assms(2)] in auto)

definition demoVote :: RequestVoteArgs where
  "demoVote = \<lparr>rva_Term = 3, rva_CandidateID = ''n2'', rva_LastLogIndex = 2, rva_LastLogTerm = 2\<rparr>"

lemma demo_vote_runs: "isOk (HandleRequestVote demoClock demoVote demoNode)"
  by (simp add: HandleRequestVote_def decideVote_def becomeFollowerLocked_def persistLocked_def
        demoVote_def demo_defs lastLogTerm_def lastLogIndex_def go_last_def resetElectionTimerLocked_def NoID_def)

theorem request_vote_correct_witness:
  "\<exists>reply rn'. HandleRequestVote demoClock demoVote demoNode = Inr (reply, rn') \<and>
     rvr_VoteGranted reply \<and> votedFor rn' = ''n2'' \<and> currentTerm rn' = 3 \<and> wf_node rn'"
proof -
  have "ensures stops_safely (\<lambda>(reply, rn'). vote_post demoVote demoNode reply rn' \<and> wf_node rn')
      (HandleRequestVote demoClock demoVote demoNode)"
    by (rule request_vote_correct [OF demo_wf(1)]) (simp add: demoVote_def u64_size_def)
  moreover note demo_vote_runs
  moreover have "grants_vote demoVote demoNode"
    using demo_log by (simp add: grants_vote_def up_to_date_def vote_in_def demoVote_def) (simp add: demoLog_def)
  ultimately show ?thesis
    by (auto simp: isOk_iff vote_post_def demoVote_def)
qed

section \<open>AppendEntries\<close>

text \<open>
  C5: A running node answers AppendEntries of a current term by acknowledging the leader and then
  applying the consistency check: a request that does not fit is rejected and leaves the log
  and the commit index alone; one that fits is merged into the log and moves the commit index
  to the smaller of the leader's and the last entry sent, never back. A stale request or a
  stopped node changes nothing. Beside the stores' fail-stop panics the handler can only stop
  at its assertion that no committed entry is truncated.
\<close>

theorem append_entries_correct:
  assumes "wf_node rn" and "wf_aea args"
  shows "ensures (append_panic args rn) (\<lambda>(reply, rn'). hae_post args rn reply rn' \<and> wf_node rn')
           (HandleAppendEntries clk args rn)"
  by (rule ensures_mono [OF HandleAppendEntries_spec [OF assms]])
    (use hae_post_wf [OF assms] in auto)

definition demoAppend :: AppendEntriesArgs where
  "demoAppend = \<lparr>aea_Term = 3, aea_LeaderID = ''n2'', aea_PrevLogIndex = 1, aea_PrevLogTerm = 1,
     aea_Entries = [\<lparr>Term = 3, Index = 2, Command = ''c''\<rparr>], aea_LeaderCommit = 1\<rparr>"

lemma demoAppend_wf: "wf_aea demoAppend"
  by (simp add: demoAppend_def wf_aea_def u64_size_def)

lemma demoAppend_accepts: "accepts demoAppend demoLog"
  using demo_log by (simp add: accepts_def demoAppend_def log_term_def log_entry_def) (simp add: demoLog_def)

lemma demoAppend_walk:
  "walk_log (aea_Entries demoAppend) demoLog =
     [\<lparr>Term = 0, Index = 0, Command = []\<rparr>, \<lparr>Term = 1, Index = 1, Command = ''a''\<rparr>,
      \<lparr>Term = 3, Index = 2, Command = ''c''\<rparr>]"
  "walk_conflict (aea_Entries demoAppend) demoLog = Some 2"
  using demo_log by (simp_all add: demoAppend_def log_term_def log_entry_def) (simp_all add: demoLog_def)

lemmas demo_run_defs = becomeFollowerLocked_def persistLocked_def lastLogTerm_def lastLogIndex_def
  baseIndex_def termAt_def entriesFrom_def go_last_def go_index_def go_slice_from_def go_slice_to_def
  resetElectionTimerLocked_def u64_sub_def u64_add_def u64_size_def logWrite_def appendLogLocked_def
  truncateLogLocked_def Let_def

lemma demoAppend_ok: "isOk (HandleAppendEntries demoClock demoAppend demoNode)"
  by (simp add: HandleAppendEntries_def appendToLog_def consistencyCheck_def demoAppend_def demo_defs
      demo_run_defs)

lemma demoAppend_run:
  "\<exists>reply rn'. HandleAppendEntries demoClock demoAppend demoNode = Inr (reply, rn') \<and>
     aer_Success reply \<and> log rn' = walk_log (aea_Entries demoAppend) demoLog"
proof -
  obtain reply rn' where r: "HandleAppendEntries demoClock demoAppend demoNode = Inr (reply, rn')"
    using demoAppend_ok by (auto simp: isOk_iff)
  then show ?thesis
    using HandleAppendEntries_spec [OF demo_wf(1) demoAppend_wf, of demoClock] demoAppend_accepts
    by (auto simp: hae_post_def demoAppend_def append_post_def contacted_def same_log_def)
qed

theorem append_entries_correct_witness:
  "\<exists>reply rn'. HandleAppendEntries demoClock demoAppend demoNode = Inr (reply, rn') \<and>
     aer_Success reply \<and> map Term (log rn') = [0, 1, 3] \<and> commitIndex rn' = 1 \<and> wf_node rn'"
proof -
  have "ensures (append_panic demoAppend demoNode)
      (\<lambda>(reply, rn'). hae_post demoAppend demoNode reply rn' \<and> wf_node rn')
      (HandleAppendEntries demoClock demoAppend demoNode)"
    by (rule append_entries_correct [OF demo_wf(1) demoAppend_wf])
  then obtain reply rn' where r: "HandleAppendEntries demoClock demoAppend demoNode = Inr (reply, rn')"
      "hae_post demoAppend demoNode reply rn'" "wf_node rn'"
    using demoAppend_ok by (auto simp: isOk_iff)
  obtain m where m: "contacted 3 ''n2'' demoNode m" "append_post demoAppend m reply rn'"
    using r(2) by (auto simp: hae_post_def demoAppend_def)
  then have "log m = demoLog" "commitIndex m = 0" by (auto simp: contacted_def same_log_def)
  then have "aer_Success reply" "log rn' = walk_log (aea_Entries demoAppend) demoLog" "commitIndex rn' = 1"
    using m(2) demoAppend_accepts
    by (simp_all add: append_post_def) (simp add: follower_commit_def demoAppend_def)
  then show ?thesis using r(1,3) demoAppend_walk(1) by auto
qed

text \<open>
  C6: What an accepted AppendEntries does to the log: afterwards the log reaches at least to the
  last entry of the request and holds an entry of the requested term at every index the request
  covers above the snapshot boundary. Past the old end of the log and from the first conflict on
  these are the request's entries themselves, index, term and command. Every entry up to the
  commit index and every entry before the first conflict is the one that was there before; after
  a conflict the log ends with the request, and without one no entry at all is lost, so a delayed
  or duplicated request cannot shorten the log.
\<close>

theorem append_entries_log:
  assumes wf: "wf_node rn" and args: "wf_aea args"
    and run: "HandleAppendEntries clk args rn = Inr (reply, rn')" and ok: "aer_Success reply"
  shows "(\<forall>j < length (aea_Entries args). log_base (log rn) < aea_PrevLogIndex args + 1 + j \<longrightarrow>
            log_term (log rn') (aea_PrevLogIndex args + 1 + j) = Term (aea_Entries args ! j) \<and>
            (log_last (log rn) < aea_PrevLogIndex args + 1 + j \<or>
             (\<exists>c. walk_conflict (aea_Entries args) (log rn) = Some c \<and> c \<le> aea_PrevLogIndex args + 1 + j) \<longrightarrow>
               log_entry (log rn') (aea_PrevLogIndex args + 1 + j) = aea_Entries args ! j)) \<and>
         log_last (log rn') = (if walk_conflict (aea_Entries args) (log rn) = None
            then max (log_last (log rn)) (aea_PrevLogIndex args + length (aea_Entries args))
            else aea_PrevLogIndex args + length (aea_Entries args)) \<and>
         (\<forall>c. walk_conflict (aea_Entries args) (log rn) = Some c \<longrightarrow>
            commitIndex rn < c \<and> (\<forall>i < c. log_entry (log rn') i = log_entry (log rn) i)) \<and>
         (\<forall>i \<le> commitIndex rn. log_entry (log rn') i = log_entry (log rn) i) \<and>
         (walk_conflict (aea_Entries args) (log rn) = None \<longrightarrow>
            (\<forall>i \<le> log_last (log rn). i \<le> log_last (log rn') \<and> log_entry (log rn') i = log_entry (log rn) i))"
proof -
  have post: "hae_post args rn reply rn'"
    using HandleAppendEntries_spec [OF wf args, of clk] run by simp
  then obtain r where r: "contacted (aea_Term args) (aea_LeaderID args) rn r" "append_post args r reply rn'"
    using ok by (auto simp: hae_post_def rejectAppend_def split: if_splits)
  have same: "log r = log rn" "commitIndex r = commitIndex rn"
    using r(1) by (auto simp: contacted_def same_log_def)
  have acc: "accepts args (log rn)" and log': "log rn' = walk_log (aea_Entries args) (log rn)"
    and safe: "\<not> truncates_committed args rn"
    using r(2) ok same by (auto simp: append_post_def truncates_committed_def split: if_splits)
  note walk = walkable_aea [OF wf_node_ids(2) [OF wf] args acc]
  have "log_entry (log rn') i = log_entry (log rn) i" if "i \<le> commitIndex rn" for i
    unfolding log' using safe that wf_node_ids(5) [OF wf]
    by (intro walk_log_keeps(2) [OF walk]) (auto simp: truncates_committed_def not_le)
  moreover have "i \<le> log_last (log rn') \<and> log_entry (log rn') i = log_entry (log rn) i"
    if "walk_conflict (aea_Entries args) (log rn) = None" "i \<le> log_last (log rn)" for i
    unfolding log' using walk_log_keeps [OF walk that(2)] that(1) by simp
  moreover have "commitIndex rn < c \<and> (\<forall>i < c. log_entry (log rn') i = log_entry (log rn) i)"
    if "walk_conflict (aea_Entries args) (log rn) = Some c" for c
  proof -
    have "commitIndex rn < c" using safe that by (auto simp: truncates_committed_def not_le)
    then show ?thesis
      unfolding log' using walk_conflict_bounds(3) [OF walk that] that by (auto intro!: walk_log_keeps(2) [OF walk])
  qed
  moreover have "log_entry (log rn') (aea_PrevLogIndex args + 1 + j) = aea_Entries args ! j"
    if "j < length (aea_Entries args)" "log_base (log rn) < aea_PrevLogIndex args + 1 + j"
      "log_last (log rn) < aea_PrevLogIndex args + 1 + j \<or>
       (\<exists>c. walk_conflict (aea_Entries args) (log rn) = Some c \<and> c \<le> aea_PrevLogIndex args + 1 + j)" for j
    unfolding log' using that by (rule walk_log_writes [OF walk])
  ultimately show ?thesis
    using walk_log_has_entries [OF walk] walk_log_last [OF walk] by (simp add: log')
qed

theorem append_entries_log_witness:
  "\<exists>reply rn'. HandleAppendEntries demoClock demoAppend demoNode = Inr (reply, rn') \<and>
     aer_Success reply \<and> log_last (log rn') = 2 \<and> log_entry (log rn') 2 = \<lparr>Term = 3, Index = 2, Command = ''c''\<rparr>"
proof -
  obtain reply rn' where r: "HandleAppendEntries demoClock demoAppend demoNode = Inr (reply, rn')"
      "aer_Success reply"
    using demoAppend_run by blast
  then show ?thesis
    using append_entries_log [OF demo_wf(1) demoAppend_wf r] r demo_log demoAppend_walk(2)
    by (auto simp: demoAppend_def numeral_2_eq_2)
qed

text \<open>
  C7: AppendEntries is idempotent: delivering a request again to the node that has just accepted
  it, at whatever time, succeeds again, whatever the store would do, and changes nothing but the
  election timer: not the log, not the commit index, and nothing is written to the disk.
\<close>

theorem append_entries_idempotent:
  assumes wf: "wf_node rn" and args: "wf_aea args"
    and run: "HandleAppendEntries clk args rn = Inr (reply, rn')" and ok: "aer_Success reply"
  shows "\<exists>reply2. HandleAppendEntries clk' args rn' = Inr (reply2, resetElectionTimerLocked clk' rn') \<and>
     aer_Success reply2 \<and> aer_Term reply2 = aea_Term args \<and>
     log (resetElectionTimerLocked clk' rn') = log rn' \<and>
     commitIndex (resetElectionTimerLocked clk' rn') = commitIndex rn' \<and>
     disk (resetElectionTimerLocked clk' rn') = disk rn'"
proof -
  let ?r = "resetElectionTimerLocked clk' rn'" and ?p = "aea_PrevLogIndex args"
  have post: "hae_post args rn reply rn'"
    using HandleAppendEntries_spec [OF wf args, of clk] run by simp
  have wl': "wf_log (log rn')" using wf_node_ids(2) [OF hae_post_wf [OF wf args post]] .
  obtain r where r: "contacted (aea_Term args) (aea_LeaderID args) rn r" "append_post args r reply rn'"
    and live: "\<not> stopped rn"
    using post ok by (auto simp: hae_post_def rejectAppend_def split: if_splits)
  have same: "log r = log rn" "commitIndex r = commitIndex rn" "stopped r = stopped rn"
      "currentTerm r = aea_Term args" "state r = Follower" "leaderID r = aea_LeaderID args"
    using r(1) by (auto simp: contacted_def same_log_def same_ident_def)
  have acc: "accepts args (log rn)" and log': "log rn' = walk_log (aea_Entries args) (log rn)"
    and com': "commitIndex rn' = follower_commit args (commitIndex rn)"
    and now: "\<not> stopped rn'" "currentTerm rn' = aea_Term args" "state rn' = Follower"
      "leaderID rn' = aea_LeaderID args"
    using r(2) ok same live by (auto simp: append_post_def same_ident_def split: if_splits)
  note walk = walkable_aea [OF wf_node_ids(2) [OF wf] args acc]
  have acc': "accepts args (log rn')"
  proof -
    have "?p < c" if "walk_conflict (aea_Entries args) (log rn) = Some c" for c
      using walk_conflict_bounds(1) [OF walk that] by simp
    moreover have "?p \<le> log_last (log rn)" using acc by (simp add: accepts_def)
    ultimately show ?thesis
      using walk_log_keeps [OF walk, of ?p] acc walk_log_wf(2) [OF walk]
      by (simp add: accepts_def log' log_term_def)
  qed
  have run2: "HandleAppendEntries clk' args rn' = appendToLog args (rejectAppend (aea_Term args)) ?r"
    using now by (simp add: HandleAppendEntries_def flip: now(4))
  have check: "consistencyCheck args ?r = Inr None"
    using consistencyCheck_cases [of ?r args] wl' acc' by auto
  have held: "appendWalk (log_base (log ?r)) (aea_Entries args) ?r = Inr ?r"
  proof (rule appendWalk_held)
    show "walkable (?p + 1) (aea_Entries args) (log ?r)"
      using walkable_aea [OF wl' args acc'] by simp
    show "?p + 1 + j \<le> log_last (log ?r) \<and> log_term (log ?r) (?p + 1 + j) = Term (aea_Entries args ! j)"
      if "j < length (aea_Entries args)" "log_base (log ?r) < ?p + 1 + j" for j
      using walk_log_has_entries [OF walk that(1)] walk_log_wf(2,3) [OF walk] that by (simp add: log')
  qed
  have "advanceFollowerCommit args ?r = ?r"
    using com' by (simp add: advanceFollowerCommit_spec [OF args] follower_commit_def)
  then show ?thesis
    using check held baseIndex_wf [of ?r] wl' by (simp add: run2 appendToLog_def rejectAppend_def)
qed

theorem append_entries_idempotent_witness:
  "\<exists>reply rn' reply2. HandleAppendEntries demoClock demoAppend demoNode = Inr (reply, rn') \<and>
     log rn' \<noteq> log demoNode \<and>
     HandleAppendEntries demoClock demoAppend rn' = Inr (reply2, resetElectionTimerLocked demoClock rn') \<and>
     aer_Success reply2"
proof -
  obtain reply rn' where r: "HandleAppendEntries demoClock demoAppend demoNode = Inr (reply, rn')"
      "aer_Success reply" "log rn' = walk_log (aea_Entries demoAppend) demoLog"
    using demoAppend_run by blast
  then show ?thesis
    using append_entries_idempotent [OF demo_wf(1) demoAppend_wf r(1,2), of demoClock] demoAppend_walk(1)
    by (auto simp: demoLog_def)
qed

section \<open>InstallSnapshot\<close>

text \<open>
  C8: A running node that is sent a snapshot by a current leader either already has everything
  it covers committed and leaves its log alone, or replaces the covered part of its log by the
  snapshot's boundary, keeps the entries after it exactly when its own entry at the boundary has
  the snapshot's term, moves its commit index to the boundary and leaves the snapshot for the
  applier. Only the fail-stop panics of the stores are possible and the node stays well formed.
\<close>

theorem install_snapshot_correct:
  assumes "wf_node rn" and "wf_isa args"
  shows "ensures stops_safely (\<lambda>(reply, rn'). his_post args rn reply rn' \<and> wf_node rn')
           (HandleInstallSnapshot clk args rn)"
  by (rule ensures_mono [OF HandleInstallSnapshot_spec [OF assms]])
    (use his_post_wf [OF assms] in auto)

definition demoInstall :: InstallSnapshotArgs where
  "demoInstall = \<lparr>isa_Term = 3, isa_LeaderID = ''n2'', isa_LastIncludedIndex = 1,
     isa_LastIncludedTerm = 1, isa_Offset = 0, isa_Data = ''s'', isa_Done = True\<rparr>"

theorem install_snapshot_correct_witness:
  "\<exists>reply rn'. HandleInstallSnapshot demoClock demoInstall demoNode = Inr (reply, rn') \<and>
     log_base (log rn') = 1 \<and> log_last (log rn') = 2 \<and> commitIndex rn' = 1 \<and> wf_node rn'"
proof -
  have wf: "wf_isa demoInstall" by (simp add: wf_isa_def demoInstall_def u64_size_def)
  have "isOk (HandleInstallSnapshot demoClock demoInstall demoNode)"
    by (simp add: HandleInstallSnapshot_def installSnapshot_def retainedSuffix_def demoInstall_def demo_defs
        demo_run_defs saveInstalledSnapshot_def compactForSnapshot_def)
  then obtain reply rn' where r: "HandleInstallSnapshot demoClock demoInstall demoNode = Inr (reply, rn')"
      "his_post demoInstall demoNode reply rn'" "wf_node rn'"
    using install_snapshot_correct [OF demo_wf(1) wf, of demoClock] by (auto simp: isOk_iff)
  obtain m where m: "contacted 3 ''n2'' demoNode m" "install_post demoInstall m rn'"
    using r(2) by (auto simp: his_post_def demoInstall_def)
  then have "log m = demoLog" "commitIndex m = 0" by (auto simp: contacted_def same_log_def)
  then have "log rn' = install_log demoInstall demoLog" "commitIndex rn' = 1"
    using m(2) by (simp_all add: install_post_def) (simp_all add: demoInstall_def)
  moreover have "install_log demoInstall demoLog = [sentinel 1 1, \<lparr>Term = 2, Index = 2, Command = ''b''\<rparr>]"
    using demo_log
    by (simp add: install_log_def retained_def demoInstall_def log_term_def log_entry_def) (simp add: demoLog_def)
  ultimately show ?thesis
    using r(1,3) by (auto simp: log_base_def log_last_def sentinel_def)
qed

section \<open>The leader\<close>

text \<open>
  C9: The leader's commit rule. The commit index never moves back; it moves only on a leader and
  only to an entry of the leader's own term that a majority holds; and when terms never
  decrease along the log it moves to the highest such entry, so the early exit of the
  backwards scan loses nothing.
\<close>

theorem commit_rule:
  assumes "wf_node rn"
  shows "\<exists>c. advanceCommitIndexLocked rn = Inr (rn\<lparr>commitIndex := c\<rparr>) \<and> commitIndex rn \<le> c \<and>
     (c \<noteq> commitIndex rn \<longrightarrow> state rn = Leader \<and> committable rn c) \<and>
     (state rn = Leader \<and> terms_ok rn \<longrightarrow> (\<forall>k. committable rn k \<longrightarrow> k \<le> c))"
  using advanceCommitIndexLocked_spec [OF assms] by metis

theorem commit_rule_witness:
  "\<exists>c. advanceCommitIndexLocked demoLeader = Inr (demoLeader\<lparr>commitIndex := c\<rparr>) \<and> c = 2"
proof -
  have ok: "terms_ok demoLeader"
    by (auto simp: terms_ok_def sorted_terms_def demoLog_def nth_Cons split: nat.splits)
  have "committable demoLeader 2"
    using demo_log by (simp add: committable_def replicaCount_def quorum_def log_term_def log_entry_def)
      (simp add: demoLog_def)
  moreover have "k \<le> 2" if "committable demoLeader k" for k
    using that demo_log by (simp add: committable_def)
  ultimately show ?thesis
    using commit_rule [OF demo_wf(2)] ok by (metis demo_fields(6,9) le_antisym zero_neq_numeral le_zero_eq)
qed

text \<open>
  C10: Propose on a leader appends exactly one entry, with the next index and the leader's term,
  returns that index and term, kicks the replication loop and never lowers the commit index; on
  any other node it fails with \<open>ErrNotLeader\<close> and changes nothing.
\<close>

theorem propose_correct:
  assumes "wf_node rn" and "log_last (log rn) + 2 < u64_size"
  shows "ensures stops_safely (\<lambda>(res, rn'). propose_post command rn res rn' \<and> wf_node rn')
           (Propose command rn)"
  by (rule Propose_spec [OF assms])

theorem propose_correct_witness:
  "\<exists>rn'. Propose ''x'' demoLeader = Inr (Inr (3, 2), rn') \<and> wf_node rn' \<and> length (log rn') = 4"
proof -
  have room: "log_last (log demoLeader) + 2 < u64_size" using demo_log by (simp add: u64_size_def)
  have ok: "isOk (Propose ''x'' demoLeader)"
  proof -
    have "isOk (appendLogLocked es demoLeader)" for es
      by (simp add: appendLogLocked_def logWrite_def demo_defs)
    then obtain r where r: "appendLogLocked [\<lparr>Term = 2, Index = 3, Command = ''x''\<rparr>] demoLeader = Inr r"
      by (auto simp: isOk_iff)
    have "lastLogIndex demoLeader = Inr 2" using lastLogIndex_wf [of demoLeader] demo_log by simp
    moreover have "r = demoLeader\<lparr>log := demoLog @ [\<lparr>Term = 2, Index = 3, Command = ''x''\<rparr>]\<rparr>"
      using r by (simp add: appendLogLocked_def logWrite_def demo_defs)
    moreover from this have "isOk (advanceCommitIndexLocked r)"
      by (simp add: advanceCommitIndexLocked_def demo_defs demo_run_defs numeral_3_eq_3 replicaCount_def
          quorum_def map_get_def)
    ultimately show ?thesis using r by (auto simp: Propose_def u64_add_def u64_size_def isOk_iff)
  qed
  then obtain res rn' where r: "Propose ''x'' demoLeader = Inr (res, rn')"
      "propose_post ''x'' demoLeader res rn'" "wf_node rn'"
    using propose_correct [OF demo_wf(2) room, of "''x''"] by (auto simp: isOk_iff)
  then show ?thesis using demo_log by (auto simp: propose_post_def demoLog_def)
qed

section \<open>Replication\<close>

text \<open>
  C11: A replication round of a leader never indexes its log out of range. It yields one message
  per peer, in order: a snapshot exactly for the peers whose next entry is compacted away, and
  otherwise a well-formed request that carries the whole rest of the leader's log from the
  peer's next index, with the true index and term of the entry before it.
\<close>

theorem replication_round_correct:
  assumes "wf_node rn" and "state rn = Leader"
  shows "\<exists>ms. replicationRound (currentTerm rn) rn = Inr (Some ms) \<and>
     list_all2 (outbound_ok (currentTerm rn) rn) (peers rn) ms \<and>
     (\<forall>p args. SendEntries p args \<in> set ms \<longrightarrow> wf_aea args)"
proof -
  obtain ms where ms: "buildAll (currentTerm rn) rn (peers rn) = Inr ms"
      "list_all2 (outbound_ok (currentTerm rn) rn) (peers rn) ms"
    using buildAll_spec [OF assms order_refl] by blast
  have "wf_aea args" if m: "SendEntries p args \<in> set ms" for p args
  proof -
    obtain i where i: "i < length ms" "ms ! i = SendEntries p args"
      using m by (auto simp: in_set_conv_nth)
    then have "outbound_ok (currentTerm rn) rn (peers rn ! i) (SendEntries p args)"
      using list_all2_nthD2 [OF ms(2) i(1)] by simp
    then show ?thesis
      using describes_wf_aea [OF wf_node_ids(2) [OF assms(1)]] wf_node_ids(3) [OF assms(1)]
      by (simp add: outbound_ok_def)
  qed
  then show ?thesis
    using ms assms(2) by (simp add: replicationRound_def)
qed

theorem replication_round_correct_witness:
  "\<exists>ms. replicationRound 2 demoLeader = Inr (Some ms) \<and> length ms = 2"
  using replication_round_correct [OF demo_wf(2)] by (auto dest: list_all2_lengthD)

text \<open>
  C12: How a leader digests the answer to a request it sent. A newer term makes it a follower; an
  answer for another leadership or on a stopped node changes nothing; success raises the peer's
  match index to the last entry of the request, never lowers it, and where it rises sets the
  peer's next index to the one after it and moves the commit index to the greatest index of the
  leader's own term that a majority now holds; a success that confirms nothing new changes
  nothing; a rejection lowers the peer's next index to the computed retry point, never raises it,
  and kicks the replication loop. No other peer's progress changes and the log is not touched.
\<close>

theorem append_reply_correct:
  assumes "wf_node rn" and "answered args rn" and "aer_Term reply < u64_size"
  shows "ensures stops_safely (\<lambda>rn'. reply_post peer term args reply rn rn' \<and> wf_node rn')
           (handleAppendEntriesReply clk peer term args reply rn)"
  by (rule handleAppendEntriesReply_spec [OF assms])

definition demoRequest :: AppendEntriesArgs where
  "demoRequest = \<lparr>aea_Term = 2, aea_LeaderID = ''n1'', aea_PrevLogIndex = 2, aea_PrevLogTerm = 2,
     aea_Entries = [], aea_LeaderCommit = 0\<rparr>"

definition demoReject :: AppendEntriesReply where
  "demoReject = \<lparr>aer_Term = 2, aer_Success = False, aer_ConflictIndex = 1, aer_ConflictTerm = 1\<rparr>"

definition demoConfirm :: AppendEntriesReply where
  "demoConfirm = \<lparr>aer_Term = 2, aer_Success = True, aer_ConflictIndex = 0, aer_ConflictTerm = 0\<rparr>"

lemma demoConfirm_ok: "isOk (handleAppendEntriesReply demoClock ''n3'' 2 demoRequest demoConfirm demoLeader)"
  by (simp add: handleAppendEntriesReply_def demoConfirm_def demoRequest_def demo_defs demo_run_defs
      advanceCommitIndexLocked_def replicaCount_def quorum_def map_get_def Let_def numeral_2_eq_2)

theorem append_reply_correct_witness:
  "(\<exists>rn'. handleAppendEntriesReply demoClock ''n3'' 2 demoRequest demoConfirm demoLeader = Inr rn' \<and>
     map_get (matchIndex rn') ''n3'' = 2 \<and> map_get (nextIndex rn') ''n3'' = 3 \<and>
     commit_chosen (demoLeader\<lparr>matchIndex := matchIndex rn'\<rparr>) (commitIndex rn')) \<and>
   (\<exists>rn'. handleAppendEntriesReply demoClock ''n3'' 2 demoRequest demoReject demoLeader = Inr rn' \<and>
     wf_node rn' \<and> map_get (nextIndex rn') ''n3'' = 2)"
proof
  have "answered demoRequest demoLeader" "aer_Term demoConfirm < u64_size"
    using demo_log by (simp_all add: answered_def demoRequest_def demoConfirm_def u64_size_def)
  moreover have "map_get (matchIndex demoLeader) ''n3'' = 0"
    by (simp add: demo_defs map_get_def)
  ultimately show "\<exists>rn'. handleAppendEntriesReply demoClock ''n3'' 2 demoRequest demoConfirm demoLeader = Inr rn' \<and>
     map_get (matchIndex rn') ''n3'' = 2 \<and> map_get (nextIndex rn') ''n3'' = 3 \<and>
     commit_chosen (demoLeader\<lparr>matchIndex := matchIndex rn'\<rparr>) (commitIndex rn')"
    using append_reply_correct [OF demo_wf(2), of demoRequest demoConfirm "''n3''" 2 demoClock] demoConfirm_ok
    by (auto simp: isOk_iff reply_post_def demoConfirm_def demoRequest_def)
next
  have "answered demoRequest demoLeader" "aer_Term demoReject < u64_size"
    using demo_log by (simp_all add: answered_def demoRequest_def demoReject_def u64_size_def)
  moreover have "isOk (handleAppendEntriesReply demoClock ''n3'' 2 demoRequest demoReject demoLeader)"
    by (simp add: handleAppendEntriesReply_def demoReject_def Let_def)
  moreover have "nextIndexAfterRejection demoLog 2 demoReject = 2"
  proof -
    have "u64_add (Suc 0) (Suc 0) = Suc (Suc 0)" by (simp add: u64_add_Suc0 u64_size_def)
    then show ?thesis
      by (simp add: nextIndexAfterRejection_def demoReject_def demoLog_def numeral_2_eq_2)
  qed
  ultimately show "\<exists>rn'. handleAppendEntriesReply demoClock ''n3'' 2 demoRequest demoReject demoLeader = Inr rn' \<and>
     wf_node rn' \<and> map_get (nextIndex rn') ''n3'' = 2"
    using append_reply_correct [OF demo_wf(2), of demoRequest demoReject "''n3''" 2 demoClock]
    by (auto simp: isOk_iff reply_post_def demoReject_def demoRequest_def)
qed

text \<open>
  C13: The fast back-off after a rejection is sound and makes progress. When the follower's hint
  comes from its consistency check of a request that describes the leader's log, the retry
  point is at least 1 and at most the index that was rejected, so every rejection lowers the
  next index; and every position it skips is one where the two logs hold entries of different
  terms, so it never passes over a point where stepping back one entry at a time would have
  matched.
\<close>

theorem backoff_exact:
  assumes "wf_log (log rn)" and "wf_log l" and "sorted_terms (log rn)" and "sorted_terms l"
    and "run_agrees (log rn) l" and "\<And>j. log_base l < j \<Longrightarrow> j \<le> log_last l \<Longrightarrow> 0 < log_term l j"
    and "log_base l \<le> aea_PrevLogIndex args" and "aea_PrevLogIndex args \<le> log_last l"
    and "aea_PrevLogTerm args = log_term l (aea_PrevLogIndex args)" and "0 < aea_PrevLogIndex args"
    and "consistencyCheck args rn = Inr (Some (aer_ConflictIndex reply, aer_ConflictTerm reply))"
  shows "1 \<le> nextIndexAfterRejection l (aea_PrevLogIndex args) reply \<and>
     nextIndexAfterRejection l (aea_PrevLogIndex args) reply \<le> aea_PrevLogIndex args \<and>
     (\<forall>i. nextIndexAfterRejection l (aea_PrevLogIndex args) reply \<le> i \<and> i \<le> aea_PrevLogIndex args \<and>
        log_base l < i \<and> i \<le> log_last (log rn) \<longrightarrow> log_term (log rn) i \<noteq> log_term l i)"
  using nextIndexAfterRejection_spec [OF assms] by blast

definition demoStale :: "HardState RaftNode" where
  "demoStale = demoNode\<lparr>log := [\<lparr>Term = 0, Index = 0, Command = []\<rparr>, \<lparr>Term = 1, Index = 1, Command = ''a''\<rparr>,
     \<lparr>Term = 1, Index = 2, Command = ''z''\<rparr>]\<rparr>"

lemma demo_sorted: "sorted_terms demoLog" "sorted_terms (log demoStale)"
  by (auto simp: sorted_terms_def demoLog_def demoStale_def nth_Cons split: nat.splits)

lemma demo_stale_log: "wf_log (log demoStale)" "log_base (log demoStale) = 0" "log_last (log demoStale) = 2"
  by (auto simp: wf_log_def log_base_def log_last_def demoStale_def u64_size_def nth_Cons split: nat.splits)

lemma demo_terms:
  "log_term demoLog 0 = 0" "log_term demoLog 1 = 1" "log_term demoLog 2 = 2"
  "log_term (log demoStale) 0 = 0" "log_term (log demoStale) 1 = 1" "log_term (log demoStale) 2 = 1"
  by (simp_all add: log_term_def log_entry_def log_base_def demoLog_def demoStale_def)

lemma le_2_cases: "i \<le> (2::nat) \<Longrightarrow> i = 0 \<or> i = 1 \<or> i = 2"
  by linarith

theorem backoff_exact_witness:
  "consistencyCheck demoRequest demoStale = Inr (Some (1, 1)) \<and>
   nextIndexAfterRejection demoLog 2 demoReject \<le> 2"
proof -
  have check: "consistencyCheck demoRequest demoStale = Inr (Some (1, 1))"
  proof -
    have "termAt demoStale 2 = Inr 1" "termAt demoStale 1 = Inr 1" "baseIndex demoStale = Inr 0"
      "lastLogIndex demoStale = Inr 2" "u64_add 0 1 = 1"
      by (simp_all add: demoStale_def demo_run_defs)
    then show ?thesis
      by (simp add: consistencyCheck_def demoRequest_def conflictScan.simps [of demoStale 0 "Suc 0" 2]
          conflictScan.simps [of demoStale 0 "Suc 0" "Suc 0"])
  qed
  have agree: "run_agrees (log demoStale) demoLog"
  proof -
    have "log_term demoLog i = log_term (log demoStale) i"
      if "i \<le> j" "j \<le> 2" "log_term (log demoStale) i = log_term demoLog j" for i j
    proof -
      have i: "i = 0 \<or> i = 1 \<or> i = 2" using that(1,2) by linarith
      show ?thesis
        using i le_2_cases [OF that(2)] that(1,3) demo_terms by (elim disjE; simp)
    qed
    then show ?thesis
      using demo_log(3) unfolding run_agrees_def by metis
  qed
  have pos: "0 < log_term demoLog j" if "0 < j" "j \<le> 2" for j
    using that demo_terms by (auto dest: le_2_cases)
  have "1 \<le> nextIndexAfterRejection demoLog (aea_PrevLogIndex demoRequest) demoReject \<and>
     nextIndexAfterRejection demoLog (aea_PrevLogIndex demoRequest) demoReject \<le> aea_PrevLogIndex demoRequest \<and>
     (\<forall>i. nextIndexAfterRejection demoLog (aea_PrevLogIndex demoRequest) demoReject \<le> i \<and>
        i \<le> aea_PrevLogIndex demoRequest \<and> log_base demoLog < i \<and> i \<le> log_last (log demoStale) \<longrightarrow>
        log_term (log demoStale) i \<noteq> log_term demoLog i)"
    by (rule backoff_exact)
      (use check agree pos demo_log demo_stale_log demo_sorted demo_terms
        in \<open>simp_all add: demoReject_def demoRequest_def\<close>)
  then show ?thesis using check by (simp add: demoRequest_def)
qed

section \<open>Elections\<close>

text \<open>
  C14: Starting an election moves a node to the next term with a vote for itself and saves both
  through the hard-state store: when it returns, the disk is what a successful save of exactly
  that term and vote left, and when the save fails the node stops with that error before any
  request is made; it stops for no other reason. The vote count of the term becomes one, and the
  node is leader at once in a one-node cluster, or a candidate with one outstanding request per
  peer, all with its true last log position. The log is not touched.
\<close>

theorem start_election_correct:
  assumes "wf_node rn" and "currentTerm rn + 1 < u64_size"
  shows "ensures (candidacy_unsaved rn) (\<lambda>rn'. election_post rn rn' \<and> wf_node rn')
           (startElectionLocked clk rn)"
  by (rule startElectionLocked_spec [OF assms])

theorem start_election_correct_witness:
  "\<exists>rn'. startElectionLocked demoClock demoNode = Inr rn' \<and> currentTerm rn' = 3 \<and>
     votedFor rn' = node_id demoNode \<and> state rn' = Candidate \<and> wf_node rn' \<and>
     candidacy_saved demoNode (disk rn')"
proof -
  have "isOk (startElectionLocked demoClock demoNode)"
    by (simp add: startElectionLocked_def demo_defs demo_run_defs quorum_def)
  moreover have "peers demoNode \<noteq> []" by (simp add: demo_defs)
  ultimately show ?thesis
    using start_election_correct [OF demo_wf(1), of demoClock]
    by (auto simp: isOk_iff election_post_def u64_size_def)
qed

text \<open>
  C15: Counting a vote. A reply counts only on a running candidate still in the election's term;
  then it raises the count by one and makes the node leader exactly when the count reaches the
  quorum. A newer term makes the node a follower of that term without a vote, and every other
  reply changes nothing.
\<close>

theorem vote_reply_correct:
  assumes "wf_node rn" and "rvr_Term reply < u64_size"
  shows "ensures stops_safely
    (\<lambda>rn'. wf_node rn' \<and> same_ident rn rn' \<and> same_log rn rn' \<and> voteCalls rn' = voteCalls rn \<and>
       (if \<not> stopped rn \<and> rvr_Term reply > currentTerm rn
        then steppedDown (rvr_Term reply) rn rn'
        else currentTerm rn' = currentTerm rn \<and> votedFor rn' = votedFor rn \<and>
          (if \<not> stopped rn \<and> state rn = Candidate \<and> currentTerm rn = term \<and> rvr_VoteGranted reply
           then votes rn' = (votes rn)(term := Suc (votes rn term)) \<and>
             state rn' = (if Suc (votes rn term) = quorum rn then Leader else Candidate)
           else rn' = rn)))
    (handleVoteReply clk term reply rn)"
  by (rule handleVoteReply_cases [OF assms])

definition demoCandidate :: "HardState RaftNode" where
  "demoCandidate = demoNode\<lparr>state := Candidate, votedFor := ''n1'', votes := (\<lambda>_. 1)\<rparr>"

theorem vote_reply_correct_witness:
  "\<exists>rn'. handleVoteReply demoClock 2 \<lparr>rvr_Term = 2, rvr_VoteGranted = True\<rparr> demoCandidate = Inr rn' \<and>
     state rn' = Leader"
proof -
  have wf: "wf_node demoCandidate"
    using demo_wf(1) by (simp add: demoCandidate_def wf_node_def progress_ok_def)
  have c: "state demoCandidate = Candidate" "stopped demoCandidate = False" "currentTerm demoCandidate = 2"
    "votes demoCandidate 2 = 1" "quorum demoCandidate = 2"
    by (simp_all add: demoCandidate_def quorum_def) (simp add: demo_defs)
  have "isOk (handleVoteReply demoClock 2 \<lparr>rvr_Term = 2, rvr_VoteGranted = True\<rparr> demoCandidate)"
    by (simp add: handleVoteReply_def becomeLeaderLocked_def demoCandidate_def demo_defs demo_run_defs quorum_def)
  then show ?thesis
    using vote_reply_correct [OF wf, of "\<lparr>rvr_Term = 2, rvr_VoteGranted = True\<rparr>" 2 demoClock] c
    by (auto simp: isOk_iff u64_size_def)
qed

end
