(* ===== verification/Go_Json.thy ===== *)
theory Go_Json
  imports Prelude "HOL-Library.Char_ord" "HOL-Library.List_Lexorder"
begin

text \<open>
  The part of Go's \<^verbatim>\<open>encoding/json\<close> and \<^verbatim>\<open>encoding/base64\<close> that the program calls: marshalling of
  strings, unsigned integers, byte slices, structs and string maps, and unmarshalling into
  them. A byte is a \<open>char\<close>. Every durable record, every replicated command and every snapshot
  passes through these functions, so their round trips are what recovery rests on.
\<close>

section \<open>Bytes and UTF-8\<close>

abbreviation code :: "char \<Rightarrow> nat" where
  "code c \<equiv> of_char c"

definition is_cont :: "char \<Rightarrow> bool" where
  "is_cont c \<longleftrightarrow> 0x80 \<le> code c \<and> code c \<le> 0xBF"

text \<open>
  \<open>utf8.DecodeRune\<close>, as far as the encoder looks at it: the width of the rune at the front, 0
  when the bytes there are no rune (Go answers \<open>RuneError\<close> of width 1).
\<close>

definition second_ok :: "nat \<Rightarrow> char \<Rightarrow> bool" where
  "second_ok b c \<longleftrightarrow> is_cont c \<and> (b = 0xE0 \<longrightarrow> 0xA0 \<le> code c) \<and> (b = 0xED \<longrightarrow> code c \<le> 0x9F) \<and>
     (b = 0xF0 \<longrightarrow> 0x90 \<le> code c) \<and> (b = 0xF4 \<longrightarrow> code c \<le> 0x8F)"

fun runeLen :: "string \<Rightarrow> nat" where
  "runeLen [] = 0"
| "runeLen (c # cs) =
     (let b = code c in
      if b < 0x80 then 1
      else if 0xC2 \<le> b \<and> b \<le> 0xDF then
        (case cs of c1 # _ \<Rightarrow> if second_ok b c1 then 2 else 0 | _ \<Rightarrow> 0)
      else if 0xE0 \<le> b \<and> b \<le> 0xEF then
        (case cs of c1 # c2 # _ \<Rightarrow> if second_ok b c1 \<and> is_cont c2 then 3 else 0 | _ \<Rightarrow> 0)
      else if 0xF0 \<le> b \<and> b \<le> 0xF4 then
        (case cs of c1 # c2 # c3 # _ \<Rightarrow> if second_ok b c1 \<and> is_cont c2 \<and> is_cont c3 then 4 else 0 | _ \<Rightarrow> 0)
      else 0)"

text \<open>\<open>utf8.EncodeRune\<close>; surrogates and numbers beyond the last rune give U+FFFD.\<close>

definition replacement :: string where
  "replacement = [CHR 0xEF, CHR 0xBF, CHR 0xBD]"

definition encodeRune :: "nat \<Rightarrow> string" where
  "encodeRune r =
     (if r < 0x80 then [char_of r]
      else if r < 0x800 then [char_of (0xC0 + r div 64), char_of (0x80 + r mod 64)]
      else if 0xD800 \<le> r \<and> r < 0xE000 \<or> 0x10FFFF < r then replacement
      else if r < 0x10000 then
        [char_of (0xE0 + r div 4096), char_of (0x80 + r div 64 mod 64), char_of (0x80 + r mod 64)]
      else [char_of (0xF0 + r div 262144), char_of (0x80 + r div 4096 mod 64),
            char_of (0x80 + r div 64 mod 64), char_of (0x80 + r mod 64)])"

function valid_utf8 :: "string \<Rightarrow> bool" where
  "valid_utf8 s =
     (if s = [] then True else if runeLen s = 0 then False else valid_utf8 (drop (runeLen s) s))"
  by pat_completeness auto
termination
  by (relation "measure length") auto

declare valid_utf8.simps [simp del]

section \<open>Decimal and hexadecimal numbers\<close>

definition digit :: "nat \<Rightarrow> char" where
  "digit d = char_of (48 + d)"

definition is_digit :: "char \<Rightarrow> bool" where
  "is_digit c \<longleftrightarrow> 48 \<le> code c \<and> code c \<le> 57"

fun show_nat :: "nat \<Rightarrow> string" where
  "show_nat n = (if n < 10 then [digit n] else show_nat (n div 10) @ [digit (n mod 10)])"

declare show_nat.simps [simp del]

definition read_nat :: "string \<Rightarrow> nat" where
  "read_nat = foldl (\<lambda>n c. 10 * n + (code c - 48)) 0"

definition hex_digit :: "nat \<Rightarrow> char" where
  "hex_digit d = (if d < 10 then char_of (48 + d) else char_of (87 + d))"

definition hex_value :: "char \<Rightarrow> nat option" where
  "hex_value c =
     (let b = code c in
      if 48 \<le> b \<and> b \<le> 57 then Some (b - 48)
      else if 97 \<le> b \<and> b \<le> 102 then Some (b - 87)
      else if 65 \<le> b \<and> b \<le> 70 then Some (b - 55)
      else None)"

fun hex4 :: "string \<Rightarrow> (nat \<times> string) option" where
  "hex4 (a # b # c # d # cs) =
     (case (hex_value a, hex_value b, hex_value c, hex_value d) of
        (Some w, Some x, Some y, Some z) \<Rightarrow> Some (4096 * w + 256 * x + 16 * y + z, cs)
      | _ \<Rightarrow> None)"
| "hex4 _ = None"

section \<open>Strings\<close>

text \<open>\<open>appendString\<close> with HTML escaping on, as \<open>json.Marshal\<close> calls it.\<close>

definition escape :: "char \<Rightarrow> string" where
  "escape c =
     (let b = code c in
      if b = 0x22 \<or> b = 0x5C then [CHR 0x5C, c]
      else if b = 8 then [CHR 0x5C, CHR ''b'']
      else if b = 12 then [CHR 0x5C, CHR ''f'']
      else if b = 10 then [CHR 0x5C, CHR ''n'']
      else if b = 13 then [CHR 0x5C, CHR ''r'']
      else if b = 9 then [CHR 0x5C, CHR ''t'']
      else if b < 32 \<or> b = 0x3C \<or> b = 0x3E \<or> b = 0x26
      then [CHR 0x5C, CHR ''u'', CHR ''0'', CHR ''0'', hex_digit (b div 16), hex_digit (b mod 16)]
      else [c])"

definition line_separator :: "string \<Rightarrow> bool" where
  "line_separator s \<longleftrightarrow> map code (take 3 s) \<in> {[0xE2, 0x80, 0xA8], [0xE2, 0x80, 0xA9]}"

function quote_body :: "string \<Rightarrow> string" where
  "quote_body [] = []"
| "quote_body (c # cs) =
     (if code c < 0x80 then escape c @ quote_body cs
      else let n = runeLen (c # cs) in
        if n = 0 then [CHR 0x5C, CHR ''u'', CHR ''f'', CHR ''f'', CHR ''f'', CHR ''d''] @ quote_body cs
        else if line_separator (c # cs)
        then [CHR 0x5C, CHR ''u'', CHR ''2'', CHR ''0'', CHR ''2'', hex_digit (code (cs ! 1) mod 16)]
               @ quote_body (drop n (c # cs))
        else take n (c # cs) @ quote_body (drop n (c # cs)))"
  by pat_completeness auto
termination
  by (relation "measure length") auto

declare quote_body.simps(2) [simp del]

definition quote :: "string \<Rightarrow> string" where
  "quote s = CHR 0x22 # quote_body s @ [CHR 0x22]"

definition simple_escape :: "char \<Rightarrow> char option" where
  "simple_escape c =
     map_of [(CHR 0x22, CHR 0x22), (CHR 0x5C, CHR 0x5C), (CHR ''/'', CHR ''/''),
             (CHR ''b'', CHR 0x08), (CHR ''f'', CHR 0x0C), (CHR ''n'', CHR 0x0A),
             (CHR ''r'', CHR 0x0D), (CHR ''t'', CHR 0x09)] c"

text \<open>
  A \<open>\u\<close> escape after its four digits: a surrogate is combined with a following low surrogate
  escape, or replaced.
\<close>

definition unicode_escape :: "nat \<Rightarrow> string \<Rightarrow> string \<times> string" where
  "unicode_escape r cs =
     (if 0xD800 \<le> r \<and> r < 0xE000 then
        (case (take 2 cs = [CHR 0x5C, CHR ''u''], hex4 (drop 2 cs)) of
           (True, Some (r1, cs')) \<Rightarrow>
             if r < 0xDC00 \<and> 0xDC00 \<le> r1 \<and> r1 < 0xE000
             then (encodeRune ((r - 0xD800) * 1024 + (r1 - 0xDC00) + 0x10000), cs')
             else (replacement, cs)
         | _ \<Rightarrow> (replacement, cs))
      else (encodeRune r, cs))"

lemma hex4_shorter: "hex4 cs = Some (r, cs') \<Longrightarrow> length cs' < length cs"
  by (cases cs rule: hex4.cases) (auto split: option.splits)

lemma unicode_escape_shorter: "length (snd (unicode_escape r cs)) \<le> length cs"
  by (auto simp: unicode_escape_def split: option.splits bool.splits prod.splits dest!: hex4_shorter)

text \<open>The string literal after its opening quote: the unquoted bytes and what follows it.\<close>

function unquote :: "string \<Rightarrow> (string \<times> string) option" where
  "unquote [] = None"
| "unquote (c # cs) =
     (if code c = 0x22 then Some ([], cs)
      else if code c = 0x5C then
        (case cs of
           [] \<Rightarrow> None
         | e # cs' \<Rightarrow>
             if e = CHR ''u'' then
               (case hex4 cs' of
                  None \<Rightarrow> None
                | Some (r, cs1) \<Rightarrow>
                    map_option (\<lambda>(s, rest). (fst (unicode_escape r cs1) @ s, rest))
                      (unquote (snd (unicode_escape r cs1))))
             else
               (case simple_escape e of
                  None \<Rightarrow> None
                | Some x \<Rightarrow> map_option (\<lambda>(s, rest). (x # s, rest)) (unquote cs')))
      else if code c < 32 then None
      else if code c < 0x80 then map_option (\<lambda>(s, rest). (c # s, rest)) (unquote cs)
      else let n = runeLen (c # cs) in
        if n = 0 then map_option (\<lambda>(s, rest). (replacement @ s, rest)) (unquote cs)
        else map_option (\<lambda>(s, rest). (take n (c # cs) @ s, rest)) (unquote (drop n (c # cs))))"
  by pat_completeness auto
termination
  by (relation "measure length")
    (auto dest!: hex4_shorter intro: le_less_trans [OF unicode_escape_shorter])

declare unquote.simps(2) [simp del]

section \<open>Values\<close>

datatype json =
    JNull
  | JBool bool
  | JNum string
  | JStr string
  | JArr "json list"
  | JObj "(string \<times> json) list"

fun render :: "json \<Rightarrow> string"
  and render_elems :: "json list \<Rightarrow> string"
  and render_members :: "(string \<times> json) list \<Rightarrow> string" where
  "render JNull = ''null''"
| "render (JBool b) = (if b then ''true'' else ''false'')"
| "render (JNum s) = s"
| "render (JStr s) = quote s"
| "render (JArr js) = CHR ''['' # render_elems js @ '']''"
| "render (JObj ms) = CHR ''{'' # render_members ms @ ''}''"
| "render_elems [] = []"
| "render_elems [j] = render j"
| "render_elems (j # js) = render j @ CHR '','' # render_elems js"
| "render_members [] = []"
| "render_members [(k, j)] = quote k @ CHR '':'' # render j"
| "render_members ((k, j) # ms) = quote k @ CHR '':'' # render j @ CHR '','' # render_members ms"

definition is_ws :: "char \<Rightarrow> bool" where
  "is_ws c \<longleftrightarrow> code c \<in> {32, 9, 10, 13}"

abbreviation skip_ws :: "string \<Rightarrow> string" where
  "skip_ws \<equiv> dropWhile is_ws"

definition parse_int :: "string \<Rightarrow> (string \<times> string) option" where
  "parse_int s =
     (case s of
        [] \<Rightarrow> None
      | c # cs \<Rightarrow>
          if c = CHR ''0'' then Some ([c], cs)
          else if is_digit c then Some (takeWhile is_digit s, dropWhile is_digit s)
          else None)"

definition parse_digits :: "string \<Rightarrow> (string \<times> string) option" where
  "parse_digits s =
     (if takeWhile is_digit s = [] then None else Some (takeWhile is_digit s, dropWhile is_digit s))"

definition parse_frac :: "string \<Rightarrow> (string \<times> string) option" where
  "parse_frac s =
     (if s \<noteq> [] \<and> hd s = CHR ''.''
      then map_option (\<lambda>(ds, r). (CHR ''.'' # ds, r)) (parse_digits (tl s)) else Some ([], s))"

definition parse_exp :: "string \<Rightarrow> (string \<times> string) option" where
  "parse_exp s =
     (if s \<noteq> [] \<and> hd s \<in> {CHR ''e'', CHR ''E''} then
        let sgn = (if tl s \<noteq> [] \<and> hd (tl s) \<in> {CHR ''+'', CHR ''-''} then [hd (tl s)] else []) in
        map_option (\<lambda>(ds, r). (hd s # sgn @ ds, r)) (parse_digits (drop (length sgn) (tl s)))
      else Some ([], s))"

definition parse_number :: "string \<Rightarrow> (string \<times> string) option" where
  "parse_number s =
     (let sgn = (if s \<noteq> [] \<and> hd s = CHR ''-'' then [CHR ''-''] else []) in
      Option.bind (parse_int (drop (length sgn) s)) (\<lambda>(i, r1).
      Option.bind (parse_frac r1) (\<lambda>(f, r2).
      map_option (\<lambda>(e, r3). (sgn @ i @ f @ e, r3)) (parse_exp r2))))"

text \<open>
  The parser. Its first argument bounds the recursion; the second is the nesting depth, which
  the scanner limits to \<open>maxNestingDepth\<close>.
\<close>

definition maxNestingDepth :: nat where
  "maxNestingDepth = 10000"

definition literal :: "string \<Rightarrow> json \<Rightarrow> string \<Rightarrow> (json \<times> string) option" where
  "literal w j s = (if take (length w) s = w then Some (j, drop (length w) s) else None)"

fun parse_value :: "nat \<Rightarrow> nat \<Rightarrow> string \<Rightarrow> (json \<times> string) option"
  and parse_elems :: "nat \<Rightarrow> nat \<Rightarrow> string \<Rightarrow> (json list \<times> string) option"
  and parse_members :: "nat \<Rightarrow> nat \<Rightarrow> string \<Rightarrow> ((string \<times> json) list \<times> string) option" where
  "parse_value 0 d s = None"
| "parse_value (Suc n) d s =
     (case skip_ws s of
        [] \<Rightarrow> None
      | c # cs \<Rightarrow>
          if c = CHR ''{'' then
            if d \<ge> maxNestingDepth then None
            else if skip_ws cs \<noteq> [] \<and> hd (skip_ws cs) = CHR ''}'' then Some (JObj [], tl (skip_ws cs))
            else map_option (\<lambda>(ms, r). (JObj ms, r)) (parse_members n (Suc d) cs)
          else if c = CHR ''['' then
            if d \<ge> maxNestingDepth then None
            else if skip_ws cs \<noteq> [] \<and> hd (skip_ws cs) = CHR '']'' then Some (JArr [], tl (skip_ws cs))
            else map_option (\<lambda>(js, r). (JArr js, r)) (parse_elems n (Suc d) cs)
          else if c = CHR 0x22 then map_option (\<lambda>(t, r). (JStr t, r)) (unquote cs)
          else if c = CHR ''-'' \<or> is_digit c
          then map_option (\<lambda>(t, r). (JNum t, r)) (parse_number (c # cs))
          else if c = CHR ''n'' then literal ''null'' JNull (c # cs)
          else if c = CHR ''t'' then literal ''true'' (JBool True) (c # cs)
          else if c = CHR ''f'' then literal ''false'' (JBool False) (c # cs)
          else None)"
| "parse_elems 0 d s = None"
| "parse_elems (Suc n) d s =
     Option.bind (parse_value n d s) (\<lambda>(j, r).
     case skip_ws r of
       [] \<Rightarrow> None
     | c # cs \<Rightarrow>
         if c = CHR '']'' then Some ([j], cs)
         else if c = CHR '','' then map_option (\<lambda>(js, r). (j # js, r)) (parse_elems n d cs)
         else None)"
| "parse_members 0 d s = None"
| "parse_members (Suc n) d s =
     (case skip_ws s of
        [] \<Rightarrow> None
      | q # qs \<Rightarrow>
          if q \<noteq> CHR 0x22 then None
          else Option.bind (unquote qs) (\<lambda>(k, r1).
            case skip_ws r1 of
              [] \<Rightarrow> None
            | c # cs \<Rightarrow>
                if c \<noteq> CHR '':'' then None
                else Option.bind (parse_value n d cs) (\<lambda>(j, r2).
                  case skip_ws r2 of
                    [] \<Rightarrow> None
                  | e # es \<Rightarrow>
                      if e = CHR ''}'' then Some ([(k, j)], es)
                      else if e = CHR '',''
                      then map_option (\<lambda>(ms, r). ((k, j) # ms, r)) (parse_members n d es)
                      else None)))"

text \<open>The whole input must be one value, with white space around it.\<close>

definition parse_json :: "string \<Rightarrow> json option" where
  "parse_json s =
     (case parse_value (2 * length s + 2) 0 s of
        Some (j, r) \<Rightarrow> if skip_ws r = [] then Some j else None
      | None \<Rightarrow> None)"

section \<open>Base64\<close>

definition b64_char :: "nat \<Rightarrow> char" where
  "b64_char n =
     (if n < 26 then char_of (65 + n)
      else if n < 52 then char_of (71 + n)
      else if n < 62 then char_of (n - 4)
      else if n = 62 then CHR ''+'' else CHR ''/'')"

definition b64_value :: "char \<Rightarrow> nat option" where
  "b64_value c =
     (let b = code c in
      if 65 \<le> b \<and> b \<le> 90 then Some (b - 65)
      else if 97 \<le> b \<and> b \<le> 122 then Some (b - 71)
      else if 48 \<le> b \<and> b \<le> 57 then Some (b + 4)
      else if c = CHR ''+'' then Some 62
      else if c = CHR ''/'' then Some 63
      else None)"

fun b64_encode :: "string \<Rightarrow> string" where
  "b64_encode [] = []"
| "b64_encode [a] = [b64_char (code a div 4), b64_char (code a mod 4 * 16), CHR ''='', CHR ''='']"
| "b64_encode [a, b] =
     [b64_char (code a div 4), b64_char (code a mod 4 * 16 + code b div 16),
      b64_char (code b mod 16 * 4), CHR ''='']"
| "b64_encode (a # b # c # cs) =
     [b64_char (code a div 4), b64_char (code a mod 4 * 16 + code b div 16),
      b64_char (code b mod 16 * 4 + code c div 64), b64_char (code c mod 64)] @ b64_encode cs"

fun b64_quads :: "string \<Rightarrow> string option" where
  "b64_quads [] = Some []"
| "b64_quads (w # x # y # z # cs) =
     (case (b64_value w, b64_value x) of
        (Some p, Some q) \<Rightarrow>
          if y = CHR ''='' then
            if z = CHR ''='' \<and> cs = [] then Some [char_of (p * 4 + q div 16)] else None
          else (case b64_value y of
            None \<Rightarrow> None
          | Some r \<Rightarrow>
              if z = CHR ''='' then
                if cs = [] then Some [char_of (p * 4 + q div 16), char_of (q mod 16 * 16 + r div 4)] else None
              else (case b64_value z of
                None \<Rightarrow> None
              | Some t \<Rightarrow>
                  map_option (\<lambda>out. [char_of (p * 4 + q div 16), char_of (q mod 16 * 16 + r div 4),
                                     char_of (r mod 4 * 64 + t)] @ out) (b64_quads cs)))
      | _ \<Rightarrow> None)"
| "b64_quads _ = None"

definition b64_decode :: "string \<Rightarrow> string option" where
  "b64_decode s = b64_quads (filter (\<lambda>c. code c \<noteq> 10 \<and> code c \<noteq> 13) s)"

section \<open>Fields\<close>

text \<open>
  A field's value as the encoder writes it, and the decoder's update of a field that already
  has a value: \<open>null\<close> leaves a string or number alone, a value of another type is an error.
\<close>

definition enc_uint :: "nat \<Rightarrow> json" where
  "enc_uint n = JNum (show_nat n)"

definition enc_bytes :: "string \<Rightarrow> json" where
  "enc_bytes b = (if b = [] then JNull else JStr (b64_encode b))"

definition dec_uint :: "nat \<Rightarrow> json \<Rightarrow> nat \<Rightarrow> nat option" where
  "dec_uint bound j old =
     (case j of
        JNull \<Rightarrow> Some old
      | JNum s \<Rightarrow> if list_all is_digit s \<and> read_nat s < bound then Some (read_nat s) else None
      | _ \<Rightarrow> None)"

definition dec_string :: "json \<Rightarrow> string \<Rightarrow> string option" where
  "dec_string j old = (case j of JNull \<Rightarrow> Some old | JStr s \<Rightarrow> Some s | _ \<Rightarrow> None)"

fun dec_octets :: "json list \<Rightarrow> string option" where
  "dec_octets [] = Some []"
| "dec_octets (j # js) =
     Option.bind (dec_uint 256 j 0) (\<lambda>b. map_option (\<lambda>bs. char_of b # bs) (dec_octets js))"

definition dec_bytes :: "json \<Rightarrow> string option" where
  "dec_bytes j =
     (case j of
        JNull \<Rightarrow> Some []
      | JStr s \<Rightarrow> b64_decode s
      | JArr js \<Rightarrow> dec_octets js
      | _ \<Rightarrow> None)"

text \<open>
  Keys match field names up to case. Folding maps the long s and the Kelvin sign to the ASCII
  letters they fold with.
\<close>

fun foldName :: "string \<Rightarrow> string" where
  "foldName [] = []"
| "foldName (c # cs) =
     (if 97 \<le> code c \<and> code c \<le> 122 then char_of (code c - 32) # foldName cs
      else (case cs of
              c1 # cs1 \<Rightarrow>
                if code c = 0xC5 \<and> code c1 = 0xBF then CHR ''S'' # foldName cs1
                else (case cs1 of
                        c2 # cs2 \<Rightarrow>
                          if code c = 0xE2 \<and> code c1 = 0x84 \<and> code c2 = 0xAA
                          then CHR ''K'' # foldName cs2 else c # foldName cs
                      | [] \<Rightarrow> c # foldName cs)
            | [] \<Rightarrow> [c]))"

definition is_field :: "string list \<Rightarrow> string \<Rightarrow> string \<Rightarrow> bool" where
  "is_field names name k \<longleftrightarrow> k = name \<or> k \<notin> set names \<and> foldName k = foldName name"

text \<open>Decoding an object into a struct: the members in order, the later one winning.\<close>

fun dec_members :: "(string \<Rightarrow> json \<Rightarrow> 'a \<Rightarrow> 'a option) \<Rightarrow> (string \<times> json) list \<Rightarrow> 'a \<Rightarrow> 'a option" where
  "dec_members upd [] x = Some x"
| "dec_members upd ((k, j) # ms) x = Option.bind (upd k j x) (dec_members upd ms)"

definition dec_struct :: "(string \<Rightarrow> json \<Rightarrow> 'a \<Rightarrow> 'a option) \<Rightarrow> json \<Rightarrow> 'a \<Rightarrow> 'a option" where
  "dec_struct upd j x =
     (case j of JNull \<Rightarrow> Some x | JObj ms \<Rightarrow> dec_members upd ms x | _ \<Rightarrow> None)"

definition unmarshal :: "(string \<Rightarrow> json \<Rightarrow> 'a \<Rightarrow> 'a option) \<Rightarrow> string \<Rightarrow> 'a \<Rightarrow> 'a option" where
  "unmarshal upd s x = Option.bind (parse_json s) (\<lambda>j. dec_struct upd j x)"

end
