(* ===== verification/Kv.thy ===== *)
theory Kv
  imports Raft_Replication Go_Json "HOL-Library.AList"
begin

text \<open>
  Package \<open>kv\<close>: the command encoding, the key-value store and the client-facing server with
  its waiters. A Go map is an association list with distinct keys, \<open>None\<close> when it is nil. The
  server's operations are the critical sections of \<^verbatim>\<open>kv/server.go\<close>; a request is named by a
  number, and its buffered channel is the list of results sent to it.
\<close>

section \<open>Commands\<close>

record KvCommand =
  Op :: string
  Key :: string
  Value :: string

definition OpPut :: string where "OpPut = ''put''"
definition OpDelete :: string where "OpDelete = ''delete''"

datatype kv_error =
    UnknownOp string
  | CorruptCommand
  | CorruptSnapshot
  | NilMap
  | NotLeader
  | ContextDone

definition marshalCommand :: "KvCommand \<Rightarrow> bytes" where
  "marshalCommand c =
     render (JObj ([(''op'', JStr (Op c)), (''key'', JStr (Key c))] @
       (if Value c = [] then [] else [(''value'', JStr (Value c))])))"

definition Encode :: "KvCommand \<Rightarrow> kv_error + bytes" where
  "Encode c = (if Op c \<noteq> OpPut \<and> Op c \<noteq> OpDelete then Inl (UnknownOp (Op c)) else Inr (marshalCommand c))"

definition updCommand :: "string \<Rightarrow> json \<Rightarrow> KvCommand \<Rightarrow> KvCommand option" where
  "updCommand k j c =
     (let names = [''op'', ''key'', ''value''] in
      if is_field names ''op'' k then map_option (\<lambda>s. c\<lparr>Op := s\<rparr>) (dec_string j (Op c))
      else if is_field names ''key'' k then map_option (\<lambda>s. c\<lparr>Key := s\<rparr>) (dec_string j (Key c))
      else if is_field names ''value'' k then map_option (\<lambda>s. c\<lparr>Value := s\<rparr>) (dec_string j (Value c))
      else Some c)"

definition DecodeCommand :: "bytes \<Rightarrow> kv_error + KvCommand" where
  "DecodeCommand data =
     (case unmarshal updCommand data \<lparr>Op = [], Key = [], Value = []\<rparr> of
        None \<Rightarrow> Inl CorruptCommand
      | Some c \<Rightarrow> if Op c \<noteq> OpPut \<and> Op c \<noteq> OpDelete then Inl (UnknownOp (Op c)) else Inr c)"

section \<open>The store\<close>

type_synonym kvmap = "(string \<times> string) list"

record KvStore =
  kvm :: "kvmap option"

definition NewStore :: KvStore where
  "NewStore = \<lparr>kvm = Some []\<rparr>"

text \<open>Assigning to a key of a nil map panics; deleting from one does nothing.\<close>

definition kv_apply :: "KvCommand \<Rightarrow> KvStore \<Rightarrow> kv_error + KvStore" where
  "kv_apply cmd s =
     (if Op cmd = OpPut then
        (case kvm s of
           None \<Rightarrow> Inl NilMap
         | Some m \<Rightarrow> Inr (s\<lparr>kvm := Some (AList.update (Key cmd) (Value cmd) m)\<rparr>))
      else if Op cmd = OpDelete then Inr (s\<lparr>kvm := map_option (AList.delete (Key cmd)) (kvm s)\<rparr>)
      else Inl (UnknownOp (Op cmd)))"

definition store_Get :: "string \<Rightarrow> KvStore \<Rightarrow> string \<times> bool" where
  "store_Get k s =
     (case kvm s of
        None \<Rightarrow> ([], False)
      | Some m \<Rightarrow> (case map_of m k of None \<Rightarrow> ([], False) | Some v \<Rightarrow> (v, True)))"

definition Len :: "KvStore \<Rightarrow> nat" where
  "Len s = (case kvm s of None \<Rightarrow> 0 | Some m \<Rightarrow> length m)"

definition store_Snapshot :: "KvStore \<Rightarrow> kvmap" where
  "store_Snapshot s = (case kvm s of None \<Rightarrow> [] | Some m \<Rightarrow> m)"

text \<open>\<open>json.Marshal\<close> writes a map's keys in order.\<close>

definition SnapshotBytes :: "KvStore \<Rightarrow> bytes" where
  "SnapshotBytes s =
     render (case kvm s of
               None \<Rightarrow> JNull
             | Some m \<Rightarrow> JObj (map (\<lambda>(k, v). (k, JStr v)) (sort_key fst m)))"

fun dec_map :: "(string \<times> json) list \<Rightarrow> kvmap \<Rightarrow> kvmap option" where
  "dec_map [] m = Some m"
| "dec_map ((k, j) # ms) m =
     Option.bind (dec_string j []) (\<lambda>v. dec_map ms (AList.update k v m))"

definition unmarshalMap :: "bytes \<Rightarrow> kvmap option option" where
  "unmarshalMap data =
     (case parse_json data of
        Some JNull \<Rightarrow> Some None
      | Some (JObj ms) \<Rightarrow> map_option Some (dec_map ms [])
      | _ \<Rightarrow> None)"

definition RestoreBytes :: "bytes \<Rightarrow> KvStore \<Rightarrow> kv_error + KvStore" where
  "RestoreBytes data s =
     (case unmarshalMap data of None \<Rightarrow> Inl CorruptSnapshot | Some m \<Rightarrow> Inr (s\<lparr>kvm := m\<rparr>))"

section \<open>The server\<close>

record waiter =
  w_term :: nat
  w_ch :: nat

text \<open>
  \<open>chans\<close> holds what was sent on the channel of each request, \<open>dead\<close> that a panic in \<open>Apply\<close>
  ended the process.
\<close>

record KvServer =
  kv_store :: KvStore
  clientAddrs :: "node_id \<rightharpoonup> string"
  waiters :: "nat \<rightharpoonup> waiter"
  chans :: "nat \<Rightarrow> kv_error option list"
  dead :: bool

definition NewServer :: "KvStore \<Rightarrow> (node_id \<rightharpoonup> string) \<Rightarrow> KvServer" where
  "NewServer st addrs = \<lparr>kv_store = st, clientAddrs = addrs, waiters = Map.empty,
                         chans = (\<lambda>_. []), dead = False\<rparr>"

definition send :: "nat \<Rightarrow> kv_error option \<Rightarrow> KvServer \<Rightarrow> KvServer" where
  "send c r s = s\<lparr>chans := (chans s)(c := chans s c @ [r])\<rparr>"

definition fireWaiter :: "LogEntry \<Rightarrow> KvServer \<Rightarrow> KvServer" where
  "fireWaiter entry s =
     (case waiters s (Index entry) of
        None \<Rightarrow> s
      | Some w \<Rightarrow>
          send (w_ch w) (if w_term w = Term entry then None else Some NotLeader)
            (s\<lparr>waiters := (waiters s)(Index entry := None)\<rparr>))"

definition Apply :: "LogEntry \<Rightarrow> KvServer \<Rightarrow> KvServer" where
  "Apply entry s =
     (if dead s then s
      else case DecodeCommand (Command entry) of
        Inl _ \<Rightarrow> fireWaiter entry s
      | Inr cmd \<Rightarrow>
          (case kv_apply cmd (kv_store s) of
             Inl NilMap \<Rightarrow> s\<lparr>dead := True\<rparr>
           | Inl _ \<Rightarrow> fireWaiter entry s
           | Inr st \<Rightarrow> fireWaiter entry (s\<lparr>kv_store := st\<rparr>)))"

definition server_Snapshot :: "KvServer \<Rightarrow> err + bytes" where
  "server_Snapshot s = Inr (SnapshotBytes (kv_store s))"

definition server_Restore :: "bytes \<Rightarrow> KvServer \<Rightarrow> KvServer \<times> err option" where
  "server_Restore data s =
     (case RestoreBytes data (kv_store s) of
        Inl _ \<Rightarrow> (s, Some ''kv: corrupt snapshot'')
      | Inr st \<Rightarrow> (s\<lparr>kv_store := st\<rparr>, None))"

text \<open>The server as the \<open>StateMachine\<close> of its node.\<close>

definition kvOps :: "KvServer StateMachineOps" where
  "kvOps = \<lparr>sm_Apply = Apply, sm_Snapshot = server_Snapshot, sm_Restore = server_Restore\<rparr>"

section \<open>Requests\<close>

text \<open>
  \<open>propose\<close> in its three critical sections: the call of \<open>Propose\<close>, the registration of the
  waiter, and the end of the wait by a result or by the context.
\<close>

definition propose_begin ::
  "KvCommand \<Rightarrow> 'd RaftNode \<Rightarrow> ('d, (kv_error + nat \<times> nat) \<times> 'd RaftNode) outcome" where
  "propose_begin cmd rn =
     (case Encode cmd of
        Inl e \<Rightarrow> Inr (Inl e, rn)
      | Inr data \<Rightarrow>
          bind_res (Propose data rn) (\<lambda>(res, rn).
          Inr (case res of Inl ErrNotLeader \<Rightarrow> Inl NotLeader | Inr it \<Rightarrow> Inr it, rn)))"

definition registerWaiter :: "nat \<Rightarrow> nat \<Rightarrow> nat \<Rightarrow> KvServer \<Rightarrow> KvServer" where
  "registerWaiter index term c s =
     (let s = (case waiters s index of None \<Rightarrow> s | Some old \<Rightarrow> send (w_ch old) (Some NotLeader) s)
      in s\<lparr>waiters := (waiters s)(index \<mapsto> \<lparr>w_term = term, w_ch = c\<rparr>)\<rparr>)"

definition propose_result :: "nat \<Rightarrow> KvServer \<Rightarrow> kv_error option option" where
  "propose_result c s = (case chans s c of [] \<Rightarrow> None | r # _ \<Rightarrow> Some r)"

definition propose_cancel :: "nat \<Rightarrow> KvServer \<Rightarrow> kv_error option \<times> KvServer" where
  "propose_cancel index s = (Some ContextDone, s\<lparr>waiters := (waiters s)(index := None)\<rparr>)"

record Redirect =
  LeaderId :: node_id
  LeaderAddr :: string

definition redirect :: "Status_rec \<Rightarrow> KvServer \<Rightarrow> Redirect" where
  "redirect st s = \<lparr>LeaderId = st_LeaderID st,
     LeaderAddr = (case clientAddrs s (st_LeaderID st) of None \<Rightarrow> [] | Some a \<Rightarrow> a)\<rparr>"

definition putCommand :: "string \<Rightarrow> string \<Rightarrow> KvCommand" where
  "putCommand k v = \<lparr>Op = OpPut, Key = k, Value = v\<rparr>"

definition deleteCommand :: "string \<Rightarrow> KvCommand" where
  "deleteCommand k = \<lparr>Op = OpDelete, Key = k, Value = []\<rparr>"

text \<open>How \<open>Put\<close> and \<open>Delete\<close> turn the outcome of \<open>propose\<close> into a response.\<close>

definition mutate_response :: "Status_rec \<Rightarrow> KvServer \<Rightarrow> kv_error option \<Rightarrow> kv_error + Redirect option" where
  "mutate_response st s r =
     (case r of
        None \<Rightarrow> Inr None
      | Some e \<Rightarrow> if e = NotLeader then Inr (Some (redirect st s)) else Inl e)"

record GetResponse =
  g_Value :: string
  g_Found :: bool
  g_Redirect :: "Redirect option"

definition server_Get :: "Status_rec \<Rightarrow> string \<Rightarrow> KvServer \<Rightarrow> GetResponse" where
  "server_Get st k s =
     (if st_State st \<noteq> Leader then \<lparr>g_Value = [], g_Found = False, g_Redirect = Some (redirect st s)\<rparr>
      else case store_Get k (kv_store s) of (v, f) \<Rightarrow> \<lparr>g_Value = v, g_Found = f, g_Redirect = None\<rparr>)"

record StatusResponse =
  sr_NodeId :: node_id
  sr_State :: string
  sr_CurrentTerm :: nat
  sr_VotedFor :: node_id
  sr_LeaderId :: node_id
  sr_CommitIndex :: nat
  sr_LastApplied :: nat
  sr_LastLogIndex :: nat
  sr_LastLogTerm :: nat
  sr_FirstLogIndex :: nat
  sr_Keys :: nat

definition server_Status :: "Status_rec \<Rightarrow> KvServer \<Rightarrow> StatusResponse" where
  "server_Status st s =
     \<lparr>sr_NodeId = st_ID st, sr_State = State_String (st_State st), sr_CurrentTerm = st_CurrentTerm st,
      sr_VotedFor = st_VotedFor st, sr_LeaderId = st_LeaderID st, sr_CommitIndex = st_CommitIndex st,
      sr_LastApplied = st_LastApplied st, sr_LastLogIndex = st_LastLogIndex st,
      sr_LastLogTerm = st_LastLogTerm st, sr_FirstLogIndex = st_FirstLogIndex st, sr_Keys = Len (kv_store s)\<rparr>"

end
