(* ===== verification/Go_Json_Laws.thy ===== *)
theory Go_Json_Laws
  imports Go_Json
begin

text \<open>
  Round trips of the encoders of \<open>Go_Json\<close>: base64, decimal numbers, string literals, JSON
  values, and from these the decoding of an encoded struct.
\<close>

section \<open>Base64\<close>

lemma code_lt: "code c < 256"
  using of_char_mod_256 [where 'a = nat, of c] mod_less_divisor [of 256 "code c"] by simp

lemma char_by_code: "code c = code d \<Longrightarrow> c = d"
  by simp

lemma code_char_of: "n < 256 \<Longrightarrow> code (char_of n) = n"
  by simp

lemma code_b64_char:
  "n < 64 \<Longrightarrow> code (b64_char n) =
     (if n < 26 then 65 + n else if n < 52 then 71 + n else if n < 62 then n - 4
      else if n = 62 then 43 else 47)"
  by (simp add: b64_char_def)

lemma b64_value_char [simp]: "n < 64 \<Longrightarrow> b64_value (b64_char n) = Some n"
proof -
  assume n: "n < 64"
  consider "n < 26" | "26 \<le> n" "n < 52" | "52 \<le> n" "n < 62" | "n = 62" | "n = 63" using n by linarith
  then show ?thesis
    by cases (auto simp: b64_value_def Let_def b64_char_def)
qed

lemma b64_char_code:
  assumes "n < 64"
  shows "code (b64_char n) \<noteq> 10" "code (b64_char n) \<noteq> 13" "b64_char n \<noteq> CHR ''=''"
proof -
  have "code (b64_char n) \<notin> {10, 13, 61}"
    using assms by (auto simp: code_b64_char)
  then show "code (b64_char n) \<noteq> 10" "code (b64_char n) \<noteq> 13" "b64_char n \<noteq> CHR ''=''"
    by auto
qed

lemma b64_parts [simp]:
  fixes a b c :: char
  shows "code a div 4 < 64" "code a mod 4 * 16 < 64" "code a mod 4 * 16 + code b div 16 < 64"
    "code b mod 16 * 4 < 64" "code b mod 16 * 4 + code c div 64 < 64" "code c mod 64 < 64"
proof -
  have "code a mod 4 < 4" "code b mod 16 < 16" "code b div 16 < 16" "code c div 64 < 4"
    using code_lt [of b] code_lt [of c] by (simp_all add: less_mult_imp_div_less)
  then show "code a mod 4 * 16 < 64" "code a mod 4 * 16 + code b div 16 < 64"
    "code b mod 16 * 4 < 64" "code b mod 16 * 4 + code c div 64 < 64" by linarith+
  show "code a div 4 < 64" using code_lt [of a] by (simp add: less_mult_imp_div_less)
qed simp

lemma b64_encode_no_newline:
  "filter (\<lambda>c. code c \<noteq> 10 \<and> code c \<noteq> 13) (b64_encode s) = b64_encode s"
  by (induction s rule: b64_encode.induct) (simp_all add: b64_char_code)

lemma b64_join:
  fixes x y z :: nat
  assumes "y < 256" and "z < 256"
  shows "x div 4 * 4 + (x mod 4 * 16 + y div 16) div 16 = x"
    "(x mod 4 * 16 + y div 16) mod 16 * 16 + (y mod 16 * 4 + z div 64) div 4 = y"
    "(y mod 16 * 4 + z div 64) mod 4 * 64 + z mod 64 = z"
proof -
  have "y div 16 < 16" "z div 64 < 4" using assms by (simp_all add: less_mult_imp_div_less)
  then show "x div 4 * 4 + (x mod 4 * 16 + y div 16) div 16 = x"
    "(x mod 4 * 16 + y div 16) mod 16 * 16 + (y mod 16 * 4 + z div 64) div 4 = y"
    "(y mod 16 * 4 + z div 64) mod 4 * 64 + z mod 64 = z"
    by simp_all
qed

lemma b64_quads_encode: "b64_quads (b64_encode s) = Some s"
proof (induction s rule: b64_encode.induct)
  case (2 a)
  show ?case using b64_join(1) [where x = "code a" and y = 0 and z = 0] by (simp add: b64_char_code)
next
  case (3 a b)
  show ?case
    using b64_join(1,2) [where x = "code a" and y = "code b" and z = 0] code_lt
    by (simp add: b64_char_code)
next
  case (4 a b c cs)
  show ?case
    using 4 b64_join(1,2) [where x = "code a" and y = "code b" and z = "code c"]
      b64_join(3) [where y = "code b" and z = "code c"] code_lt by (simp add: b64_char_code)
qed simp

lemma b64_roundtrip: "b64_decode (b64_encode s) = Some s"
  by (simp add: b64_decode_def b64_encode_no_newline b64_quads_encode)

section \<open>Decimal round trip\<close>

lemma code_digit: "d < 10 \<Longrightarrow> code (digit d) = 48 + d"
  by (simp add: digit_def of_char_of take_bit_eq_mod)

lemma is_digit_digit [simp]: "d < 10 \<Longrightarrow> is_digit (digit d)"
  by (simp add: is_digit_def code_digit)

lemma read_nat_snoc [simp]: "read_nat (s @ [c]) = 10 * read_nat s + (code c - 48)"
  by (simp add: read_nat_def)

lemma read_show_nat [simp]: "read_nat (show_nat n) = n"
proof (induction n rule: show_nat.induct)
  case (1 n)
  show ?case
  proof (cases "n < 10")
    case True
    then show ?thesis by (simp add: show_nat.simps [of n] read_nat_def code_digit)
  next
    case False
    then have "read_nat (show_nat n) = 10 * (n div 10) + n mod 10"
      using 1 by (simp add: show_nat.simps [of n] code_digit)
    then show ?thesis by simp
  qed
qed

lemma show_nat_digits [simp]: "list_all is_digit (show_nat n)"
  by (induction n rule: show_nat.induct) (simp add: show_nat.simps list_all_append)

lemma show_nat_nonempty [simp]: "show_nat n \<noteq> []"
  by (simp add: show_nat.simps [of n])

lemma show_nat_hd: "0 < n \<Longrightarrow> hd (show_nat n) \<noteq> CHR ''0''"
proof (induction n rule: show_nat.induct)
  case (1 n)
  show ?case
  proof (cases "n < 10")
    case True
    then have "code (digit n) \<noteq> code (CHR ''0'')" using 1 by (simp add: code_digit)
    then show ?thesis using True by (auto simp: show_nat.simps [of n])
  next
    case False
    then show ?thesis using 1 by (simp add: show_nat.simps [of n])
  qed
qed

section \<open>String literals\<close>

lemma runeLen_le: "runeLen s \<le> length s"
  by (cases s) (auto simp: Let_def split: list.splits)

lemma runeLen_append:
  assumes "0 < runeLen s"
  shows "runeLen (take (runeLen s) s @ r) = runeLen s"
proof (cases s)
  case (Cons c cs)
  show ?thesis
    using assms unfolding Cons
    by (cases cs; cases "tl cs"; cases "tl (tl cs)") (auto simp: Let_def split: if_splits)
qed (use assms in simp)

lemma hex_value_digit [simp]: "d < 16 \<Longrightarrow> hex_value (hex_digit d) = Some d"
  by (auto simp: hex_value_def hex_digit_def Let_def)

lemma hex_value_0 [simp]: "hex_value (CHR ''0'') = Some 0"
  by (simp add: hex_value_def)

lemma unquote_escape:
  assumes "code c < 0x80"
  shows "unquote (escape c @ r) = map_option (\<lambda>(s, rest). (c # s, rest)) (unquote r)"
proof -
  have hi: "code c div 16 < 16" and lo: "code c mod 16 < 16" using assms by simp_all
  consider (special) "code c \<in> {0x22, 0x5C, 8, 12, 10, 13, 9}"
    | (unicode) "code c \<notin> {0x22, 0x5C, 8, 12, 10, 13, 9}" "code c < 32 \<or> code c \<in> {0x3C, 0x3E, 0x26}"
    | (plain) "code c \<notin> {0x22, 0x5C, 8, 12, 10, 13, 9}" "\<not> (code c < 32 \<or> code c \<in> {0x3C, 0x3E, 0x26})"
    by blast
  then show ?thesis
  proof cases
    case special
    then have "c \<in> {CHR 0x22, CHR 0x5C, CHR 0x08, CHR 0x0C, CHR 0x0A, CHR 0x0D, CHR 0x09}"
      by (auto intro: char_by_code)
    then show ?thesis
      by (auto simp: escape_def unquote.simps(2) simple_escape_def)
  next
    case unicode
    have "hex4 (CHR ''0'' # CHR ''0'' # hex_digit (code c div 16) # hex_digit (code c mod 16) # r) =
        Some (code c, r)"
      using hi lo by simp
    moreover have "unicode_escape (code c) r = ([c], r)"
      using assms by (simp add: unicode_escape_def encodeRune_def)
    ultimately show ?thesis
      using unicode by (auto simp: escape_def unquote.simps(2) Let_def)
  next
    case plain
    then show ?thesis using assms by (simp add: escape_def unquote.simps(2))
  qed
qed

lemma line_separator_cases:
  assumes "line_separator s"
  obtains x r where "s = CHR 0xE2 # CHR 0x80 # x # r" "x \<in> {CHR 0xA8, CHR 0xA9}"
proof -
  from assms obtain c1 c2 c3 r where s: "s = c1 # c2 # c3 # r"
    by (cases s; cases "tl s"; cases "tl (tl s)") (auto simp: line_separator_def)
  have "code c1 = 0xE2" "code c2 = 0x80" "code c3 = 0xA8 \<or> code c3 = 0xA9"
    using assms by (auto simp: line_separator_def s)
  then have "c1 = CHR 0xE2" "c2 = CHR 0x80" "c3 \<in> {CHR 0xA8, CHR 0xA9}"
    by (auto intro: char_by_code)
  then show thesis using s that by blast
qed

lemma unquote_quote_body:
  assumes "valid_utf8 s"
  shows "unquote (quote_body s @ CHR 0x22 # rest) = Some (s, rest)"
  using assms
proof (induction s rule: quote_body.induct)
  case 1
  show ?case by (simp add: unquote.simps(2))
next
  case (2 c cs)
  let ?s = "c # cs" and ?n = "runeLen (c # cs)"
  have n: "0 < ?n" and v: "valid_utf8 (drop ?n ?s)"
    using 2(5) by (auto simp: valid_utf8.simps [of ?s] simp del: runeLen.simps split: if_splits)
  consider (ascii) "code c < 0x80" | (sep) "\<not> code c < 0x80" "line_separator ?s"
    | (multi) "\<not> code c < 0x80" "\<not> line_separator ?s" by blast
  then show ?case
  proof cases
    case ascii
    then have "?n = 1" by simp
    then show ?thesis
      using ascii v 2(1) by (simp add: quote_body.simps(2) unquote_escape del: runeLen.simps)
  next
    case sep
    obtain x r where x: "?s = CHR 0xE2 # CHR 0x80 # x # r" "x \<in> {CHR 0xA8, CHR 0xA9}"
      using line_separator_cases [OF sep(2)] by blast
    have n3: "?n = 3" unfolding x(1) using x(2) by (auto simp: second_ok_def is_cont_def)
    have IH: "unquote (quote_body r @ CHR 0x22 # rest) = Some (r, rest)"
      using 2(3) [OF sep(1) refl _ sep(2)] v n3 x(1) by simp
    have "quote_body ?s = [CHR 0x5C, CHR ''u'', CHR ''2'', CHR ''0'', CHR ''2'', hex_digit (code x mod 16)] @ quote_body r"
      using sep n3 x(1) by (simp add: quote_body.simps(2) del: runeLen.simps)
    then show ?thesis
      using x IH by (auto simp: unquote.simps(2) hex_value_def hex_digit_def unicode_escape_def
          encodeRune_def intro: char_by_code)
  next
    case multi
    let ?r = "quote_body (drop ?n ?s) @ CHR 0x22 # rest"
    have "unquote ?r = Some (drop ?n ?s, rest)"
      using 2(4) multi n v by (simp del: runeLen.simps)
    moreover obtain cs' where t: "take ?n ?s @ ?r = c # cs'"
      using n by (cases ?n) auto
    moreover have "runeLen (c # cs') = ?n" "take ?n (c # cs') = take ?n ?s" "drop ?n (c # cs') = ?r"
      using runeLen_append [OF n, of ?r] runeLen_le [of ?s] by (simp_all flip: t del: runeLen.simps)
    ultimately have "unquote (take ?n ?s @ ?r) = Some (take ?n ?s @ drop ?n ?s, rest)"
      using multi(1) n by (simp add: unquote.simps(2) Let_def del: runeLen.simps append_take_drop_id)
    then show ?thesis
      using multi n by (simp add: quote_body.simps(2) Let_def del: runeLen.simps)
  qed
qed

section \<open>Numbers\<close>

text \<open>What may follow a number without being read as part of it.\<close>

definition ends_number :: "string \<Rightarrow> bool" where
  "ends_number r \<longleftrightarrow> r = [] \<or> \<not> is_digit (hd r) \<and> hd r \<notin> {CHR ''.'', CHR ''e'', CHR ''E''}"

lemma digits_prefix:
  assumes "list_all is_digit ds" and "ends_number r"
  shows "takeWhile is_digit (ds @ r) = ds" "dropWhile is_digit (ds @ r) = r"
proof -
  have "takeWhile is_digit r = []" "dropWhile is_digit r = r"
    using assms(2) by (cases r; simp add: ends_number_def)+
  then show "takeWhile is_digit (ds @ r) = ds" "dropWhile is_digit (ds @ r) = r"
    using assms(1) by (simp_all add: list_all_iff)
qed

lemma parse_int_show:
  assumes "ends_number r"
  shows "parse_int (show_nat n @ r) = Some (show_nat n, r)"
proof (cases "n = 0")
  case True
  have "digit 0 = CHR ''0''" by (rule char_by_code) (simp add: digit_def)
  with True show ?thesis by (simp add: parse_int_def show_nat.simps [of 0])
next
  case False
  obtain c cs where c: "show_nat n = c # cs" by (cases "show_nat n") simp_all
  have "c \<noteq> CHR ''0''" "is_digit c"
    using show_nat_hd [of n] show_nat_digits [of n] False by (simp_all add: c)
  then show ?thesis
    using digits_prefix [OF show_nat_digits assms, of n] by (simp add: parse_int_def c)
qed

lemma digit_not_sign: "is_digit c \<Longrightarrow> c \<noteq> CHR ''-''"
  by (auto simp: is_digit_def)

lemma parse_number_show:
  assumes "ends_number r"
  shows "parse_number (show_nat n @ r) = Some (show_nat n, r)"
proof -
  have "hd (show_nat n @ r) \<noteq> CHR ''-''"
    using show_nat_digits [of n] digit_not_sign by (cases "show_nat n") auto
  moreover have "parse_frac r = Some ([], r)" "parse_exp r = Some ([], r)"
    using assms by (auto simp: parse_frac_def parse_exp_def ends_number_def)
  ultimately show ?thesis
    using parse_int_show [OF assms] by (simp add: parse_number_def)
qed

section \<open>Values\<close>

text \<open>The values the encoders build: natural numbers and valid UTF-8 strings.\<close>

fun encodable :: "json \<Rightarrow> bool" where
  "encodable JNull = True"
| "encodable (JBool b) = True"
| "encodable (JNum s) = (\<exists>n. s = show_nat n)"
| "encodable (JStr s) = valid_utf8 s"
| "encodable (JArr js) = list_all encodable js"
| "encodable (JObj ms) = list_all (\<lambda>(k, j). valid_utf8 k \<and> encodable j) ms"

fun nesting :: "json \<Rightarrow> nat" where
  "nesting (JArr js) = Suc (Max (set (0 # map nesting js)))"
| "nesting (JObj ms) = Suc (Max (set (0 # map (\<lambda>(k, j). nesting j) ms)))"
| "nesting _ = 0"

lemma nesting_mem:
  "j \<in> set js \<Longrightarrow> nesting j < nesting (JArr js)"
  "(k, j) \<in> set ms \<Longrightarrow> nesting j < nesting (JObj ms)"
  by (force simp: less_Suc_eq_le intro!: Max_ge)+

lemma unquote_quote: "valid_utf8 s \<Longrightarrow> unquote (tl (quote s) @ r) = Some (s, r)"
  using unquote_quote_body [of s r] by (simp add: quote_def)

lemma quote_split: "quote s @ r = CHR 0x22 # tl (quote s) @ r"
  by (simp add: quote_def)

lemma skip_ws_id: "s \<noteq> [] \<Longrightarrow> \<not> is_ws (hd s) \<Longrightarrow> skip_ws s = s"
  by (cases s) simp_all

lemma digit_not_ws: "is_digit c \<Longrightarrow> \<not> is_ws c"
  by (auto simp: is_digit_def is_ws_def)

text \<open>How an encoded value starts: never with white space or a closing bracket.\<close>

lemma render_starts:
  assumes "encodable j"
  obtains c cs where "render j = c # cs" "\<not> is_ws c" "c \<noteq> CHR '']''" "c \<noteq> CHR ''}''"
proof (cases j)
  case (JNum s)
  then obtain n where n: "s = show_nat n" using assms by auto
  obtain c cs where c: "show_nat n = c # cs" by (cases "show_nat n") simp_all
  have "is_digit c" using show_nat_digits [of n] by (simp add: c)
  moreover from this have "c \<noteq> CHR '']''" "c \<noteq> CHR ''}''" by (auto simp: is_digit_def)
  ultimately show thesis
    using that [of c cs] digit_not_ws by (simp add: JNum n c)
next
  case (JBool b)
  then show thesis by (cases b) (auto simp: is_ws_def intro: that)
qed (auto simp: is_ws_def quote_def intro!: that)

lemma is_ws_chars [simp]:
  "\<not> is_ws (CHR '','')" "\<not> is_ws (CHR '':'')" "\<not> is_ws (CHR '']'')" "\<not> is_ws (CHR ''}'')"
  "\<not> is_ws (CHR 0x22)" "\<not> is_ws (CHR ''['')" "\<not> is_ws (CHR ''{'')"
  by (simp_all add: is_ws_def)

lemma ends_number_chars [simp]:
  "ends_number (CHR '','' # r)" "ends_number (CHR '']'' # r)" "ends_number (CHR ''}'' # r)" "ends_number []"
  by (simp_all add: ends_number_def is_digit_def)

lemma parse_scalar_Suc:
  assumes "encodable j" and "\<And>js. j \<noteq> JArr js" and "\<And>ms. j \<noteq> JObj ms" and "ends_number r"
  shows "parse_value (Suc n) d (render j @ r) = Some (j, r)"
proof (cases j)
  case JNull
  then show ?thesis by (simp add: is_ws_def is_digit_def literal_def)
next
  case (JBool b)
  then show ?thesis by (cases b) (simp_all add: is_ws_def is_digit_def literal_def)
next
  case (JNum s)
  then obtain m where m: "s = show_nat m" using assms(1) by auto
  obtain c cs where c: "show_nat m = c # cs" by (cases "show_nat m") simp_all
  have dig: "is_digit c" using show_nat_digits [of m] by (simp add: c)
  then have "c \<noteq> CHR ''{''" "c \<noteq> CHR ''[''" "c \<noteq> CHR 0x22" "\<not> is_ws c"
    using digit_not_ws by (auto simp: is_digit_def)
  then show ?thesis
    using parse_number_show [OF assms(4), of m] dig by (simp add: JNum m c)
next
  case (JStr s)
  then show ?thesis
    using unquote_quote [of s r] assms(1) by (simp add: quote_split)
qed (use assms in simp_all)

lemma parse_scalar:
  assumes "encodable j" and "\<And>js. j \<noteq> JArr js" and "\<And>ms. j \<noteq> JObj ms" and "ends_number r"
    and "2 * length (render j) \<le> n"
  shows "parse_value n d (render j @ r) = Some (j, r)"
proof -
  have pos: "0 < n" using render_starts [OF assms(1)] assms(5) by fastforce
  then obtain m where n: "n = Suc m" by (cases n) simp_all
  show ?thesis
    unfolding n using assms(1-4) by (rule parse_scalar_Suc)
qed

lemma render_elems_starts:
  assumes "js \<noteq> []" and "list_all encodable js"
  obtains c cs where "render_elems js = c # cs" "\<not> is_ws c" "c \<noteq> CHR '']''"
proof -
  obtain j js' where js: "js = j # js'" using assms(1) by (cases js) simp_all
  obtain c cs where "render j = c # cs" "\<not> is_ws c" "c \<noteq> CHR '']''"
    using render_starts [of j] assms(2) unfolding js list.pred_inject(2) by metis
  then show thesis by (cases js') (auto simp: js intro: that)
qed

lemma render_members_starts:
  assumes "ms \<noteq> []"
  obtains cs where "render_members ms = CHR 0x22 # cs"
  using assms by (cases ms rule: render_members.cases) (auto simp: quote_def intro: that)

lemma parse_render:
  "encodable j \<Longrightarrow> d + nesting j \<le> maxNestingDepth \<Longrightarrow> 2 * length (render j) \<le> n \<Longrightarrow> ends_number r \<Longrightarrow>
     parse_value n d (render j @ r) = Some (j, r)"
  "js \<noteq> [] \<Longrightarrow> list_all encodable js \<Longrightarrow> (\<And>j. j \<in> set js \<Longrightarrow> d + nesting j \<le> maxNestingDepth) \<Longrightarrow>
     2 * length (render_elems js) + 2 \<le> n \<Longrightarrow>
     parse_elems n d (render_elems js @ CHR '']'' # r) = Some (js, r)"
  "ms \<noteq> [] \<Longrightarrow> list_all (\<lambda>(k, j). valid_utf8 k \<and> encodable j) ms \<Longrightarrow>
     (\<And>k j. (k, j) \<in> set ms \<Longrightarrow> d + nesting j \<le> maxNestingDepth) \<Longrightarrow>
     2 * length (render_members ms) + 2 \<le> n \<Longrightarrow>
     parse_members n d (render_members ms @ CHR ''}'' # r) = Some (ms, r)"
proof (induction j and js and ms arbitrary: n d r and n d r and n d r
    rule: render_render_elems_render_members.induct)
  case (5 js)
  then obtain m where m: "n = Suc m" by (cases n) simp_all
  show ?case
  proof (cases "js = []")
    case False
    obtain c cs where c: "render_elems js = c # cs" "\<not> is_ws c" "c \<noteq> CHR '']''"
      using render_elems_starts False 5(2) by (metis encodable.simps(5))
    have "parse_elems m (Suc d) (render_elems js @ CHR '']'' # r) = Some (js, r)"
    proof (rule 5(1) [OF False])
      show "Suc d + nesting j \<le> maxNestingDepth" if "j \<in> set js" for j
        using 5(3) nesting_mem(1) [OF that] by simp
    qed (use 5 m in simp_all)
    then show ?thesis using c 5(3) by (simp add: m)
  qed (use m 5(3) in simp)
next
  case (6 ms)
  then obtain m where m: "n = Suc m" by (cases n) simp_all
  show ?case
  proof (cases "ms = []")
    case False
    obtain cs where c: "render_members ms = CHR 0x22 # cs"
      using render_members_starts False by metis
    have "parse_members m (Suc d) (render_members ms @ CHR ''}'' # r) = Some (ms, r)"
    proof (rule 6(1) [OF False])
      show "Suc d + nesting j \<le> maxNestingDepth" if "(k, j) \<in> set ms" for k j
        using 6(3) nesting_mem(2) [OF that] by simp
    qed (use 6 m in simp_all)
    then show ?thesis using c 6(3) by (simp add: m)
  qed (use m 6(3) in simp)
next
  case (8 j)
  then obtain m where m: "n = Suc m" by (cases n) simp_all
  have "parse_value m d (render j @ CHR '']'' # r) = Some (j, CHR '']'' # r)"
    by (rule 8(1)) (use 8 m in simp_all)
  then show ?case by (simp add: m)
next
  case (9 j j' js)
  then obtain m where m: "n = Suc m" by (cases n) simp_all
  have "parse_value m d (render j @ CHR '','' # x) = Some (j, CHR '','' # x)" for x
    by (rule 9(1)) (use 9 m in simp_all)
  moreover have "parse_elems m d (render_elems (j' # js) @ CHR '']'' # r) = Some (j' # js, r)"
    by (rule 9(2)) (use 9 m in simp_all)
  ultimately show ?case by (simp add: m)
next
  case (11 k j)
  then obtain m where m: "n = Suc m" by (cases n) simp_all
  have "parse_value m d (render j @ CHR ''}'' # r) = Some (j, CHR ''}'' # r)"
    by (rule 11(1)) (use 11 m in simp_all)
  then show ?case using 11(3) by (simp add: m quote_split unquote_quote)
next
  case (12 k j m0 ms)
  then obtain m where m: "n = Suc m" by (cases n) simp_all
  have "parse_value m d (render j @ CHR '','' # x) = Some (j, CHR '','' # x)" for x
    using 12(1,4,6) 12(5) [of k j] m by simp
  moreover have "parse_members m d (render_members (m0 # ms) @ CHR ''}'' # r) = Some (m0 # ms, r)"
  proof (rule 12(2))
    show "d + nesting j'' \<le> maxNestingDepth" if "(k'', j'') \<in> set (m0 # ms)" for k'' j''
      by (rule 12(5) [of k'']) (use that in auto)
  qed (use 12(4,6) m in simp_all)
  ultimately show ?case using 12(4) by (simp add: m quote_split unquote_quote)
qed ((rule parse_scalar; simp)+, simp_all)

text \<open>An encoded value of modest depth is read back as it was written.\<close>

theorem parse_json_render:
  assumes "encodable j" and "nesting j \<le> maxNestingDepth"
  shows "parse_json (render j) = Some j"
  using parse_render(1) [OF assms(1), of 0 "2 * length (render j) + 2" "[]"] assms(2)
  by (simp add: parse_json_def)

section \<open>Structs\<close>

lemma valid_utf8_ascii: "list_all (\<lambda>c. code c < 0x80) s \<Longrightarrow> valid_utf8 s"
  by (induction s) (simp_all add: valid_utf8.simps)

lemma b64_encode_ascii: "list_all (\<lambda>c. code c < 0x80) (b64_encode s)"
proof -
  have "code (b64_char n) < 0x80" if "n < 64" for n
    using code_b64_char [OF that] that by auto
  then show ?thesis
    by (induction s rule: b64_encode.induct) simp_all
qed

lemma encodable_uint [simp]: "encodable (enc_uint n)"
  by (auto simp: enc_uint_def)

lemma encodable_bytes [simp]: "encodable (enc_bytes b)"
  by (simp add: enc_bytes_def valid_utf8_ascii b64_encode_ascii)

lemma nesting_scalars [simp]: "nesting (enc_uint n) = 0" "nesting (enc_bytes b) = 0"
  by (simp_all add: enc_uint_def enc_bytes_def)

lemma dec_uint_enc [simp]: "n < bound \<Longrightarrow> dec_uint bound (enc_uint n) old = Some n"
  by (simp add: dec_uint_def enc_uint_def)

lemma dec_string_enc [simp]: "dec_string (JStr s) old = Some s"
  by (simp add: dec_string_def)

lemma dec_bytes_enc [simp]: "dec_bytes (enc_bytes b) = Some b"
  by (simp add: dec_bytes_def enc_bytes_def b64_roundtrip)

text \<open>Unmarshalling an encoded object of scalar fields runs the decoder over the fields.\<close>

lemma unmarshal_object:
  assumes "list_all (\<lambda>(k, j). valid_utf8 k \<and> encodable j \<and> nesting j = 0) ms"
  shows "unmarshal upd (render (JObj ms)) x = dec_members upd ms x"
proof -
  have "nesting (JObj ms) = 1"
    using assms by (induction ms) auto
  moreover have "encodable (JObj ms)"
    using assms by (auto simp: list_all_iff)
  ultimately show ?thesis
    by (simp add: unmarshal_def parse_json_render maxNestingDepth_def dec_struct_def del: render.simps)
qed

section \<open>Decoded strings are valid UTF-8\<close>

lemma valid_utf8_append: "valid_utf8 x \<Longrightarrow> valid_utf8 y \<Longrightarrow> valid_utf8 (x @ y)"
proof (induction x rule: valid_utf8.induct)
  case (1 s)
  show ?case
  proof (cases "s = []")
    case False
    then have n: "0 < runeLen s" and v: "valid_utf8 (drop (runeLen s) s)"
      using 1(2) by (auto simp: valid_utf8.simps [of s] split: if_splits)
    have "s @ y = take (runeLen s) s @ (drop (runeLen s) s @ y)" by simp
    then have "runeLen (s @ y) = runeLen s" using runeLen_append [OF n] by metis
    then show ?thesis
      using 1(1) [OF False _ v 1(3)] n False runeLen_le [of s] by (simp add: valid_utf8.simps [of "s @ y"])
  qed (use 1 in simp)
qed

lemma valid_utf8_rune: "runeLen s = length s \<Longrightarrow> valid_utf8 s"
  by (cases "s = []") (simp_all add: valid_utf8.simps [of s] valid_utf8.simps [of "[]"])

lemma valid_replacement: "valid_utf8 replacement"
  by (rule valid_utf8_rune) (simp add: replacement_def second_ok_def is_cont_def)

lemma six_bits_window:
  fixes q :: nat
  assumes "k * 64 + a \<le> q" and "q < k * 64 + b" and "b \<le> 64"
  shows "a \<le> q mod 64" and "q mod 64 < b"
proof -
  define d where "d = q - k * 64"
  have d: "q = k * 64 + d" using assms(1) by (simp add: d_def)
  then have "d < 64" using assms(2,3) by linarith
  then have "q mod 64 = d" using d by simp
  then show "a \<le> q mod 64" "q mod 64 < b" using d assms by linarith+
qed

lemma utf8_three_low: "0x800 \<le> (r::nat) \<Longrightarrow> r div 4096 = 0 \<Longrightarrow> 32 \<le> r div 64 mod 64"
  by (rule six_bits_window(1) [where k = 0 and b = 64])
    (simp_all add: div_eq_0_iff less_mult_imp_div_less less_eq_div_iff_mult_less_eq)

lemma utf8_three_high:
  assumes "\<not> (0xD800 \<le> (r::nat) \<and> r < 0xE000)" "r div 4096 = 13" shows "r div 64 mod 64 < 32"
proof (rule six_bits_window(2) [where k = 13 and a = 0])
  have r: "r = 13 * 4096 + r mod 4096" using assms(2) div_mult_mod_eq [of r 4096] by simp
  moreover have "r mod 4096 < 4096" by simp
  ultimately have "13 * 4096 \<le> r" "r < 0xE000" by linarith+
  then show "13 * 64 + 0 \<le> r div 64" "r div 64 < 13 * 64 + 32"
    using assms(1) by (simp_all add: less_mult_imp_div_less less_eq_div_iff_mult_less_eq)
qed simp

lemma utf8_four_low:
  assumes "0x10000 \<le> (r::nat)" "r div 262144 = 0" shows "16 \<le> r div 4096 mod 64"
  by (rule six_bits_window(1) [where k = 0 and b = 64])
    (use assms in \<open>simp_all add: div_eq_0_iff less_mult_imp_div_less less_eq_div_iff_mult_less_eq\<close>)

lemma utf8_four_high:
  assumes "r \<le> (0x10FFFF::nat)" "r div 262144 = 4" shows "r div 4096 mod 64 < 16"
proof (rule six_bits_window(2) [where k = 4 and a = 0])
  have r: "r = 4 * 262144 + r mod 262144" using assms(2) div_mult_mod_eq [of r 262144] by simp
  then have "4 * 262144 \<le> r" by linarith
  then show "4 * 64 + 0 \<le> r div 4096" "r div 4096 < 4 * 64 + 16"
    using assms(1) by (simp_all add: less_mult_imp_div_less less_eq_div_iff_mult_less_eq)
qed simp
lemma valid_encodeRune: "valid_utf8 (encodeRune r)"
proof -
  consider "r < 0x80" | "0x80 \<le> r" "r < 0x800" | "0xD800 \<le> r \<and> r < 0xE000 \<or> 0x10FFFF < r"
    | "0x800 \<le> r" "r < 0x10000" "\<not> (0xD800 \<le> r \<and> r < 0xE000)" | "0x10000 \<le> r" "r \<le> 0x10FFFF"
    by linarith
  then show ?thesis
  proof cases
    case 1
    then show ?thesis by (intro valid_utf8_rune) (simp add: encodeRune_def)
  next
    case 2
    then have "2 \<le> r div 64" "r div 64 < 32" by (simp_all add: less_mult_imp_div_less)
    moreover have "r mod 64 < 64" by simp
    ultimately have "runeLen [char_of (0xC0 + r div 64), char_of (0x80 + r mod 64)] = 2"
      by (simp add: second_ok_def is_cont_def)
    then show ?thesis using 2 by (intro valid_utf8_rune) (simp add: encodeRune_def)
  next
    case 3
    then show ?thesis by (auto simp: encodeRune_def valid_replacement)
  next
    case 4
    let ?a = "r div 4096" and ?b = "r div 64 mod 64" and ?c = "r mod 64"
    have a: "?a < 16" using 4 by (simp add: less_mult_imp_div_less)
    have bc: "?b < 64" "?c < 64" by simp_all
    note low = utf8_three_low [OF 4(1)] and high = utf8_three_high [OF 4(3)]
    have "runeLen [char_of (0xE0 + ?a), char_of (0x80 + ?b), char_of (0x80 + ?c)] = 3"
      using a bc low high by (auto simp: second_ok_def is_cont_def Let_def)
    then show ?thesis using 4 by (intro valid_utf8_rune) (auto simp: encodeRune_def)
  next
    case 5
    let ?z = "r div 262144" and ?a = "r div 4096 mod 64" and ?b = "r div 64 mod 64" and ?c = "r mod 64"
    have z: "?z < 5" using 5 by (simp add: less_mult_imp_div_less)
    have bc: "?a < 64" "?b < 64" "?c < 64" by simp_all
    note low = utf8_four_low [OF 5(1)] and high = utf8_four_high [OF 5(2)]
    have "runeLen [char_of (0xF0 + ?z), char_of (0x80 + ?a), char_of (0x80 + ?b), char_of (0x80 + ?c)] = 4"
      using z bc low high by (auto simp: second_ok_def is_cont_def Let_def)
    then show ?thesis using 5 by (intro valid_utf8_rune) (auto simp: encodeRune_def)
  qed
qed

lemma valid_unicode_escape: "valid_utf8 (fst (unicode_escape r cs))"
proof (cases "hex4 (drop 2 cs)")
  case None
  then show ?thesis
    by (cases "take 2 cs = [CHR 0x5C, CHR ''u'']")
      (simp_all add: unicode_escape_def valid_encodeRune valid_replacement)
next
  case (Some p)
  then show ?thesis
    by (cases p; cases "take 2 cs = [CHR 0x5C, CHR ''u'']")
      (simp_all add: unicode_escape_def valid_encodeRune valid_replacement)
qed

lemma valid_utf8_Cons_ascii: "code c < 0x80 \<Longrightarrow> valid_utf8 s \<Longrightarrow> valid_utf8 (c # s)"
  by (simp add: valid_utf8.simps [of "c # s"])

lemma simple_escape_ascii: "simple_escape e = Some x \<Longrightarrow> code x < 0x80"
  by (auto simp: simple_escape_def split: if_splits)

lemma valid_utf8_take_rune: "0 < runeLen s \<Longrightarrow> valid_utf8 (take (runeLen s) s)"
  using runeLen_append [of s "[]"] runeLen_le [of s] by (intro valid_utf8_rune) simp

lemma unquote_valid: "unquote s = Some (t, r) \<Longrightarrow> valid_utf8 t"
proof (induction s arbitrary: t r rule: unquote.induct)
  case (2 c cs)
  have nil: "valid_utf8 []" by (simp add: valid_utf8.simps [of "[]"])
  consider (close) "code c = 0x22" | (esc) "code c = 0x5C" | (ctl) "code c \<noteq> 0x22" "code c \<noteq> 0x5C" "code c < 32"
    | (plain) "code c \<noteq> 0x22" "code c \<noteq> 0x5C" "32 \<le> code c" "code c < 0x80"
    | (bad) "code c \<noteq> 0x22" "code c \<noteq> 0x5C" "0x80 \<le> code c" "runeLen (c # cs) = 0"
    | (rune) "code c \<noteq> 0x22" "code c \<noteq> 0x5C" "0x80 \<le> code c" "0 < runeLen (c # cs)"
    by linarith
  then show ?case
  proof cases
    case close
    then show ?thesis using "2.prems" nil by (simp add: unquote.simps(2))
  next
    case esc
    then obtain e cs' where cs: "cs = e # cs'"
      using "2.prems" by (cases cs) (simp_all add: unquote.simps(2))
    show ?thesis
    proof (cases "e = CHR ''u''")
      case True
      obtain x cs1 where x: "hex4 cs' = Some (x, cs1)"
        using "2.prems" esc True by (cases "hex4 cs'") (auto simp: unquote.simps(2) cs)
      then obtain t' where t': "unquote (snd (unicode_escape x cs1)) = Some (t', r)" "t = fst (unicode_escape x cs1) @ t'"
        using "2.prems" esc True by (auto simp: unquote.simps(2) cs)
      have "valid_utf8 t'" using "2.IH"(1) [OF _ esc cs True x refl t'(1)] esc by simp
      then show ?thesis using t'(2) valid_utf8_append [OF valid_unicode_escape] by simp
    next
      case False
      obtain x where x: "simple_escape e = Some x"
        using "2.prems" esc False by (cases "simple_escape e") (auto simp: unquote.simps(2) cs)
      then obtain t' where t': "unquote cs' = Some (t', r)" "t = x # t'"
        using "2.prems" esc False by (auto simp: unquote.simps(2) cs)
      have "valid_utf8 t'" using "2.IH"(2) [OF _ esc cs False x t'(1)] esc by simp
      then show ?thesis using t'(2) valid_utf8_Cons_ascii [OF simple_escape_ascii [OF x]] by simp
    qed
  next
    case ctl
    then show ?thesis using "2.prems" by (simp add: unquote.simps(2))
  next
    case plain
    then obtain t' where t': "unquote cs = Some (t', r)" "t = c # t'"
      using "2.prems" by (auto simp: unquote.simps(2))
    have "valid_utf8 t'" by (rule "2.IH"(3) [OF _ _ _ _ t'(1)]) (use plain in simp_all)
    then show ?thesis using t'(2) valid_utf8_Cons_ascii [OF plain(4)] by simp
  next
    case bad
    then obtain t' where t': "unquote cs = Some (t', r)" "t = replacement @ t'"
      using "2.prems" by (auto simp: unquote.simps(2) simp del: runeLen.simps)
    have "valid_utf8 t'" by (rule "2.IH"(4) [OF _ _ _ _ refl _ t'(1)]) (use bad in simp_all)
    then show ?thesis using t'(2) valid_utf8_append [OF valid_replacement] by simp
  next
    case rune
    then obtain t' where t': "unquote (drop (runeLen (c # cs)) (c # cs)) = Some (t', r)"
        "t = take (runeLen (c # cs)) (c # cs) @ t'"
      using "2.prems" by (auto simp: unquote.simps(2) Let_def simp del: runeLen.simps)
    have "valid_utf8 t'" by (rule "2.IH"(5) [OF _ _ _ _ refl _ t'(1)]) (use rune in simp_all)
    then show ?thesis using t'(2) valid_utf8_append [OF valid_utf8_take_rune [OF rune(4)]] by simp
  qed
qed simp

fun valid_json :: "json \<Rightarrow> bool" where
  "valid_json (JStr s) = valid_utf8 s"
| "valid_json (JArr js) = list_all valid_json js"
| "valid_json (JObj ms) = list_all (\<lambda>(k, j). valid_utf8 k \<and> valid_json j) ms"
| "valid_json _ = True"

lemma parse_valid:
  "parse_value n d s = Some (j, r) \<Longrightarrow> valid_json j"
  "parse_elems n d s = Some (js, r) \<Longrightarrow> list_all valid_json js"
  "parse_members n d s = Some (ms, r) \<Longrightarrow> list_all (\<lambda>(k, j). valid_utf8 k \<and> valid_json j) ms"
proof (induction n d s and n d s and n d s arbitrary: j r and js r and ms r
    rule: parse_value_parse_elems_parse_members.induct)
  case (2 n d s)
  then obtain c cs where c: "skip_ws s = c # cs" by (cases "skip_ws s") simp_all
  consider (obj) "c = CHR ''{''" | (arr) "c = CHR ''[''" | (str) "c = CHR 0x22"
    | (other) "c \<noteq> CHR ''{''" "c \<noteq> CHR ''[''" "c \<noteq> CHR 0x22" by blast
  then show ?case
  proof cases
    case obj
    show ?thesis
    proof (cases "skip_ws cs \<noteq> [] \<and> hd (skip_ws cs) = CHR ''}''")
      case False
      then show ?thesis
        using "2.prems" "2.IH"(1) [OF c obj _ False] obj by (auto simp: c split: if_splits)
    qed (use "2.prems" obj in \<open>auto simp: c split: if_splits\<close>)
  next
    case arr
    have n: "c \<noteq> CHR ''{''" using arr by simp
    show ?thesis
    proof (cases "skip_ws cs \<noteq> [] \<and> hd (skip_ws cs) = CHR '']''")
      case False
      then show ?thesis
        using "2.prems" "2.IH"(2) [OF c n arr _ False] arr by (auto simp: c split: if_splits)
    qed (use "2.prems" arr in \<open>auto simp: c split: if_splits\<close>)
  next
    case str
    then show ?thesis using "2.prems" by (auto simp: c dest: unquote_valid)
  next
    case other
    then show ?thesis using "2.prems" by (auto simp: c literal_def split: if_splits)
  qed
next
  case (4 n d s)
  obtain j' r' where j: "parse_value n d s = Some (j', r')"
    using "4.prems" by (auto simp: bind_eq_Some_conv)
  then obtain c cs where c: "skip_ws r' = c # cs"
    using "4.prems" by (cases "skip_ws r'") simp_all
  show ?case
  proof (cases "c = CHR '']''")
    case True
    then show ?thesis using "4.prems" "4.IH"(1) [OF j] by (auto simp: j c)
  next
    case False
    then have k: "c = CHR '',''" using "4.prems" by (auto simp: j c split: if_splits)
    show ?thesis
      using "4.prems" "4.IH"(1) [OF j] "4.IH"(2) [OF j refl c False k] k by (auto simp: j c)
  qed
next
  case (6 n d s)
  obtain qs where q: "skip_ws s = CHR 0x22 # qs"
    using "6.prems" by (cases "skip_ws s") (auto split: if_splits)
  obtain k r1 where k: "unquote qs = Some (k, r1)"
    using "6.prems" by (auto simp: q bind_eq_Some_conv)
  obtain cs where c: "skip_ws r1 = CHR '':'' # cs"
    using "6.prems" by (cases "skip_ws r1") (auto simp: q k split: if_splits)
  obtain j' r2 where j: "parse_value n d cs = Some (j', r2)"
    using "6.prems" by (auto simp: q k c bind_eq_Some_conv)
  obtain e es where e: "skip_ws r2 = e # es"
    using "6.prems" by (cases "skip_ws r2") (auto simp: q k c j)
  have vj: "valid_json j'" using "6.IH"(1) j q k c by auto
  show ?case
  proof (cases "e = CHR ''}''")
    case True
    then show ?thesis using "6.prems" vj unquote_valid [OF k] by (auto simp: q k c j e)
  next
    case False
    then have "e = CHR '',''" using "6.prems" by (auto simp: q k c j e split: if_splits)
    then show ?thesis
      using "6.prems" vj unquote_valid [OF k] "6.IH"(2) q k c j e by auto
  qed
qed simp_all

lemma parse_json_valid: "parse_json s = Some j \<Longrightarrow> valid_json j"
  by (auto simp: parse_json_def dest: parse_valid(1) split: option.splits if_splits simp del: parse_value.simps)

text \<open>What every step of a decoder keeps on valid input holds of its result.\<close>

lemma dec_members_keeps:
  assumes "dec_members upd ms x = Some y" and "list_all (\<lambda>(k, j). valid_utf8 k \<and> valid_json j) ms" and "P x"
    and "\<And>k j x x'. upd k j x = Some x' \<Longrightarrow> valid_json j \<Longrightarrow> P x \<Longrightarrow> P x'"
  shows "P y"
  using assms(1-3)
proof (induction ms arbitrary: x)
  case (Cons m ms)
  obtain k j where m: "m = (k, j)" by (cases m)
  obtain z where z: "upd k j x = Some z" "dec_members upd ms z = Some y"
    using Cons(2) by (auto simp: m bind_eq_Some_conv)
  show ?case using Cons(1) [OF z(2)] assms(4) [OF z(1)] Cons(3,4) by (simp add: m)
qed simp

lemma dec_struct_keeps:
  assumes "dec_struct upd j x = Some y" and "valid_json j" and "P x"
    and "\<And>k j x x'. upd k j x = Some x' \<Longrightarrow> valid_json j \<Longrightarrow> P x \<Longrightarrow> P x'"
  shows "P y"
  using assms(1,2,3) dec_members_keeps [of upd _ x y P] assms(4) by (cases j) (auto simp: dec_struct_def)

lemma unmarshal_keeps:
  assumes "unmarshal upd b x = Some y" and "P x"
    and "\<And>k j x x'. upd k j x = Some x' \<Longrightarrow> valid_json j \<Longrightarrow> P x \<Longrightarrow> P x'"
  shows "P y"
  using assms dec_struct_keeps [of upd _ x y P] parse_json_valid by (auto simp: unmarshal_def bind_eq_Some_conv)

lemma valid_utf8_Nil [simp]: "valid_utf8 []"
  by (simp add: valid_utf8.simps [of "[]"])

lemma dec_string_valid: "dec_string j old = Some s \<Longrightarrow> valid_json j \<Longrightarrow> valid_utf8 old \<Longrightarrow> valid_utf8 s"
  by (auto simp: dec_string_def split: json.splits)

lemma dec_uint_bound: "dec_uint bound j old = Some n \<Longrightarrow> old < bound \<Longrightarrow> n < bound"
  by (auto simp: dec_uint_def split: json.splits if_splits)

end
