(* ===== verification/Raft_Applier_Laws.thy ===== *)
theory Raft_Applier_Laws
  imports Raft_Leader
begin

text \<open>
  The applier: its invariant against everything that may run while it has given the lock up,
  the batches it applies, and, for any state machine that keeps the contract
  \<open>state_machine\<close>, that the machine always reflects the committed history up to
  \<open>lastApplied\<close>, through snapshots and restores.
\<close>

section \<open>The invariant\<close>

text \<open>How far the state machine will have come once the call in progress is done.\<close>

definition reaching :: "applierPC \<Rightarrow> 'd RaftNode \<Rightarrow> nat" where
  "reaching pc rn =
     (case pc of
        Restoring s \<Rightarrow> LastIncludedIndex s
      | Applying b \<Rightarrow> lastApplied rn + length b
      | _ \<Rightarrow> lastApplied rn)"

text \<open>
  The entries that are compacted away are applied already, or about to be, or covered by the
  snapshot that waits for the applier.
\<close>

definition covered :: "nat \<Rightarrow> 'd RaftNode \<Rightarrow> bool" where
  "covered n rn \<longleftrightarrow> log_base (log rn) \<le> n \<or>
     (\<exists>s. pendingSnapshot rn = Some s \<and> log_base (log rn) \<le> LastIncludedIndex s)"

definition pc_ok :: "applierPC \<Rightarrow> 'd RaftNode \<Rightarrow> bool" where
  "pc_ok pc rn \<longleftrightarrow>
     (case pc of
        Restoring s \<Rightarrow> lastApplied rn < LastIncludedIndex s
      | Serializing i t \<Rightarrow> i = lastApplied rn \<and> SnapshotStore (cfg rn) \<noteq> None
      | _ \<Rightarrow> True)"

definition applier_ok :: "('d, 's) Applier \<Rightarrow> bool" where
  "applier_ok a \<longleftrightarrow> wf_node (anode a) \<and> reaching (apc a) (anode a) \<le> commitIndex (anode a) \<and>
     covered (reaching (apc a) (anode a)) (anode a) \<and> pc_ok (apc a) (anode a) \<and>
     (\<forall>s. pendingSnapshot (anode a) = Some s \<longrightarrow> LastIncludedIndex s \<le> commitIndex (anode a))"

section \<open>Batches\<close>

definition committed_batch :: "'d RaftNode \<Rightarrow> LogEntry list" where
  "committed_batch rn = map (log_entry (log rn)) [lastApplied rn + 1..<commitIndex rn + 1]"

lemma batch_eq:
  assumes "wf_log (log rn)" and "log_base (log rn) \<le> lastApplied rn" and "commitIndex rn \<le> log_last (log rn)"
  shows "take (commitIndex rn - lastApplied rn) (drop (lastApplied rn + 1 - log_base (log rn)) (log rn)) =
         committed_batch rn"
proof (rule nth_equalityI)
  have len: "length (log rn) = log_last (log rn) - log_base (log rn) + 1"
    by (rule wf_log_length [OF assms(1)])
  show "length (take (commitIndex rn - lastApplied rn) (drop (lastApplied rn + 1 - log_base (log rn)) (log rn))) =
      length (committed_batch rn)"
    using assms(2,3) by (auto simp: committed_batch_def len)
  fix k
  assume "k < length (take (commitIndex rn - lastApplied rn)
    (drop (lastApplied rn + 1 - log_base (log rn)) (log rn)))"
  then have k: "k < commitIndex rn - lastApplied rn" by simp
  then have "lastApplied rn + 1 - log_base (log rn) + k < length (log rn)"
    using assms(2,3) by (simp add: len)
  moreover have "lastApplied rn + 1 + k - log_base (log rn) = lastApplied rn + 1 - log_base (log rn) + k"
    using assms(2) by simp
  ultimately show "take (commitIndex rn - lastApplied rn)
      (drop (lastApplied rn + 1 - log_base (log rn)) (log rn)) ! k = committed_batch rn ! k"
    using k by (simp add: committed_batch_def log_entry_def del: upt_Suc)
qed

lemma applierLoop_apply:
  assumes wf: "wf_node rn" and pend: "pendingSnapshot rn = None" and cov: "log_base (log rn) \<le> lastApplied rn"
    and work: "lastApplied rn < commitIndex rn" and run: "\<not> stopped rn"
  shows "applierLoop rn = Inr (Applying (committed_batch rn), rn)"
proof -
  note wl = wf_node_ids(2) [OF wf] and cl = wf_node_ids(5) [OF wf]
  have "u64_add (lastApplied rn) 1 = lastApplied rn + 1"
    using work cl wf_log_last_bound [OF wl] by (intro u64_add_small) simp
  moreover have "entriesFrom rn (lastApplied rn + 1) =
      Inr (drop (lastApplied rn + 1 - log_base (log rn)) (log rn))"
    using cov work cl by (intro entriesFrom_wf [OF wl]) simp_all
  moreover have "commitIndex rn - lastApplied rn \<le>
      length (drop (lastApplied rn + 1 - log_base (log rn)) (log rn))"
    using cov work cl wf_log_length [OF wl] by simp
  ultimately show ?thesis
    using pend work run batch_eq [OF wl cov cl]
    by (simp add: applierLoop_def go_slice_to_in u64_sub_ge)
qed

lemma committed_batch_length: "length (committed_batch rn) = commitIndex rn - lastApplied rn"
  by (auto simp: committed_batch_def)

section \<open>Every step keeps the invariant\<close>

definition applier_panic :: "('d, 's) Applier \<Rightarrow> panic \<times> 'd \<Rightarrow> bool" where
  "applier_panic a = (\<lambda>(p, d). store_panic p \<or> (\<exists>e. p = SerializeSnapshot e \<or> p = RestoreSnapshot e) \<or>
     p = NilDereference \<and> \<not> stateMachine (anode a) \<or>
     p = RunTime IndexOutOfRange \<and> pendingSnapshot (anode a) \<noteq> None)"

lemma applierLoop_ok:
  assumes ok: "applier_ok a" and pc: "apc a = AtLoop"
  shows "\<exists>pc' rn'. applierLoop (anode a) = Inr (pc', rn') \<and> applier_ok (a\<lparr>apc := pc', anode := rn'\<rparr>)"
proof -
  let ?rn = "anode a"
  have wf: "wf_node ?rn" and cov: "covered (lastApplied ?rn) ?rn"
    using ok pc by (simp_all add: applier_ok_def reaching_def)
  consider (idle) "pendingSnapshot ?rn = None \<and> lastApplied ?rn \<ge> commitIndex ?rn \<or> stopped ?rn"
    | (snap) s where "pendingSnapshot ?rn = Some s" "\<not> stopped ?rn"
    | (batch) "pendingSnapshot ?rn = None" "lastApplied ?rn < commitIndex ?rn" "\<not> stopped ?rn"
    by fastforce
  then show ?thesis
  proof cases
    case idle
    then have "\<exists>pc'. applierLoop ?rn = Inr (pc', ?rn) \<and> pc' \<in> {AtLoop, Exited}"
      by (auto simp: applierLoop_def)
    then show ?thesis
      using ok pc by (auto simp: applier_ok_def reaching_def pc_ok_def)
  next
    case snap
    have wf': "wf_node (?rn\<lparr>pendingSnapshot := None\<rparr>)"
      using wf by (simp add: wf_node_def progress_ok_def)
    show ?thesis
    proof (cases "LastIncludedIndex s > lastApplied ?rn")
      case True
      then have "applierLoop ?rn = Inr (Restoring s, ?rn\<lparr>pendingSnapshot := None\<rparr>)"
        using snap by (simp add: applierLoop_def)
      then show ?thesis
        using ok pc snap True wf' cov
        by (auto simp: applier_ok_def reaching_def pc_ok_def covered_def)
    next
      case False
      then have "applierLoop ?rn = Inr (AtLoop, ?rn\<lparr>pendingSnapshot := None\<rparr>)"
        using snap by (simp add: applierLoop_def)
      then show ?thesis
        using ok pc snap False wf' cov
        by (auto simp: applier_ok_def reaching_def pc_ok_def covered_def)
    qed
  next
    case batch
    have "log_base (log ?rn) \<le> lastApplied ?rn" using cov batch(1) by (simp add: covered_def)
    then have "applierLoop ?rn = Inr (Applying (committed_batch ?rn), ?rn)"
      using applierLoop_apply [OF wf] batch by blast
    then show ?thesis
      using ok pc batch wf wf_node_ids(4) [OF wf]
      by (auto simp: applier_ok_def reaching_def pc_ok_def covered_def committed_batch_length)
  qed
qed

lemma maybeSnapshot_begin_ok:
  assumes wf: "wf_log (log rn)" and le: "lastApplied rn \<le> log_last (log rn)"
  shows "ensures (\<lambda>(p, d). p = RunTime IndexOutOfRange \<and> lastApplied rn < log_base (log rn))
    (\<lambda>pc. pc = AtLoop \<or> SnapshotStore (cfg rn) \<noteq> None \<and>
       pc = Serializing (lastApplied rn) (log_term (log rn) (lastApplied rn)))
    (maybeSnapshot_begin rn)"
proof (cases "log_base (log rn) \<le> lastApplied rn")
  case True
  then show ?thesis
    using termAt_wf [OF wf True le] baseIndex_wf [OF wf] by (simp add: maybeSnapshot_begin_def)
next
  case False
  then show ?thesis
    using termAt_below_base [OF wf] baseIndex_wf [OF wf] by (simp add: maybeSnapshot_begin_def)
qed

lemma maybeSnapshot_finish_ok:
  assumes wf: "wf_node rn" and ss: "SnapshotStore (cfg rn) \<noteq> None"
  shows "ensures (\<lambda>(p, d). store_panic p \<or> (\<exists>e. p = SerializeSnapshot e))
    (\<lambda>rn'. \<exists>d. rn' = rn\<lparr>disk := d, log := compacted i t (log rn)\<rparr>)
    (maybeSnapshot_finish i t ser rn)"
proof (cases ser)
  case (Inl e)
  then show ?thesis by (simp add: maybeSnapshot_finish_def)
next
  case (Inr data)
  note wl = wf_node_ids(2) [OF wf]
  show ?thesis
  proof (cases "i \<le> log_base (log rn)")
    case True
    have "rn = rn\<lparr>disk := disk rn, log := compacted i t (log rn)\<rparr>"
      using True by (simp add: compacted_def)
    moreover have eq: "maybeSnapshot_finish i t ser rn = Inr rn"
      using True baseIndex_wf [OF wl] by (simp add: maybeSnapshot_finish_def Inr)
    ultimately show ?thesis unfolding eq ensures_simps by blast
  next
    case False
    obtain s where s: "SnapshotStore (cfg rn) = Some s" using ss by blast
    obtain d e where de: "SaveSnapshot s \<lparr>LastIncludedIndex = i, LastIncludedTerm = t, Data = data\<rparr> (disk rn) = (d, e)"
      by fastforce
    show ?thesis
    proof (cases e)
      case None
      have "maybeSnapshot_finish i t ser rn = compactLogLocked i t (rn\<lparr>disk := d\<rparr>)"
        using False baseIndex_wf [OF wl] s de None by (simp add: maybeSnapshot_finish_def Inr)
      moreover have "ensures stops_safely
          (\<lambda>rn'. \<exists>d'. rn' = rn\<lparr>disk := d\<rparr>\<lparr>disk := d', log := compacted i t (log (rn\<lparr>disk := d\<rparr>))\<rparr>)
          (compactLogLocked i t (rn\<lparr>disk := d\<rparr>))"
        by (rule compactLogLocked_ensures) (simp add: wl)
      ultimately show ?thesis by (auto elim!: ensures_mono)
    next
      case (Some x)
      then show ?thesis
        using False baseIndex_wf [OF wl] s de by (simp add: maybeSnapshot_finish_def Inr)
    qed
  qed
qed

lemma wf_node_applied:
  "wf_node rn \<Longrightarrow> n \<le> commitIndex rn \<Longrightarrow> wf_node (rn\<lparr>lastApplied := n\<rparr>)"
  by (simp add: wf_node_def progress_ok_def)

lemma wf_node_compacted:
  assumes wf: "wf_node rn" and i: "i \<le> commitIndex rn"
  shows "wf_node (rn\<lparr>disk := d, log := compacted i t (log rn)\<rparr>)"
proof -
  note wl = wf_node_ids(2) [OF wf]
  have il: "i \<le> log_last (log rn)" using i wf_node_ids(5) [OF wf] by simp
  show ?thesis
    using wf i wf_log_compacted [OF wl il] log_base_compacted [of i t "log rn"] log_last_compacted [OF wl il]
    by (simp add: wf_node_def progress_ok_def)
qed

lemma applying_step:
  assumes ok: "applier_ok a" and pc: "apc a = Applying b"
  shows "u64_add (lastApplied (anode a)) (length b) = lastApplied (anode a) + length b"
    and "wf_node ((anode a)\<lparr>lastApplied := lastApplied (anode a) + length b\<rparr>)"
proof -
  have wf: "wf_node (anode a)" and le: "lastApplied (anode a) + length b \<le> commitIndex (anode a)"
    using ok pc by (simp_all add: applier_ok_def reaching_def)
  show "u64_add (lastApplied (anode a)) (length b) = lastApplied (anode a) + length b"
    using le wf_node_ids(5) [OF wf] wf_log_last_bound [OF wf_node_ids(2) [OF wf]]
    by (intro u64_add_small) simp
  show "wf_node ((anode a)\<lparr>lastApplied := lastApplied (anode a) + length b\<rparr>)"
    by (rule wf_node_applied [OF wf le])
qed

lemma applierStep_ok:
  assumes ok: "applier_ok a"
  shows "ensures (applier_panic a) applier_ok (applierStep ops a)"
proof (cases "apc a")
  case AtLoop
  then show ?thesis
    using applierLoop_ok [OF ok AtLoop] by (auto simp: applierStep_def)
next
  case (Restoring s)
  have wf: "wf_node (anode a)" and le: "LastIncludedIndex s \<le> commitIndex (anode a)"
    using ok Restoring by (simp_all add: applier_ok_def reaching_def)
  have "applier_ok (a\<lparr>apc := AtLoop, machine := sm, anode := (anode a)\<lparr>lastApplied := LastIncludedIndex s\<rparr>\<rparr>)" for sm
    using ok Restoring wf_node_applied [OF wf le]
    by (auto simp: applier_ok_def reaching_def pc_ok_def covered_def)
  then show ?thesis
    using Restoring by (auto simp: applierStep_def applier_panic_def Let_def split: prod.split option.split)
next
  case (Applying b)
  let ?rn = "(anode a)\<lparr>lastApplied := lastApplied (anode a) + length b\<rparr>"
  note add = applying_step(1) [OF ok Applying] and wf = applying_step(2) [OF ok Applying]
  have cov: "covered (lastApplied ?rn) ?rn"
    using ok Applying by (simp add: applier_ok_def reaching_def covered_def)
  have snap: "\<forall>s. pendingSnapshot ?rn = Some s \<longrightarrow> LastIncludedIndex s \<le> commitIndex ?rn"
    using ok by (simp add: applier_ok_def)
  have "ensures (\<lambda>(p, d). p = RunTime IndexOutOfRange \<and> lastApplied ?rn < log_base (log ?rn))
      (\<lambda>pc. pc = AtLoop \<or> SnapshotStore (cfg ?rn) \<noteq> None \<and>
         pc = Serializing (lastApplied ?rn) (log_term (log ?rn) (lastApplied ?rn)))
      (maybeSnapshot_begin ?rn)"
    using wf_node_ids(5,6) [OF wf] by (intro maybeSnapshot_begin_ok wf_node_ids(2) [OF wf]) simp
  then have "ensures (applier_panic a)
      (\<lambda>pc. pc = AtLoop \<or> SnapshotStore (cfg ?rn) \<noteq> None \<and>
         pc = Serializing (lastApplied ?rn) (log_term (log ?rn) (lastApplied ?rn)))
      (maybeSnapshot_begin ?rn)"
    by (rule ensures_mono) (use cov in \<open>auto simp: applier_panic_def covered_def\<close>)
  then have "ensures (applier_panic a) applier_ok
      (bind_res (maybeSnapshot_begin ?rn) (\<lambda>pc. Inr (a\<lparr>apc := pc, machine := sm, anode := ?rn\<rparr>)))" for sm
    by (rule ensures_bind)
      (use wf cov snap wf_node_ids(6) [OF wf] in \<open>auto simp: applier_ok_def reaching_def pc_ok_def\<close>)
  then show ?thesis
    using Applying by (simp add: applierStep_def Let_def add)
next
  case (Serializing i t)
  have wf: "wf_node (anode a)" and i: "i = lastApplied (anode a)" and ss: "SnapshotStore (cfg (anode a)) \<noteq> None"
    and cov: "covered (lastApplied (anode a)) (anode a)"
    using ok Serializing by (simp_all add: applier_ok_def reaching_def pc_ok_def)
  have il: "i \<le> commitIndex (anode a)" using wf_node_ids(6) [OF wf] i by simp
  let ?rn = "\<lambda>d. (anode a)\<lparr>disk := d, log := compacted i t (log (anode a))\<rparr>"
  have keep: "applier_ok (a\<lparr>apc := AtLoop, anode := ?rn d\<rparr>)" for d
    using ok cov i wf_node_compacted [OF wf il, where d = d and t = t] log_base_compacted [of i t "log (anode a)"] il
    by (auto simp: applier_ok_def reaching_def pc_ok_def covered_def)
  have "ensures (applier_panic a) (\<lambda>rn'. \<exists>d. rn' = ?rn d) (maybeSnapshot_finish i t ser (anode a))" for ser
    by (rule ensures_mono [OF maybeSnapshot_finish_ok [OF wf ss]]) (auto simp: applier_panic_def)
  then have "ensures (applier_panic a) applier_ok
      (bind_res (maybeSnapshot_finish i t ser (anode a)) (\<lambda>rn. Inr (a\<lparr>apc := AtLoop, anode := rn\<rparr>)))" for ser
    by (rule ensures_bind) (use keep in auto)
  then show ?thesis
    using Serializing by (simp add: applierStep_def Let_def)
next
  case Exited
  then show ?thesis using ok by (simp add: applierStep_def Let_def)
qed

text \<open>
  What runs while the applier has given the lock up keeps the invariant as well: an operation
  that leaves the boundary, the applied index and the waiting snapshot alone and never lowers
  the commit index, or the installation of a snapshot.
\<close>

lemma applier_ok_frame:
  assumes ok: "applier_ok a" and wf: "wf_node rn'" and c: "cfg rn' = cfg (anode a)"
    and la: "lastApplied rn' = lastApplied (anode a)" and ci: "commitIndex (anode a) \<le> commitIndex rn'"
    and b: "log_base (log rn') = log_base (log (anode a))" and ps: "pendingSnapshot rn' = pendingSnapshot (anode a)"
  shows "applier_ok (a\<lparr>anode := rn'\<rparr>)"
proof -
  have r: "reaching (apc a) rn' = reaching (apc a) (anode a)"
    using la by (simp add: reaching_def split: applierPC.split)
  then show ?thesis
    using assms by (auto simp: applier_ok_def covered_def pc_ok_def split: applierPC.splits)
qed

lemma applier_ok_append:
  assumes ok: "applier_ok a" and args: "wf_aea args" and post: "hae_post args (anode a) reply rn'"
  shows "applier_ok (a\<lparr>anode := rn'\<rparr>)"
proof (cases "stopped (anode a) \<or> aea_Term args < currentTerm (anode a)")
  case True
  then show ?thesis using ok post by (simp add: hae_post_def)
next
  case False
  have wf: "wf_node (anode a)" using ok by (simp add: applier_ok_def)
  obtain r where r: "contacted (aea_Term args) (aea_LeaderID args) (anode a) r" "append_post args r reply rn'"
    using post False by (auto simp: hae_post_def)
  have same: "log r = log (anode a)" "commitIndex r = commitIndex (anode a)" "lastApplied r = lastApplied (anode a)"
    "pendingSnapshot r = pendingSnapshot (anode a)" "cfg r = cfg (anode a)"
    using r(1) by (auto simp: contacted_def same_log_def same_ident_def)
  have "log_base (log rn') = log_base (log r)"
    using r(2) walk_log_wf(2) [OF walkable_aea [OF _ args]] wf_node_ids(2) [OF wf] same(1)
    by (auto simp: append_post_def split: if_splits)
  moreover have "commitIndex r \<le> commitIndex rn'"
    using r(2) by (auto simp: append_post_def follower_commit_def split: if_splits)
  ultimately show ?thesis
    using r(2) same hae_post_wf [OF wf args post]
    by (intro applier_ok_frame [OF ok]) (simp_all add: append_post_def same_ident_def)
qed

lemma applier_ok_install:
  assumes ok: "applier_ok a" and args: "wf_isa args" and post: "his_post args (anode a) reply rn'"
  shows "applier_ok (a\<lparr>anode := rn'\<rparr>)"
proof (cases "stopped (anode a) \<or> isa_Term args < currentTerm (anode a)")
  case True
  then show ?thesis using ok post by (simp add: his_post_def)
next
  case False
  have wf: "wf_node (anode a)" using ok by (simp add: applier_ok_def)
  note wf' = his_post_wf [OF wf args post]
  obtain r where r: "contacted (isa_Term args) (isa_LeaderID args) (anode a) r" "install_post args r rn'"
    using post False by (auto simp: his_post_def)
  have same: "log r = log (anode a)" "commitIndex r = commitIndex (anode a)" "lastApplied r = lastApplied (anode a)"
    "pendingSnapshot r = pendingSnapshot (anode a)" "cfg r = cfg (anode a)"
    using r(1) by (auto simp: contacted_def same_log_def same_ident_def)
  show ?thesis
  proof (cases "isa_LastIncludedIndex args \<le> commitIndex r")
    case True
    then show ?thesis
      using r(2) same wf'
      by (intro applier_ok_frame [OF ok]) (simp_all add: install_post_def same_log_def same_ident_def)
  next
    case grow: False
    have new: "log rn' = install_log args (log r)" "commitIndex rn' = isa_LastIncludedIndex args"
      "lastApplied rn' = lastApplied (anode a)" "cfg rn' = cfg (anode a)"
      "\<exists>s. pendingSnapshot rn' = Some s \<and> LastIncludedIndex s = isa_LastIncludedIndex args"
      using r(2) grow same by (simp_all add: install_post_def same_ident_def)
    have "reaching (apc a) rn' = reaching (apc a) (anode a)"
      using new(3) by (simp add: reaching_def split: applierPC.split)
    moreover have "log_base (log rn') = isa_LastIncludedIndex args"
      using install_log_wf(2) wf_node_ids(2) [OF wf] args same(1) new(1) by simp
    moreover have "pc_ok (apc a) rn' = pc_ok (apc a) (anode a)"
      using new(3,4) by (simp add: pc_ok_def split: applierPC.split)
    ultimately show ?thesis
      using ok wf' new grow same(2) by (auto simp: applier_ok_def covered_def)
  qed
qed

section \<open>State machines\<close>

text \<open>
  What the applier relies on: \<open>Apply\<close> is a function of the replicated part of the machine's
  state (its \<open>view\<close>) and the entry alone, and a snapshot restores that part, whatever the
  machine that restores it held before.
\<close>

locale state_machine =
  fixes ops :: "'s StateMachineOps"
    and view :: "'s \<Rightarrow> 'v"
    and vapply :: "LogEntry \<Rightarrow> 'v \<Rightarrow> 'v"
    and good :: "'s \<Rightarrow> bool"
  assumes apply_view: "good s \<Longrightarrow> view (sm_Apply ops e s) = vapply e (view s)"
    and apply_good: "good s \<Longrightarrow> good (sm_Apply ops e s)"
    and restore_snapshot: "good s \<Longrightarrow> good s' \<Longrightarrow> sm_Snapshot ops s = Inr b \<Longrightarrow>
      \<exists>s''. sm_Restore ops b s' = (s'', None) \<and> view s'' = view s \<and> good s''"

text \<open>The committed history \<open>h\<close>: entry \<open>i\<close> of the log is element \<open>i - 1\<close>.\<close>

definition agrees :: "LogEntry list \<Rightarrow> 'd RaftNode \<Rightarrow> bool" where
  "agrees h rn \<longleftrightarrow> commitIndex rn \<le> length h \<and>
     (\<forall>i. log_base (log rn) < i \<and> i \<le> commitIndex rn \<longrightarrow> log_entry (log rn) i = h ! (i - 1))"

definition snapshot_of ::
  "'s StateMachineOps \<Rightarrow> ('s \<Rightarrow> 'v) \<Rightarrow> (LogEntry \<Rightarrow> 'v \<Rightarrow> 'v) \<Rightarrow> ('s \<Rightarrow> bool) \<Rightarrow> LogEntry list \<Rightarrow> 'v
   \<Rightarrow> Snapshot \<Rightarrow> bool" where
  "snapshot_of ops view vapply good h v0 snap \<longleftrightarrow>
     (\<exists>st. good st \<and> sm_Snapshot ops st = Inr (Data snap) \<and>
        view st = fold vapply (take (LastIncludedIndex snap) h) v0)"

definition reflects ::
  "'s StateMachineOps \<Rightarrow> ('s \<Rightarrow> 'v) \<Rightarrow> (LogEntry \<Rightarrow> 'v \<Rightarrow> 'v) \<Rightarrow> ('s \<Rightarrow> bool) \<Rightarrow> LogEntry list \<Rightarrow> 'v
   \<Rightarrow> ('d, 's) Applier \<Rightarrow> bool" where
  "reflects ops view vapply good h v0 a \<longleftrightarrow>
     good (machine a) \<and> view (machine a) = fold vapply (take (lastApplied (anode a)) h) v0 \<and>
     agrees h (anode a) \<and>
     (\<forall>s. pendingSnapshot (anode a) = Some s \<or> apc a = Restoring s \<longrightarrow>
        snapshot_of ops view vapply good h v0 s) \<and>
     (\<forall>b. apc a = Applying b \<longrightarrow> b = take (length b) (drop (lastApplied (anode a)) h))"

lemma batch_of_history:
  assumes ag: "agrees h rn" and "log_base (log rn) \<le> lastApplied rn"
  shows "committed_batch rn = take (commitIndex rn - lastApplied rn) (drop (lastApplied rn) h)"
proof (rule nth_equalityI)
  have "commitIndex rn \<le> length h" using ag by (simp add: agrees_def)
  then show "length (committed_batch rn) = length (take (commitIndex rn - lastApplied rn) (drop (lastApplied rn) h))"
    by (simp add: committed_batch_length)
  fix k
  assume "k < length (committed_batch rn)"
  then have k: "lastApplied rn + 1 + k \<le> commitIndex rn" by (simp add: committed_batch_length)
  then have "committed_batch rn ! k = log_entry (log rn) (lastApplied rn + 1 + k)"
    by (simp add: committed_batch_def del: upt_Suc)
  also have "\<dots> = h ! (lastApplied rn + k)"
    using ag assms(2) k by (simp add: agrees_def)
  finally show "committed_batch rn ! k = take (commitIndex rn - lastApplied rn) (drop (lastApplied rn) h) ! k"
    using k \<open>commitIndex rn \<le> length h\<close> by simp
qed

lemma agrees_compacted:
  assumes "wf_node rn" and "agrees h rn" and "i \<le> commitIndex rn"
  shows "agrees h (rn\<lparr>disk := d, log := compacted i t (log rn)\<rparr>)"
proof (cases "i \<le> log_base (log rn)")
  case False
  have "log_entry (compacted i t (log rn)) k = log_entry (log rn) k" if "i < k" "k \<le> commitIndex rn" for k
    using log_entry_compacted [of "log rn" i k t] False that wf_node_ids(2,5) [OF assms(1)] by simp
  then show ?thesis
    using assms False by (auto simp: agrees_def log_base_compacted)
qed (use assms in \<open>simp add: agrees_def compacted_def\<close>)

lemma take_extend: "b = take (length b) (drop n h) \<Longrightarrow> take (n + length b) h = take n h @ b"
  by (metis take_add)

context state_machine
begin

lemma fold_apply:
  "good s \<Longrightarrow> good (fold (sm_Apply ops) b s) \<and> view (fold (sm_Apply ops) b s) = fold vapply b (view s)"
  by (induction b arbitrary: s) (simp_all add: apply_view apply_good)

lemma reflects_loop:
  assumes ok: "applier_ok a" and pc: "apc a = AtLoop" and ref: "reflects ops view vapply good h v0 a"
    and step: "applierLoop (anode a) = Inr (pc', rn')"
  shows "reflects ops view vapply good h v0 (a\<lparr>apc := pc', anode := rn'\<rparr>)"
proof -
  let ?rn = "anode a"
  have wf: "wf_node ?rn" and cov: "covered (lastApplied ?rn) ?rn"
    using ok pc by (simp_all add: applier_ok_def reaching_def)
  consider (idle) "pendingSnapshot ?rn = None \<and> lastApplied ?rn \<ge> commitIndex ?rn \<or> stopped ?rn"
    | (snap) s where "pendingSnapshot ?rn = Some s" "\<not> stopped ?rn"
    | (batch) "pendingSnapshot ?rn = None" "lastApplied ?rn < commitIndex ?rn" "\<not> stopped ?rn"
    by fastforce
  then show ?thesis
  proof cases
    case idle
    then have "rn' = ?rn \<and> (pc' = AtLoop \<or> pc' = Exited)"
      using step by (auto simp: applierLoop_def split: if_splits)
    then show ?thesis using ref pc by (auto simp: reflects_def)
  next
    case snap
    then have "rn' = ?rn\<lparr>pendingSnapshot := None\<rparr> \<and> (pc' = AtLoop \<or> pc' = Restoring s)"
      using step by (auto simp: applierLoop_def Let_def split: if_splits)
    then show ?thesis using ref snap(1) pc by (auto simp: reflects_def agrees_def)
  next
    case batch
    have base: "log_base (log ?rn) \<le> lastApplied ?rn" using cov batch(1) by (simp add: covered_def)
    then have "pc' = Applying (committed_batch ?rn)" "rn' = ?rn"
      using applierLoop_apply [OF wf batch(1) base batch(2,3)] step by simp_all
    moreover have "committed_batch ?rn = take (length (committed_batch ?rn)) (drop (lastApplied ?rn) h)"
      using batch_of_history [OF _ base] ref by (metis committed_batch_length reflects_def)
    ultimately show ?thesis using ref batch(1) by (simp add: reflects_def)
  qed
qed

lemma reflects_step:
  assumes ok: "applier_ok a" and ref: "reflects ops view vapply good h v0 a" and sm: "stateMachine (anode a)"
    and step: "applierStep ops a = Inr a'"
  shows "reflects ops view vapply good h v0 a'"
proof (cases "apc a")
  case AtLoop
  then obtain pc' rn' where "applierLoop (anode a) = Inr (pc', rn')" "a' = a\<lparr>apc := pc', anode := rn'\<rparr>"
    using step by (auto simp: applierStep_def bind_res_Inr_iff)
  then show ?thesis using reflects_loop [OF ok AtLoop ref] by simp
next
  case (Restoring s)
  then obtain st where st: "good st" "sm_Snapshot ops st = Inr (Data s)"
      "view st = fold vapply (take (LastIncludedIndex s) h) v0"
    using ref by (auto simp: reflects_def snapshot_of_def)
  obtain m where m: "sm_Restore ops (Data s) (machine a) = (m, None)" "view m = view st" "good m"
    using restore_snapshot [OF st(1) _ st(2), of "machine a"] ref by (auto simp: reflects_def)
  then have "a' = a\<lparr>apc := AtLoop, machine := m, anode := (anode a)\<lparr>lastApplied := LastIncludedIndex s\<rparr>\<rparr>"
    using step Restoring sm by (simp add: applierStep_def Let_def)
  then show ?thesis using ref m st(3) by (simp add: reflects_def agrees_def)
next
  case (Applying b)
  let ?la = "lastApplied (anode a) + length b"
  note add = applying_step(1) [OF ok Applying]
  have b: "b = take (length b) (drop (lastApplied (anode a)) h)"
    using ref Applying by (simp add: reflects_def)
  obtain pc' where pc': "maybeSnapshot_begin ((anode a)\<lparr>lastApplied := ?la\<rparr>) = Inr pc'"
      "a' = a\<lparr>apc := pc', machine := fold (sm_Apply ops) b (machine a), anode := (anode a)\<lparr>lastApplied := ?la\<rparr>\<rparr>"
    using step Applying sm by (auto simp: applierStep_def Let_def add bind_res_Inr_iff)
  have "pc' = AtLoop \<or> (\<exists>i t. pc' = Serializing i t)"
    using pc'(1) by (auto simp: maybeSnapshot_begin_def bind_res_Inr_iff split: if_splits)
  moreover have "view (fold (sm_Apply ops) b (machine a)) = fold vapply (take ?la h) v0"
      "good (fold (sm_Apply ops) b (machine a))"
    using fold_apply [of "machine a" b] ref take_extend [OF b] by (simp_all add: reflects_def)
  ultimately show ?thesis
    using ref by (auto simp: reflects_def agrees_def pc'(2))
next
  case (Serializing i t)
  have wf: "wf_node (anode a)" and i: "i \<le> commitIndex (anode a)" and ss: "SnapshotStore (cfg (anode a)) \<noteq> None"
    using ok Serializing wf_node_ids(6) [of "anode a"] by (simp_all add: applier_ok_def reaching_def pc_ok_def)
  obtain rn' where rn': "maybeSnapshot_finish i t (sm_Snapshot ops (machine a)) (anode a) = Inr rn'"
      "a' = a\<lparr>apc := AtLoop, anode := rn'\<rparr>"
    using step Serializing by (auto simp: applierStep_def Let_def bind_res_Inr_iff)
  obtain d where "rn' = (anode a)\<lparr>disk := d, log := compacted i t (log (anode a))\<rparr>"
    using maybeSnapshot_finish_ok [OF wf ss, of i t "sm_Snapshot ops (machine a)"] rn'(1) by auto
  then show ?thesis
    using ref agrees_compacted [OF wf _ i] by (simp add: reflects_def rn'(2))
next
  case Exited
  then show ?thesis using step ref by (simp add: applierStep_def Let_def)
qed

end

end
