(* ===== verification/Kv_Laws.thy ===== *)
theory Kv_Laws
  imports Kv Go_Json_Laws Raft_Applier_Laws
begin

text \<open>
  Laws of package \<open>kv\<close>: commands and snapshots survive their encoding, the server keeps the
  contract \<open>state_machine\<close> of the applier, and what a request that waits for its entry may hear.
\<close>

section \<open>Encodings\<close>

definition wf_command :: "KvCommand \<Rightarrow> bool" where
  "wf_command c \<longleftrightarrow> Op c \<in> {OpPut, OpDelete} \<and> valid_utf8 (Key c) \<and> valid_utf8 (Value c)"

lemma kv_field_names [simp]:
  "valid_utf8 ''op''" "valid_utf8 ''key''" "valid_utf8 ''value''" "valid_utf8 ''put''" "valid_utf8 ''delete''"
  by (rule valid_utf8_ascii; simp)+

lemma updCommand_fields [simp]:
  "updCommand ''op'' (JStr s) c = Some (c\<lparr>Op := s\<rparr>)"
  "updCommand ''key'' (JStr s) c = Some (c\<lparr>Key := s\<rparr>)"
  "updCommand ''value'' (JStr s) c = Some (c\<lparr>Value := s\<rparr>)"
  by (simp_all add: updCommand_def is_field_def)

lemma decode_marshal:
  assumes "wf_command c"
  shows "DecodeCommand (marshalCommand c) = Inr c"
proof -
  let ?ms = "[(''op'', JStr (Op c)), (''key'', JStr (Key c))] @
    (if Value c = [] then [] else [(''value'', JStr (Value c))])"
  have "list_all (\<lambda>(k, j). valid_utf8 k \<and> encodable j \<and> nesting j = 0) ?ms"
    using assms by (auto simp: wf_command_def OpPut_def OpDelete_def)
  then have "unmarshal updCommand (marshalCommand c) \<lparr>Op = [], Key = [], Value = []\<rparr> = Some c"
    unfolding marshalCommand_def by (subst unmarshal_object) simp_all
  then show ?thesis
    using assms by (auto simp: DecodeCommand_def wf_command_def)
qed

text \<open>A decoded command is one that encodes and decodes to itself.\<close>

lemma DecodeCommand_wf:
  assumes "DecodeCommand b = Inr c"
  shows "wf_command c"
proof -
  let ?z = "\<lparr>Op = [], Key = [], Value = []\<rparr>"
  have u: "unmarshal updCommand b ?z = Some c" and op: "Op c \<in> {OpPut, OpDelete}"
    using assms by (auto simp: DecodeCommand_def split: option.splits if_splits)
  have "valid_utf8 (Key c) \<and> valid_utf8 (Value c)"
    by (rule unmarshal_keeps [OF u])
      (auto simp: updCommand_def Let_def split: if_splits dest: dec_string_valid)
  then show ?thesis using op by (simp add: wf_command_def)
qed

section \<open>The store\<close>

definition wf_store :: "KvStore \<Rightarrow> bool" where
  "wf_store s \<longleftrightarrow> (case kvm s of
     None \<Rightarrow> False
   | Some m \<Rightarrow> distinct (map fst m) \<and> list_all (\<lambda>(k, v). valid_utf8 k \<and> valid_utf8 v) m)"

definition contents :: "KvStore \<Rightarrow> (string \<rightharpoonup> string)" where
  "contents s = (case kvm s of None \<Rightarrow> Map.empty | Some m \<Rightarrow> map_of m)"

definition command_effect :: "KvCommand \<Rightarrow> (string \<rightharpoonup> string) \<Rightarrow> (string \<rightharpoonup> string)" where
  "command_effect c m = (if Op c = OpPut then m(Key c \<mapsto> Value c) else m(Key c := None))"

lemma store_Get_contents:
  "store_Get k s = (case contents s k of None \<Rightarrow> ([], False) | Some v \<Rightarrow> (v, True))"
  by (simp add: store_Get_def contents_def split: option.split)

lemma valid_update:
  "list_all (\<lambda>(k, v). valid_utf8 k \<and> valid_utf8 v) m \<Longrightarrow> valid_utf8 k \<Longrightarrow> valid_utf8 v \<Longrightarrow>
   list_all (\<lambda>(k, v). valid_utf8 k \<and> valid_utf8 v) (AList.update k v m)"
  by (induction m) auto

lemma valid_delete:
  "list_all P m \<Longrightarrow> list_all P (AList.delete k m)"
  by (auto simp: AList.delete_eq list_all_iff)

lemma kv_apply_spec:
  assumes "wf_store s" and "wf_command c"
  shows "\<exists>s'. kv_apply c s = Inr s' \<and> wf_store s' \<and> contents s' = command_effect c (contents s)"
proof -
  obtain m where m: "kvm s = Some m" "distinct (map fst m)" "list_all (\<lambda>(k, v). valid_utf8 k \<and> valid_utf8 v) m"
    using assms(1) by (auto simp: wf_store_def split: option.splits)
  show ?thesis
  proof (cases "Op c = OpPut")
    case True
    then show ?thesis
      using m assms(2) distinct_update [OF m(2)] valid_update [OF m(3)]
      by (simp add: kv_apply_def wf_store_def contents_def command_effect_def wf_command_def update_conv')
  next
    case False
    then have "Op c = OpDelete" using assms(2) by (simp add: wf_command_def)
    then show ?thesis
      using False m distinct_delete [OF m(2)] valid_delete [OF m(3)]
      by (simp add: kv_apply_def wf_store_def contents_def command_effect_def delete_conv')
  qed
qed

lemma dec_map_strings:
  "dec_map (map (\<lambda>(k, v). (k, JStr v)) xs) m = Some (fold (\<lambda>(k, v). AList.update k v) xs m)"
  by (induction xs arbitrary: m) auto

lemma fold_update:
  assumes "distinct (map fst xs)" and "distinct (map fst m)"
    and "list_all (\<lambda>(k, v). valid_utf8 k \<and> valid_utf8 v) (xs @ m)"
  shows "map_of (fold (\<lambda>(k, v). AList.update k v) xs m) = map_of m ++ map_of xs"
    and "distinct (map fst (fold (\<lambda>(k, v). AList.update k v) xs m))"
    and "list_all (\<lambda>(k, v). valid_utf8 k \<and> valid_utf8 v) (fold (\<lambda>(k, v). AList.update k v) xs m)"
proof -
  have "map_of (fold (\<lambda>(k, v). AList.update k v) xs m) = map_of m ++ map_of xs \<and>
      distinct (map fst (fold (\<lambda>(k, v). AList.update k v) xs m)) \<and>
      list_all (\<lambda>(k, v). valid_utf8 k \<and> valid_utf8 v) (fold (\<lambda>(k, v). AList.update k v) xs m)"
    using assms
  proof (induction xs arbitrary: m)
    case (Cons x xs)
    obtain k v where x: "x = (k, v)" by (cases x)
    have "k \<notin> dom (map_of xs)" using Cons(2) by (simp add: x dom_map_of_conv_image_fst)
    then have "(map_of m)(k \<mapsto> v) ++ map_of xs = map_of m ++ (map_of xs)(k \<mapsto> v)"
      by (auto simp: map_add_def fun_eq_iff split: option.split)
    then show ?case
      using Cons(1) [of "AList.update k v m"] Cons(2-4) distinct_update [of m k v] valid_update [of m k v]
      by (simp add: x update_conv' fun_upd_def del: map_add_upd)
  qed simp
  then show "map_of (fold (\<lambda>(k, v). AList.update k v) xs m) = map_of m ++ map_of xs"
    and "distinct (map fst (fold (\<lambda>(k, v). AList.update k v) xs m))"
    and "list_all (\<lambda>(k, v). valid_utf8 k \<and> valid_utf8 v) (fold (\<lambda>(k, v). AList.update k v) xs m)"
    by blast+
qed

lemma map_of_sorted:
  "distinct (map fst m) \<Longrightarrow> map_of (sort_key fst m) = map_of m \<and> distinct (map fst (sort_key fst m))"
  by (metis distinct_map map_of_inject_set distinct_sort inj_on_def set_sort sort_key_simps)

lemma snapshot_roundtrip:
  assumes "wf_store s"
  shows "\<exists>t'. RestoreBytes (SnapshotBytes s) t = Inr t' \<and> wf_store t' \<and> contents t' = contents s"
proof -
  obtain m where m: "kvm s = Some m" "distinct (map fst m)" "list_all (\<lambda>(k, v). valid_utf8 k \<and> valid_utf8 v) m"
    using assms by (auto simp: wf_store_def split: option.splits)
  let ?xs = "sort_key fst m"
  let ?j = "JObj (map (\<lambda>(k, v). (k, JStr v)) ?xs)"
  have v: "list_all (\<lambda>(k, v). valid_utf8 k \<and> valid_utf8 v) ?xs" using m(3) by (simp add: list_all_iff)
  have "encodable ?j" using v by (auto simp: list_all_iff)
  moreover have "nesting (JObj (map (\<lambda>(k, v). (k, JStr v)) xs)) \<le> 1" for xs :: kvmap
    by (induction xs) auto
  ultimately have "parse_json (SnapshotBytes s) = Some ?j"
    unfolding SnapshotBytes_def m(1) option.simps
    by (intro parse_json_render) (simp_all add: maxNestingDepth_def)
  then have "RestoreBytes (SnapshotBytes s) t = Inr (t\<lparr>kvm := Some (fold (\<lambda>(k, v). AList.update k v) ?xs [])\<rparr>)"
    by (simp add: RestoreBytes_def unmarshalMap_def dec_map_strings)
  then show ?thesis
    using fold_update [of ?xs "[]"] map_of_sorted [OF m(2)] v m
    by (simp add: wf_store_def contents_def)
qed

section \<open>The server as a state machine\<close>

definition good_server :: "KvServer \<Rightarrow> bool" where
  "good_server s \<longleftrightarrow> \<not> dead s \<and> wf_store (kv_store s)"

definition server_view :: "KvServer \<Rightarrow> (string \<rightharpoonup> string)" where
  "server_view s = contents (kv_store s)"

text \<open>The effect of an entry on the replicated map; a command that does not decode has none.\<close>

definition entry_effect :: "LogEntry \<Rightarrow> (string \<rightharpoonup> string) \<Rightarrow> (string \<rightharpoonup> string)" where
  "entry_effect e m = (case DecodeCommand (Command e) of Inl _ \<Rightarrow> m | Inr c \<Rightarrow> command_effect c m)"

lemma fireWaiter_frame [simp]:
  "kv_store (fireWaiter e s) = kv_store s" "dead (fireWaiter e s) = dead s"
  "clientAddrs (fireWaiter e s) = clientAddrs s"
  by (simp_all add: fireWaiter_def send_def split: option.split)

lemma Apply_spec:
  assumes "good_server s"
  shows "\<exists>st. Apply e s = fireWaiter e (s\<lparr>kv_store := st\<rparr>) \<and> wf_store st \<and>
    contents st = entry_effect e (server_view s)"
proof (cases "DecodeCommand (Command e)")
  case (Inl x)
  have "s = s\<lparr>kv_store := kv_store s\<rparr>" by simp
  then show ?thesis
    using assms Inl by (intro exI [of _ "kv_store s"])
      (simp add: Apply_def good_server_def entry_effect_def server_view_def)
next
  case (Inr c)
  obtain st where "kv_apply c (kv_store s) = Inr st" "wf_store st" "contents st = command_effect c (contents (kv_store s))"
    using kv_apply_spec [OF _ DecodeCommand_wf [OF Inr]] assms by (auto simp: good_server_def)
  then show ?thesis
    using assms Inr
    by (intro exI [of _ st]) (simp add: Apply_def good_server_def entry_effect_def server_view_def)
qed

interpretation kv: state_machine kvOps server_view entry_effect good_server
proof
  fix s e
  assume "good_server s"
  from Apply_spec [OF this, of e] show "server_view (sm_Apply kvOps e s) = entry_effect e (server_view s)"
    by (auto simp: kvOps_def server_view_def)
  from Apply_spec [OF \<open>good_server s\<close>, of e] \<open>good_server s\<close> show "good_server (sm_Apply kvOps e s)"
    by (auto simp: kvOps_def good_server_def)
next
  fix s s' b
  assume "good_server s" "good_server s'" "sm_Snapshot kvOps s = Inr b"
  then show "\<exists>s''. sm_Restore kvOps b s' = (s'', None) \<and> server_view s'' = server_view s \<and> good_server s''"
    using snapshot_roundtrip [of "kv_store s" "kv_store s'"]
    by (auto simp: kvOps_def server_Snapshot_def server_Restore_def good_server_def server_view_def)
qed

section \<open>Requests that wait\<close>

text \<open>
  What happens to a server, in the order of its critical sections. \<open>Registered i t c\<close> is the
  registration of a request whose entry was proposed at index \<open>i\<close> in term \<open>t\<close>, with the
  channel \<open>c\<close> made for it; \<open>Cancelled i\<close> is the end of a context.
\<close>

datatype kv_event =
    Registered nat nat nat
  | Applied LogEntry
  | Cancelled nat
  | Restored bytes

primrec kv_step :: "kv_event \<Rightarrow> KvServer \<Rightarrow> KvServer" where
  "kv_step (Registered i t c) s = registerWaiter i t c s"
| "kv_step (Applied e) s = Apply e s"
| "kv_step (Cancelled i) s = snd (propose_cancel i s)"
| "kv_step (Restored b) s = fst (server_Restore b s)"

definition kv_run :: "kv_event list \<Rightarrow> KvServer \<Rightarrow> KvServer" where
  "kv_run = fold kv_step"

fun channels :: "kv_event list \<Rightarrow> nat list" where
  "channels [] = []"
| "channels (Registered i t c # es) = c # channels es"
| "channels (_ # es) = channels es"

text \<open>\<open>x\<close> happens before \<open>y\<close>.\<close>

definition precedes :: "kv_event \<Rightarrow> kv_event \<Rightarrow> kv_event list \<Rightarrow> bool" where
  "precedes x y es \<longleftrightarrow> (\<exists>xs ys zs. es = xs @ x # ys @ y # zs)"

text \<open>What justifies the result \<open>r\<close> on the channel \<open>c\<close>.\<close>

definition justified :: "kv_event list \<Rightarrow> nat \<Rightarrow> kv_error option \<Rightarrow> bool" where
  "justified es c r \<longleftrightarrow>
     (\<exists>i t. (r = None \<and> (\<exists>e. Index e = i \<and> Term e = t \<and> precedes (Registered i t c) (Applied e) es)) \<or>
       (r = Some NotLeader \<and>
         ((\<exists>e. Index e = i \<and> Term e \<noteq> t \<and> precedes (Registered i t c) (Applied e) es) \<or>
          (\<exists>t' c'. precedes (Registered i t c) (Registered i t' c') es))))"

definition waiters_ok :: "kv_event list \<Rightarrow> KvServer \<Rightarrow> bool" where
  "waiters_ok es s \<longleftrightarrow>
     (\<forall>i w. waiters s i = Some w \<longrightarrow> Registered i (w_term w) (w_ch w) \<in> set es \<and> chans s (w_ch w) = []) \<and>
     (\<forall>c. chans s c = [] \<or> (\<exists>r. chans s c = [r] \<and> c \<in> set (channels es) \<and> justified es c r))"

lemma channels_append [simp]: "channels (xs @ ys) = channels xs @ channels ys"
  by (induction xs rule: channels.induct) simp_all

lemma registered_channel: "Registered i t c \<in> set es \<Longrightarrow> c \<in> set (channels es)"
  by (induction es rule: channels.induct) auto

lemma registered_unique:
  "distinct (channels es) \<Longrightarrow> Registered i t c \<in> set es \<Longrightarrow> Registered j u c \<in> set es \<Longrightarrow> i = j \<and> t = u"
  by (induction es rule: channels.induct) (auto dest: registered_channel)

lemma precedes_snoc: "precedes x y es \<Longrightarrow> precedes x y (es @ [z])"
  unfolding precedes_def by (metis append.assoc append_Cons)

lemma precedes_last: "x \<in> set es \<Longrightarrow> precedes x z (es @ [z])"
  unfolding precedes_def by (metis split_list append.assoc append_Cons)

lemma justified_snoc: "justified es c r \<Longrightarrow> justified (es @ [z]) c r"
  unfolding justified_def using precedes_snoc by metis

lemma waiters_ok_keep:
  assumes "waiters_ok es s" and "chans s' = chans s" and "\<And>i. waiters s' i = waiters s i \<or> waiters s' i = None"
  shows "waiters_ok (es @ [ev]) s'"
  unfolding waiters_ok_def
proof (intro conjI allI impI)
  fix i w
  assume "waiters s' i = Some w"
  then have "waiters s i = Some w" using assms(3) [of i] by auto
  then show "Registered i (w_term w) (w_ch w) \<in> set (es @ [ev])" "chans s' (w_ch w) = []"
    using assms(1,2) by (simp_all add: waiters_ok_def)
next
  fix c
  show "chans s' c = [] \<or> (\<exists>r. chans s' c = [r] \<and> c \<in> set (channels (es @ [ev])) \<and> justified (es @ [ev]) c r)"
    using assms(1,2) justified_snoc [of es c _ ev] by (fastforce simp: waiters_ok_def)
qed

text \<open>Taking a waiter out and sending it its one result.\<close>

lemma waiters_ok_fire:
  assumes ok: "waiters_ok es s" and d: "distinct (channels es)" and w: "waiters s i = Some w"
    and j: "justified (es @ [ev]) (w_ch w) r"
  shows "waiters_ok (es @ [ev]) (send (w_ch w) r (s\<lparr>waiters := (waiters s)(i := None)\<rparr>))"
  unfolding waiters_ok_def
proof (intro conjI allI impI)
  fix k v
  assume "waiters (send (w_ch w) r (s\<lparr>waiters := (waiters s)(i := None)\<rparr>)) k = Some v"
  then have v: "waiters s k = Some v" "k \<noteq> i" by (auto simp: send_def split: if_splits)
  then show "Registered k (w_term v) (w_ch v) \<in> set (es @ [ev])" using ok by (simp add: waiters_ok_def)
  have "w_ch v \<noteq> w_ch w" using registered_unique [OF d] ok v w by (metis waiters_ok_def)
  then show "chans (send (w_ch w) r (s\<lparr>waiters := (waiters s)(i := None)\<rparr>)) (w_ch v) = []"
    using ok v(1) by (simp add: waiters_ok_def send_def)
next
  fix c
  have "c = w_ch w \<Longrightarrow> c \<in> set (channels es) \<and> chans s c = []"
    using ok w registered_channel [of i "w_term w" "w_ch w" es] by (auto simp: waiters_ok_def)
  then show "chans (send (w_ch w) r (s\<lparr>waiters := (waiters s)(i := None)\<rparr>)) c = [] \<or>
      (\<exists>r'. chans (send (w_ch w) r (s\<lparr>waiters := (waiters s)(i := None)\<rparr>)) c = [r'] \<and>
        c \<in> set (channels (es @ [ev])) \<and> justified (es @ [ev]) c r')"
    using ok j justified_snoc [of es c _ ev] by (fastforce simp: waiters_ok_def send_def)
qed

lemma waiters_ok_fireWaiter:
  assumes ok: "waiters_ok es s" and d: "distinct (channels es)"
  shows "waiters_ok (es @ [Applied e]) (fireWaiter e s)"
proof (cases "waiters s (Index e)")
  case None
  then show ?thesis using waiters_ok_keep [OF ok, of s] by (simp add: fireWaiter_def)
next
  case (Some w)
  then have "precedes (Registered (Index e) (w_term w) (w_ch w)) (Applied e) (es @ [Applied e])"
    using ok by (intro precedes_last) (simp add: waiters_ok_def)
  then have "justified (es @ [Applied e]) (w_ch w) (if w_term w = Term e then None else Some NotLeader)"
    unfolding justified_def by (metis (mono_tags, lifting))
  then show ?thesis using waiters_ok_fire [OF ok d Some] Some by (simp add: fireWaiter_def)
qed

lemma Apply_cases:
  obtains "Apply e s = s" | b where "Apply e s = s\<lparr>dead := b\<rparr>" | st where "Apply e s = fireWaiter e (s\<lparr>kv_store := st\<rparr>)"
proof -
  have keep: "fireWaiter e s = fireWaiter e (s\<lparr>kv_store := kv_store s\<rparr>)" by simp
  show thesis
  proof (cases "DecodeCommand (Command e)")
    case (Inl x)
    then have "Apply e s = s \<or> Apply e s = fireWaiter e s" by (simp add: Apply_def)
    then show thesis using that(1,3) keep by metis
  next
    case (Inr cmd)
    show thesis
    proof (cases "kv_apply cmd (kv_store s)")
      case (Inl x)
      then have "Apply e s = s \<or> Apply e s = s\<lparr>dead := True\<rparr> \<or> Apply e s = fireWaiter e s"
        using Inr by (simp add: Apply_def split: kv_error.split)
      then show thesis using that keep by metis
    next
      case (Inr st)
      then have "Apply e s = s \<or> Apply e s = fireWaiter e (s\<lparr>kv_store := st\<rparr>)"
        using \<open>DecodeCommand (Command e) = Inr cmd\<close> by (simp add: Apply_def)
      then show thesis using that by metis
    qed
  qed
qed

lemma Apply_alive: "\<not> dead (Apply e s) \<Longrightarrow> \<exists>st. Apply e s = fireWaiter e (s\<lparr>kv_store := st\<rparr>)"
proof (cases "DecodeCommand (Command e)")
  case (Inl x)
  then show "\<not> dead (Apply e s) \<Longrightarrow> ?thesis"
    by (intro exI [of _ "kv_store s"]) (simp add: Apply_def split: if_splits)
next
  case (Inr cmd)
  assume live: "\<not> dead (Apply e s)"
  show ?thesis
  proof (cases "kv_apply cmd (kv_store s)")
    case (Inl x)
    then show ?thesis
      using live Inr by (intro exI [of _ "kv_store s"]) (simp add: Apply_def split: if_splits kv_error.splits)
  next
    case (Inr st)
    then show ?thesis
      using live \<open>DecodeCommand (Command e) = Inr cmd\<close>
      by (intro exI [of _ st]) (simp add: Apply_def split: if_splits)
  qed
qed

lemma waiters_ok_step:
  assumes ok: "waiters_ok es s" and d: "distinct (channels (es @ [ev]))"
  shows "waiters_ok (es @ [ev]) (kv_step ev s)"
proof (cases ev)
  case (Registered i t c)
  have de: "distinct (channels es)" and fresh: "c \<notin> set (channels es)" using d Registered by simp_all
  define s' where "s' = (case waiters s i of None \<Rightarrow> s
    | Some old \<Rightarrow> send (w_ch old) (Some NotLeader) (s\<lparr>waiters := (waiters s)(i := None)\<rparr>))"
  have ok': "waiters_ok (es @ [ev]) s'"
  proof (cases "waiters s i")
    case (Some old)
    then have "precedes (Registered i (w_term old) (w_ch old)) ev (es @ [ev])"
      using ok by (intro precedes_last) (simp add: waiters_ok_def)
    then have "justified (es @ [ev]) (w_ch old) (Some NotLeader)"
      unfolding justified_def Registered by metis
    then show ?thesis using waiters_ok_fire [OF ok de Some] Some by (simp add: s'_def)
  qed (use waiters_ok_keep [OF ok, of s] in \<open>simp add: s'_def\<close>)
  have used: "w_ch w \<noteq> c" if "waiters s i = Some w" for w
    using ok fresh that registered_channel [of i "w_term w" "w_ch w" es] by (auto simp: waiters_ok_def)
  have "chans s c = []" using ok fresh by (auto simp: waiters_ok_def)
  then have "chans s' c = []"
    using used by (auto simp: s'_def send_def split: option.split)
  moreover have "kv_step ev s = s'\<lparr>waiters := (waiters s')(i \<mapsto> \<lparr>w_term = t, w_ch = c\<rparr>)\<rparr>"
    by (simp add: s'_def Registered registerWaiter_def send_def Let_def split: option.split)
  ultimately show ?thesis
    using ok' by (auto simp: waiters_ok_def Registered)
next
  case (Applied e)
  have de: "distinct (channels es)" using d by simp
  show ?thesis
  proof (rule Apply_cases [of e s])
    fix st
    assume st: "Apply e s = fireWaiter e (s\<lparr>kv_store := st\<rparr>)"
    have "waiters_ok es (s\<lparr>kv_store := st\<rparr>)" using ok by (simp add: waiters_ok_def)
    then show ?thesis using waiters_ok_fireWaiter [OF _ de] st by (simp add: Applied)
  qed (use waiters_ok_keep [OF ok] in \<open>simp_all add: Applied\<close>)
next
  case (Cancelled i)
  show ?thesis by (rule waiters_ok_keep [OF ok]) (simp_all add: Cancelled propose_cancel_def)
next
  case (Restored b)
  have "waiters (kv_step ev s) = waiters s" "chans (kv_step ev s) = chans s"
    by (simp_all add: Restored server_Restore_def split: sum.split)
  then show ?thesis using waiters_ok_keep [OF ok] by simp
qed

lemma waiters_ok_run:
  assumes "distinct (channels es)"
  shows "waiters_ok es (kv_run es (NewServer st addrs))"
  using assms
proof (induction es rule: rev_induct)
  case Nil
  then show ?case by (simp add: waiters_ok_def NewServer_def kv_run_def)
next
  case (snoc ev es)
  then show ?case using waiters_ok_step [of es "kv_run es (NewServer st addrs)" ev] by (simp add: kv_run_def)
qed

text \<open>An event that leaves the waiter of index \<open>i\<close> alone.\<close>

fun leaves :: "nat \<Rightarrow> kv_event \<Rightarrow> bool" where
  "leaves i (Registered j t c) \<longleftrightarrow> j \<noteq> i"
| "leaves i (Applied e) \<longleftrightarrow> Index e \<noteq> i"
| "leaves i (Cancelled j) \<longleftrightarrow> j \<noteq> i"
| "leaves i (Restored b) \<longleftrightarrow> True"

lemma leaves_step: "leaves i ev \<Longrightarrow> waiters (kv_step ev s) i = waiters s i"
proof (cases ev)
  case (Applied e)
  moreover assume "leaves i ev"
  ultimately show ?thesis
    by (cases rule: Apply_cases [of e s]) (simp_all add: fireWaiter_def send_def split: option.split)
qed (auto simp: registerWaiter_def send_def propose_cancel_def server_Restore_def Let_def
    split: option.split sum.split)

lemma leaves_run: "list_all (leaves i) es \<Longrightarrow> waiters (kv_run es s) i = waiters s i"
  by (induction es arbitrary: s) (simp_all add: kv_run_def leaves_step)

lemma kv_run_append: "kv_run (xs @ ys) s = kv_run ys (kv_run xs s)"
  by (simp add: kv_run_def)

lemma registered_waits:
  assumes "list_all (leaves i) ys"
  shows "waiters (kv_run (xs @ Registered i t c # ys) s) i = Some \<lparr>w_term = t, w_ch = c\<rparr>"
proof -
  have "kv_run (xs @ Registered i t c # ys) s = kv_run ys (registerWaiter i t c (kv_run xs s))"
    by (simp add: kv_run_def)
  then show ?thesis
    using leaves_run [OF assms] by (simp add: registerWaiter_def Let_def)
qed

lemma still_waiting:
  assumes "distinct (channels (xs @ Registered i t c # ys))" and "list_all (leaves i) ys"
  shows "chans (kv_run (xs @ Registered i t c # ys) (NewServer st addrs)) c = []"
  using waiters_ok_run [OF assms(1), of st addrs] registered_waits [OF assms(2), of xs t c "NewServer st addrs"]
  unfolding waiters_ok_def by fastforce

text \<open>A channel no waiter refers to hears nothing any more.\<close>

definition forgotten :: "nat \<Rightarrow> KvServer \<Rightarrow> bool" where
  "forgotten c s \<longleftrightarrow> chans s c = [] \<and> (\<forall>i w. waiters s i = Some w \<longrightarrow> w_ch w \<noteq> c)"

lemma forgotten_fire: "forgotten c s \<Longrightarrow> forgotten c (fireWaiter e s)"
  by (auto simp: forgotten_def fireWaiter_def send_def split: option.split if_splits)

lemma forgotten_step:
  assumes "forgotten c s" and "c \<notin> set (channels [ev])"
  shows "forgotten c (kv_step ev s)"
proof (cases ev)
  case (Applied e)
  show ?thesis
  proof (cases rule: Apply_cases [of e s])
    case (3 st)
    have "forgotten c (s\<lparr>kv_store := st\<rparr>)" using assms(1) by (simp add: forgotten_def)
    then show ?thesis using forgotten_fire 3 by (simp add: Applied)
  qed (use assms(1) in \<open>simp_all add: Applied forgotten_def\<close>)
next
  case (Registered i t c')
  then show ?thesis
    using assms by (auto simp: forgotten_def registerWaiter_def send_def Let_def split: option.splits if_splits)
qed (use assms in \<open>auto simp: forgotten_def propose_cancel_def server_Restore_def split: sum.split if_splits\<close>)

lemma forgotten_run: "forgotten c s \<Longrightarrow> c \<notin> set (channels es) \<Longrightarrow> forgotten c (kv_run es s)"
proof (induction es arbitrary: s)
  case (Cons ev es)
  have "c \<notin> set (channels [ev]) \<and> c \<notin> set (channels es)" using Cons(3) channels_append [of "[ev]" es] by auto
  then show ?case using Cons(1) [OF forgotten_step [OF Cons(2)]] by (simp add: kv_run_def)
qed (simp add: kv_run_def)

lemma cancelled_forgotten:
  assumes d: "distinct (channels (xs @ Registered i t c # ys))" and "list_all (leaves i) ys"
  shows "forgotten c (kv_run (xs @ Registered i t c # ys @ [Cancelled i]) (NewServer st addrs))"
proof -
  let ?es = "xs @ Registered i t c # ys"
  let ?s = "kv_run ?es (NewServer st addrs)"
  have "w_ch w \<noteq> c" if "waiters ?s j = Some w" "j \<noteq> i" for j w
    using registered_unique [OF d, of j "w_term w" c i t] waiters_ok_run [OF d, of st addrs] that
    unfolding waiters_ok_def by force
  moreover have "kv_run (?es @ [Cancelled i]) (NewServer st addrs) = ?s\<lparr>waiters := (waiters ?s)(i := None)\<rparr>"
    unfolding kv_run_append by (simp add: kv_run_def propose_cancel_def)
  ultimately show ?thesis
    using still_waiting [OF assms, of st addrs] by (simp add: forgotten_def)
qed

end
