(* ===== verification/Kv_Properties.thy ===== *)
theory Kv_Properties
  imports Kv_Laws Raft_Properties
begin

text \<open>
  The properties of the key-value service: encodings, the applier driving the server, and the
  answers a waiting request may get.
\<close>

section \<open>Encodings\<close>

text \<open>
  C30: A command over valid UTF-8 strings with a known operation is encoded without error and
  decodes to itself, and whatever decodes is such a command, so every replica applies the
  command the client sent or all of them skip the entry.
\<close>

theorem command_roundtrip:
  "(wf_command c \<longrightarrow> (\<exists>b. Encode c = Inr b \<and> DecodeCommand b = Inr c)) \<and>
   (Op c \<notin> {OpPut, OpDelete} \<longrightarrow> Encode c = Inl (UnknownOp (Op c))) \<and>
   (DecodeCommand b' = Inr c \<longrightarrow> wf_command c)"
  using decode_marshal [of c] DecodeCommand_wf [of b' c] by (auto simp: Encode_def wf_command_def)

theorem command_roundtrip_witness:
  "(\<exists>b. Encode (putCommand ''k'' ''v'') = Inr b \<and> DecodeCommand b = Inr (putCommand ''k'' ''v'')) \<and>
   Encode \<lparr>Op = ''get'', Key = ''k'', Value = []\<rparr> = Inl (UnknownOp ''get'') \<and>
   wf_command (deleteCommand ''k'')"
proof -
  have w: "wf_command (putCommand ''k'' ''v'')" "wf_command (deleteCommand ''k'')"
    by (simp_all add: wf_command_def putCommand_def deleteCommand_def valid_utf8_ascii valid_utf8.simps [of "[]"])
  have "wf_command (deleteCommand ''k'')"
    using command_roundtrip [of "deleteCommand ''k''" "marshalCommand (deleteCommand ''k'')"] decode_marshal [OF w(2)]
    by blast
  moreover have "Encode \<lparr>Op = ''get'', Key = ''k'', Value = []\<rparr> = Inl (UnknownOp ''get'')"
    using command_roundtrip [of "\<lparr>Op = ''get'', Key = ''k'', Value = []\<rparr>"] by (simp add: OpPut_def OpDelete_def)
  ultimately show ?thesis using w(1) command_roundtrip [of "putCommand ''k'' ''v''"] by blast
qed

text \<open>
  C29: Restoring the bytes of a snapshot replaces the whole store by the snapshotted one: the
  contents afterwards are those of the store the snapshot was taken of, whatever the store that
  restores it held before, and the store is well formed again.
\<close>

theorem snapshot_restore_roundtrip:
  assumes "wf_store s"
  shows "\<exists>t'. RestoreBytes (SnapshotBytes s) t = Inr t' \<and> wf_store t' \<and>
    (\<forall>k. store_Get k t' = store_Get k s) \<and> Len t' = Len s"
proof -
  obtain t' where t: "RestoreBytes (SnapshotBytes s) t = Inr t'" "wf_store t'" "contents t' = contents s"
    using snapshot_roundtrip [OF assms] by blast
  obtain m m' where m: "kvm s = Some m" "kvm t' = Some m'" "distinct (map fst m)" "distinct (map fst m')"
    using assms t(2) by (auto simp: wf_store_def split: option.splits)
  have eq: "map_of m' = map_of m" using t(3) m by (simp add: contents_def)
  then have "set m' = set m" using m(3,4) by (simp add: map_of_inject_set)
  then have "length m' = length m"
    using m(3,4) by (metis distinct_card distinct_map)
  then show ?thesis
    using t m eq by (simp add: store_Get_def Len_def)
qed

definition demoStore :: KvStore where
  "demoStore = \<lparr>kvm = Some [(''b'', ''2''), (''a'', ''1'')]\<rparr>"

theorem snapshot_restore_roundtrip_witness:
  "wf_store demoStore \<and>
   (\<exists>t'. RestoreBytes (SnapshotBytes demoStore) NewStore = Inr t' \<and> wf_store t' \<and>
     (\<forall>k. store_Get k t' = store_Get k demoStore) \<and> Len t' = 2)"
proof -
  have "wf_store demoStore"
    by (simp add: wf_store_def demoStore_def valid_utf8_ascii)
  then show ?thesis
    using snapshot_restore_roundtrip [of demoStore NewStore] by (simp add: Len_def demoStore_def numeral_2_eq_2)
qed

section \<open>The applier and the store\<close>

text \<open>
  C16: The key-value map of a replica is the fold of the committed history up to \<open>lastApplied\<close>:
  every step of the applier (taking a batch, applying it, serialising a snapshot, restoring a
  received one) keeps this, together with the applier's invariant. Two replicas of the same
  history that have applied equally far hold the same map.
\<close>

theorem replica_reflects_history:
  assumes ok: "applier_ok a" and ref: "reflects kvOps server_view entry_effect good_server h v0 a"
    and sm: "stateMachine (anode a)" and step: "applierStep kvOps a = Inr a'"
  shows "applier_ok a' \<and> reflects kvOps server_view entry_effect good_server h v0 a' \<and>
    (\<forall>b. reflects kvOps server_view entry_effect good_server h v0 b \<longrightarrow>
       lastApplied (anode b) = lastApplied (anode a') \<longrightarrow>
       (\<forall>k. store_Get k (kv_store (machine b)) = store_Get k (kv_store (machine a'))))"
proof (intro conjI allI impI)
  show "applier_ok a'" using applierStep_ok [OF ok, of kvOps] step by simp
  show r: "reflects kvOps server_view entry_effect good_server h v0 a'"
    by (rule kv.reflects_step [OF ok ref sm step])
  fix b k
  assume "reflects kvOps server_view entry_effect good_server h v0 b" "lastApplied (anode b) = lastApplied (anode a')"
  then have "contents (kv_store (machine b)) = contents (kv_store (machine a'))"
    using r by (simp add: reflects_def server_view_def)
  then show "store_Get k (kv_store (machine b)) = store_Get k (kv_store (machine a'))"
    by (simp add: store_Get_contents)
qed

definition demoEntry :: LogEntry where
  "demoEntry = \<lparr>Term = 1, Index = 1, Command = marshalCommand (putCommand ''k'' ''v'')\<rparr>"

definition demoApplier :: "(HardState, KvServer) Applier" where
  "demoApplier = \<lparr>apc = Applying [demoEntry], machine = NewServer NewStore Map.empty,
     anode = demoNode\<lparr>log := [\<lparr>Term = 0, Index = 0, Command = []\<rparr>, demoEntry], commitIndex := 1, stateMachine := True\<rparr>\<rparr>"

lemma demo_applier:
  "applier_ok demoApplier"
  "reflects kvOps server_view entry_effect good_server [demoEntry] Map.empty demoApplier"
  "applierStep kvOps demoApplier =
     Inr (demoApplier\<lparr>apc := AtLoop, machine := Apply demoEntry (NewServer NewStore Map.empty),
            anode := (anode demoApplier)\<lparr>lastApplied := 1\<rparr>\<rparr>)"
proof -
  have log: "wf_log [\<lparr>Term = 0, Index = 0, Command = []\<rparr>, demoEntry]"
    by (auto simp: wf_log_def demoEntry_def u64_size_def nth_Cons split: nat.splits)
  have base: "log_base [\<lparr>Term = 0, Index = 0, Command = []\<rparr>, demoEntry] = 0"
    "log_last [\<lparr>Term = 0, Index = 0, Command = []\<rparr>, demoEntry] = 1"
    by (simp_all add: log_base_def log_last_def demoEntry_def)
  have f: "lastApplied demoNode = 0" "pendingSnapshot demoNode = None" "SnapshotStore (cfg demoNode) = None"
    by (simp_all add: demo_defs)
  show "applier_ok demoApplier"
    using demo_wf(1) log base f
    by (simp add: demoApplier_def applier_ok_def reaching_def covered_def pc_ok_def wf_node_def progress_ok_def)
  show "reflects kvOps server_view entry_effect good_server [demoEntry] Map.empty demoApplier"
    using f base
    by (simp add: demoApplier_def reflects_def agrees_def good_server_def server_view_def NewServer_def NewStore_def
        wf_store_def contents_def log_entry_def le_Suc_eq)
  show "applierStep kvOps demoApplier =
     Inr (demoApplier\<lparr>apc := AtLoop, machine := Apply demoEntry (NewServer NewStore Map.empty),
            anode := (anode demoApplier)\<lparr>lastApplied := 1\<rparr>\<rparr>)"
    using f by (simp add: demoApplier_def applierStep_def maybeSnapshot_begin_def kvOps_def u64_add_def u64_size_def)
qed

theorem replica_reflects_history_witness:
  "\<exists>a'. applierStep kvOps demoApplier = Inr a' \<and> lastApplied (anode a') = 1 \<and>
     reflects kvOps server_view entry_effect good_server [demoEntry] Map.empty a' \<and>
     store_Get ''k'' (kv_store (machine a')) = (''v'', True)"
proof -
  let ?a = "demoApplier\<lparr>apc := AtLoop, machine := Apply demoEntry (NewServer NewStore Map.empty),
            anode := (anode demoApplier)\<lparr>lastApplied := 1\<rparr>\<rparr>"
  have sm: "stateMachine (anode demoApplier)" by (simp add: demoApplier_def)
  have r: "reflects kvOps server_view entry_effect good_server [demoEntry] Map.empty ?a"
    using replica_reflects_history [OF demo_applier(1,2) sm demo_applier(3)] by blast
  have w: "wf_command (putCommand ''k'' ''v'')"
    by (simp add: wf_command_def putCommand_def valid_utf8_ascii)
  have "contents (kv_store (machine ?a)) = entry_effect demoEntry Map.empty"
    using r by (simp add: reflects_def server_view_def)
  also have "\<dots> = [''k'' \<mapsto> ''v'']"
    using decode_marshal [OF w]
    by (simp add: entry_effect_def demoEntry_def command_effect_def putCommand_def)
  finally have "store_Get ''k'' (kv_store (machine ?a)) = (''v'', True)"
    by (simp add: store_Get_contents)
  then show ?thesis using r demo_applier(3) by (intro exI [of _ ?a]) simp
qed

section \<open>Waiting requests\<close>

text \<open>
  C17: A request hears at most one result, so no send on its channel of capacity one blocks the
  applier. It hears success only if, after it was registered, the entry of exactly its index and
  term was applied; it hears \<open>ErrNotLeader\<close> only if an entry of another term was applied at its
  index, or the index was proposed again. Nothing else is ever sent.
\<close>

theorem waiter_outcome:
  assumes "distinct (channels es)"
  shows "let s = kv_run es (NewServer st addrs) in
    length (chans s c) \<le> 1 \<and>
    (propose_result c s = Some None \<longrightarrow>
      (\<exists>i t e. Index e = i \<and> Term e = t \<and> precedes (Registered i t c) (Applied e) es)) \<and>
    (\<forall>err. propose_result c s = Some (Some err) \<longrightarrow> err = NotLeader \<and>
      (\<exists>i t. (\<exists>e. Index e = i \<and> Term e \<noteq> t \<and> precedes (Registered i t c) (Applied e) es) \<or>
             (\<exists>t' c'. precedes (Registered i t c) (Registered i t' c') es)))"
proof -
  let ?s = "kv_run es (NewServer st addrs)"
  consider "chans ?s c = []" | r where "chans ?s c = [r]" "justified es c r"
    using waiters_ok_run [OF assms, of st addrs] unfolding waiters_ok_def by blast
  then show ?thesis
  proof cases
    case (2 r)
    then show ?thesis unfolding Let_def justified_def by (cases r) (auto simp: propose_result_def)
  qed (simp add: propose_result_def)
qed

definition demoTrace :: "kv_event list" where
  "demoTrace = [Registered 1 1 7, Applied demoEntry]"

lemma demo_trace_result:
  "propose_result 7 (kv_run demoTrace (NewServer NewStore Map.empty)) = Some None"
proof -
  have w: "wf_command (putCommand ''k'' ''v'')"
    by (simp add: wf_command_def putCommand_def valid_utf8_ascii)
  show ?thesis
    using decode_marshal [OF w]
    by (simp add: demoTrace_def demoEntry_def kv_run_def registerWaiter_def NewServer_def NewStore_def Apply_def
        kv_apply_def putCommand_def fireWaiter_def send_def propose_result_def)
qed

theorem waiter_outcome_witness:
  "distinct (channels demoTrace) \<and>
   propose_result 7 (kv_run demoTrace (NewServer NewStore Map.empty)) = Some None \<and>
   (\<exists>i t e. Index e = i \<and> Term e = t \<and> precedes (Registered i t 7) (Applied e) demoTrace)"
proof -
  have d: "distinct (channels demoTrace)" by (simp add: demoTrace_def)
  show ?thesis
    using waiter_outcome [OF d, of NewStore Map.empty 7] demo_trace_result d by (simp add: Let_def)
qed

text \<open>
  C18: A request is answered when its index is applied: if the waiter was registered before, and
  its index was neither cancelled nor registered again in between, applying an entry at that
  index sends success if the terms agree and \<open>ErrNotLeader\<close> otherwise.
\<close>

theorem waiter_notified:
  assumes "distinct (channels (xs @ Registered i t c # ys))" and "list_all (leaves i) ys"
    and "Index e = i" and "\<not> dead (kv_run (xs @ Registered i t c # ys @ [Applied e]) (NewServer st addrs))"
  shows "propose_result c (kv_run (xs @ Registered i t c # ys @ [Applied e]) (NewServer st addrs)) =
    Some (if Term e = t then None else Some NotLeader)"
proof -
  let ?s = "kv_run (xs @ Registered i t c # ys) (NewServer st addrs)"
  have run: "kv_run (xs @ Registered i t c # ys @ [Applied e]) (NewServer st addrs) = Apply e ?s"
    by (simp add: kv_run_def)
  have w: "waiters ?s i = Some \<lparr>w_term = t, w_ch = c\<rparr>" by (rule registered_waits [OF assms(2)])
  have "\<exists>st. Apply e ?s = fireWaiter e (?s\<lparr>kv_store := st\<rparr>)"
    using assms(4) Apply_alive [of e ?s] unfolding run by blast
  then show ?thesis
    using w assms(3) still_waiting [OF assms(1,2), of st addrs] unfolding run
    by (auto simp: fireWaiter_def send_def propose_result_def)
qed

theorem waiter_notified_witness:
  "propose_result 7 (kv_run ([] @ Registered 1 1 7 # [] @ [Applied demoEntry]) (NewServer NewStore Map.empty)) = Some None"
proof -
  have "\<not> dead (kv_run ([] @ Registered 1 1 7 # [] @ [Applied demoEntry]) (NewServer NewStore Map.empty))"
    using Apply_spec [of "registerWaiter 1 1 7 (NewServer NewStore Map.empty)" demoEntry]
    by (auto simp: kv_run_def registerWaiter_def NewServer_def NewStore_def good_server_def wf_store_def)
  then show ?thesis
    using waiter_notified [of "[]" 1 1 7 "[]" demoEntry NewStore Map.empty] by (simp add: demoEntry_def)
qed

text \<open>
  C35: A request whose entry is applied between the return of \<open>Propose\<close> and the registration of
  its waiter is never answered: whatever happens next, as long as its index is not applied,
  proposed or cancelled again, its channel stays empty and it can only end by its deadline,
  although its command took effect.
\<close>

theorem lost_wakeup:
  assumes "distinct (channels (xs @ Applied e # Registered (Index e) (Term e) c # ys))"
    and "list_all (leaves (Index e)) ys"
  shows "propose_result c (kv_run (xs @ Applied e # Registered (Index e) (Term e) c # ys) (NewServer st addrs)) = None"
  using still_waiting [of "xs @ [Applied e]" "Index e" "Term e" c ys st addrs] assms
  by (simp add: propose_result_def)

theorem lost_wakeup_witness:
  "propose_result 7 (kv_run ([] @ Applied demoEntry # Registered (Index demoEntry) (Term demoEntry) 7 #
     [Applied \<lparr>Term = 1, Index = 2, Command = []\<rparr>]) (NewServer NewStore Map.empty)) = None"
  by (rule lost_wakeup) (simp_all add: demoEntry_def)

text \<open>
  C36: The cancellation of an older request that was proposed at the same index removes the
  waiter of the newer one: its entry may be applied afterwards, at its index and term, and it is
  not told, now or later.
\<close>

theorem stale_cancel:
  assumes "distinct (channels (xs @ Registered i t c # Registered i t' c' # ys @ Cancelled i # zs))"
    and "list_all (leaves i) ys"
  shows "propose_result c' (kv_run (xs @ Registered i t c # Registered i t' c' # ys @ Cancelled i # zs)
    (NewServer st addrs)) = None"
proof -
  let ?s = "kv_run ((xs @ [Registered i t c]) @ Registered i t' c' # ys @ [Cancelled i]) (NewServer st addrs)"
  have "forgotten c' ?s"
    by (rule cancelled_forgotten) (use assms in auto)
  then have "forgotten c' (kv_run zs ?s)"
    by (rule forgotten_run) (use assms(1) in auto)
  then show ?thesis
    by (simp add: kv_run_def forgotten_def propose_result_def)
qed

theorem stale_cancel_witness:
  "propose_result 8 (kv_run ([] @ Registered 1 0 7 # Registered 1 1 8 # [] @ Cancelled 1 # [Applied demoEntry])
    (NewServer NewStore Map.empty)) = None"
  by (rule stale_cancel) simp_all

end
