(* ===== verification/File_System.thy ===== *)
theory File_System
  imports Prelude "HOL-Library.Sublist"
begin

text \<open>
  The file system calls under \<^verbatim>\<open>storage/\<close>, for one directory. A file has the bytes a reader sees
  and the bytes that are known to be on the platter; the directory likewise has its current and
  its synced entries. Any call may fail, as an oracle decides, and a failing write may have
  written a part of its data; a second oracle says which files cannot be read as a whole at a
  given time. \<open>power_loss\<close> says what a cut may leave behind.
\<close>

section \<open>State\<close>

record inode =
  cur :: string
  stable :: string

record FS =
  inodes :: "nat \<rightharpoonup> inode"
  dir :: "string \<rightharpoonup> nat"
  ddir :: "string \<rightharpoonup> nat"
  fresh :: nat
  faults :: "nat \<Rightarrow> nat option"
  unreadable :: "nat \<Rightarrow> string set"
  ticks :: nat

definition emptyFS :: "(nat \<Rightarrow> nat option) \<Rightarrow> FS" where
  "emptyFS orc = \<lparr>inodes = Map.empty, dir = Map.empty, ddir = Map.empty, fresh = 0,
                  faults = orc, unreadable = (\<lambda>t. if orc t = None then {} else UNIV), ticks = 0\<rparr>"

section \<open>Calls\<close>

text \<open>
  A call asks the oracle once: it either has its full effect and succeeds, or has the effect
  \<open>bad k\<close> and fails.
\<close>

definition sys :: "(nat \<Rightarrow> FS \<Rightarrow> FS) \<Rightarrow> (FS \<Rightarrow> FS) \<Rightarrow> FS \<Rightarrow> FS \<times> bool" where
  "sys bad good fs =
     (let fs' = fs\<lparr>ticks := Suc (ticks fs)\<rparr> in
      case faults fs (ticks fs) of None \<Rightarrow> (good fs', True) | Some k \<Rightarrow> (bad k fs', False))"

abbreviation failing :: "nat \<Rightarrow> FS \<Rightarrow> FS" where
  "failing k fs \<equiv> fs"

text \<open>A write beyond the end fills the gap with zeros.\<close>

definition overwrite :: "nat \<Rightarrow> string \<Rightarrow> string \<Rightarrow> string" where
  "overwrite pos bs s = take pos (s @ replicate (pos - length s) (CHR 0x00)) @ bs @ drop (pos + length bs) s"

definition put_bytes :: "nat \<Rightarrow> nat \<Rightarrow> string \<Rightarrow> FS \<Rightarrow> FS" where
  "put_bytes i pos bs fs =
     fs\<lparr>inodes := (inodes fs)(i := map_option (cur_update (overwrite pos bs)) (inodes fs i))\<rparr>"

definition fs_write :: "nat \<Rightarrow> nat \<Rightarrow> string \<Rightarrow> FS \<Rightarrow> FS \<times> bool" where
  "fs_write i pos bs = sys (\<lambda>k. put_bytes i pos (take k bs)) (put_bytes i pos bs)"

definition fs_sync :: "nat \<Rightarrow> FS \<Rightarrow> FS \<times> bool" where
  "fs_sync i = sys failing
     (\<lambda>fs. fs\<lparr>inodes := (inodes fs)(i := map_option (\<lambda>f. f\<lparr>stable := cur f\<rparr>) (inodes fs i))\<rparr>)"

definition fs_truncate :: "nat \<Rightarrow> nat \<Rightarrow> FS \<Rightarrow> FS \<times> bool" where
  "fs_truncate i n = sys failing
     (\<lambda>fs. fs\<lparr>inodes := (inodes fs)(i := map_option (cur_update (take n)) (inodes fs i))\<rparr>)"

definition fs_noop :: "FS \<Rightarrow> FS \<times> bool" where
  "fs_noop = sys failing (\<lambda>fs. fs)"

definition add_file :: "string \<Rightarrow> FS \<Rightarrow> FS" where
  "add_file n fs = fs\<lparr>inodes := (inodes fs)(fresh fs \<mapsto> \<lparr>cur = [], stable = []\<rparr>),
                      dir := (dir fs)(n \<mapsto> fresh fs), fresh := Suc (fresh fs)\<rparr>"

text \<open>\<open>OpenFile\<close> with \<open>O_CREATE\<close>: the file's inode, created when the name is new.\<close>

definition fs_open :: "string \<Rightarrow> FS \<Rightarrow> FS \<times> nat option" where
  "fs_open n fs =
     (case sys failing (\<lambda>fs. if dir fs n = None then add_file n fs else fs) fs of
        (fs', ok) \<Rightarrow> (fs', if ok then dir fs' n else None))"

text \<open>\<open>CreateTemp\<close>: a name that is not in use, here with the new inode's number in it.\<close>

definition fs_create_temp :: "string \<Rightarrow> FS \<Rightarrow> FS \<times> nat option" where
  "fs_create_temp n fs =
     (case sys failing (add_file n) fs of (fs', ok) \<Rightarrow> (fs', if ok then Some (fresh fs) else None))"

definition fs_rename :: "string \<Rightarrow> string \<Rightarrow> FS \<Rightarrow> FS \<times> bool" where
  "fs_rename a b = sys failing (\<lambda>fs. fs\<lparr>dir := (dir fs)(b := dir fs a, a := None)\<rparr>)"

definition fs_remove :: "string \<Rightarrow> FS \<Rightarrow> FS \<times> bool" where
  "fs_remove a = sys failing (\<lambda>fs. fs\<lparr>dir := (dir fs)(a := None)\<rparr>)"

definition fs_sync_dir :: "FS \<Rightarrow> FS \<times> bool" where
  "fs_sync_dir = sys failing (\<lambda>fs. fs\<lparr>ddir := dir fs\<rparr>)"

text \<open>
  \<open>ReadFile\<close>: a missing file is told apart from a failure to read. It changes nothing, so it is a
  function of the state; whether it fails is decided for each file on its own.
\<close>

definition content :: "FS \<Rightarrow> string \<Rightarrow> string option" where
  "content fs n = Option.bind (dir fs n) (\<lambda>i. map_option cur (inodes fs i))"

definition fs_read :: "string \<Rightarrow> FS \<Rightarrow> string + string option" where
  "fs_read n fs =
     (if n \<in> unreadable fs (ticks fs) then Inl ''read error'' else Inr (content fs n))"

section \<open>Power loss\<close>

text \<open>
  Of a file that is not synced, a cut keeps the synced bytes, or a part of the current ones
  that keeps at least what they share with the synced bytes. Of the directory, each name is
  found with its current or with its synced entry.
\<close>

definition survives :: "inode \<Rightarrow> string \<Rightarrow> bool" where
  "survives f c \<longleftrightarrow> c = stable f \<or>
     prefix c (cur f) \<and> (\<forall>p. prefix p (stable f) \<and> prefix p (cur f) \<longrightarrow> prefix p c)"

definition power_loss :: "FS \<Rightarrow> FS \<Rightarrow> bool" where
  "power_loss fs fs' \<longleftrightarrow>
     (\<forall>n. dir fs' n = dir fs n \<or> dir fs' n = ddir fs n) \<and> ddir fs' = dir fs' \<and>
     (\<forall>i. rel_option (\<lambda>f f'. survives f (cur f') \<and> stable f' = cur f') (inodes fs i) (inodes fs' i)) \<and>
     fresh fs' = fresh fs"

text \<open>What may be read under a name, now or after cuts.\<close>

definition could_find :: "FS \<Rightarrow> nat option \<Rightarrow> string option \<Rightarrow> bool" where
  "could_find fs j c \<longleftrightarrow>
     (case j of
        None \<Rightarrow> c = None
      | Some i \<Rightarrow> (\<exists>f b. inodes fs i = Some f \<and> c = Some b \<and> (b = cur f \<or> survives f b)))"

definition could_read :: "FS \<Rightarrow> string \<Rightarrow> string option \<Rightarrow> bool" where
  "could_read fs n c \<longleftrightarrow> could_find fs (dir fs n) c \<or> could_find fs (ddir fs n) c"

section \<open>Invariant\<close>

text \<open>
  Every entry names an existing file, no file has two names, and the names in use lie below the
  next inode number.
\<close>

definition entries_of :: "FS \<Rightarrow> string \<Rightarrow> nat set" where
  "entries_of fs n = {i. dir fs n = Some i \<or> ddir fs n = Some i}"

definition wf_fs :: "FS \<Rightarrow> bool" where
  "wf_fs fs \<longleftrightarrow> (\<forall>i. inodes fs i \<noteq> None \<longleftrightarrow> i < fresh fs) \<and>
     (\<forall>n. \<forall>i \<in> entries_of fs n. i < fresh fs) \<and>
     (\<forall>n m. n \<noteq> m \<longrightarrow> entries_of fs n \<inter> entries_of fs m = {})"

text \<open>A name whose file is synced, whichever entry is found.\<close>

definition solid :: "FS \<Rightarrow> string \<Rightarrow> bool" where
  "solid fs n \<longleftrightarrow> (\<forall>i \<in> entries_of fs n. \<forall>f. inodes fs i = Some f \<longrightarrow> stable f = cur f)"

lemma wf_emptyFS: "wf_fs (emptyFS orc)"
  by (simp add: wf_fs_def emptyFS_def entries_of_def)

lemma survives_refl: "survives f (stable f)"
  by (simp add: survives_def)

lemma survives_synced: "stable f = cur f \<Longrightarrow> survives f c \<Longrightarrow> c = cur f"
  by (auto simp: survives_def intro: prefix_order.antisym)

lemma could_read_current:
  assumes "wf_fs fs"
  shows "could_read fs n (content fs n)"
proof (cases "dir fs n")
  case None
  then show ?thesis by (simp add: could_read_def could_find_def content_def)
next
  case (Some i)
  then obtain f where "inodes fs i = Some f"
    using assms by (fastforce simp: wf_fs_def entries_of_def)
  then show ?thesis
    using Some by (simp add: could_read_def could_find_def content_def)
qed

text \<open>A cut leaves a well-formed file system in which nothing new can be read.\<close>

lemma power_loss_entries:
  assumes "power_loss fs fs'"
  shows "entries_of fs' n \<subseteq> entries_of fs n"
proof
  fix i
  assume "i \<in> entries_of fs' n"
  moreover have "ddir fs' = dir fs'" "dir fs' n = dir fs n \<or> dir fs' n = ddir fs n"
    using assms by (simp_all add: power_loss_def)
  ultimately show "i \<in> entries_of fs n" by (auto simp: entries_of_def)
qed

lemma power_loss_inode:
  assumes "power_loss fs fs'"
  shows "rel_option (\<lambda>f f'. survives f (cur f') \<and> stable f' = cur f') (inodes fs i) (inodes fs' i)"
  using assms by (simp add: power_loss_def)

lemma power_loss_wf:
  assumes "wf_fs fs" and "power_loss fs fs'"
  shows "wf_fs fs'"
proof -
  have "inodes fs' i \<noteq> None \<longleftrightarrow> i < fresh fs'" for i
  proof -
    have "inodes fs i \<noteq> None \<longleftrightarrow> i < fresh fs" "fresh fs' = fresh fs"
      using assms by (simp_all add: wf_fs_def power_loss_def)
    then show ?thesis
      using power_loss_inode [OF assms(2), of i] by (cases "inodes fs i"; cases "inodes fs' i") simp_all
  qed
  moreover have "i < fresh fs'" if "i \<in> entries_of fs' n" for n i
    using assms that power_loss_entries [OF assms(2), of n] by (auto simp: wf_fs_def power_loss_def)
  moreover have "entries_of fs' n \<inter> entries_of fs' m = {}" if "n \<noteq> m" for n m
    using assms(1) that power_loss_entries [OF assms(2)] unfolding wf_fs_def by blast
  ultimately show ?thesis by (simp add: wf_fs_def)
qed

lemma power_loss_could_read:
  assumes "power_loss fs fs'" and "could_read fs' n c"
  shows "could_read fs n c"
proof -
  have d: "dir fs' n = dir fs n \<or> dir fs' n = ddir fs n" and "ddir fs' n = dir fs' n"
    using assms(1) by (simp_all add: power_loss_def)
  then have c: "could_find fs' (dir fs' n) c" using assms(2) by (simp add: could_read_def)
  have "could_find fs (dir fs' n) c"
  proof (cases "dir fs' n")
    case (Some i)
    obtain f' b where f': "inodes fs' i = Some f'" "c = Some b" "b = cur f' \<or> survives f' b"
      using c by (auto simp: could_find_def Some)
    then obtain f where f: "inodes fs i = Some f" "survives f (cur f')" "stable f' = cur f'"
      using power_loss_inode [OF assms(1), of i] by (cases "inodes fs i") auto
    then have "b = cur f'" using f'(3) survives_synced by metis
    then show ?thesis
      using f f'(2) by (simp add: could_find_def Some)
  qed (use c in \<open>simp add: could_find_def\<close>)
  then show ?thesis using d by (auto simp: could_read_def)
qed

text \<open>Under a synced name only the two entries' current bytes can be read.\<close>

definition synced_content :: "FS \<Rightarrow> string \<Rightarrow> string option" where
  "synced_content fs n = Option.bind (ddir fs n) (\<lambda>i. map_option cur (inodes fs i))"

lemma could_read_solid:
  assumes "solid fs n" and "could_read fs n c"
  shows "c = content fs n \<or> c = synced_content fs n"
proof -
  have "c = Option.bind j (\<lambda>i. map_option cur (inodes fs i))"
    if found: "could_find fs j c" and entry: "j = dir fs n \<or> j = ddir fs n" for j
  proof (cases j)
    case (Some i)
    obtain f b where "inodes fs i = Some f" "c = Some b" "b = cur f \<or> survives f b"
      using found by (auto simp: could_find_def Some)
    moreover have "i \<in> entries_of fs n" using entry Some by (auto simp: entries_of_def)
    ultimately show ?thesis
      using assms(1) Some survives_synced by (auto simp: solid_def)
  qed (use found in \<open>simp add: could_find_def\<close>)
  then show ?thesis
    using assms(2) by (auto simp: could_read_def content_def synced_content_def)
qed

end
