(* ===== verification/Storage.thy ===== *)
theory Storage
  imports Raft_Types Go_Json File_System "HOL-Library.Word"
begin

unbundle bit_operations_syntax

text \<open>
  Package \<^verbatim>\<open>storage\<close>: the hard state and snapshot files, replaced atomically, and the write-ahead
  log. \<open>Disk\<close> is a \<open>FileStore\<close> together with the file system under its directory; the handle
  \<open>wal\<close> is an inode and a position.
\<close>

section \<open>Records on disk\<close>

definition marshalHardState :: "HardState \<Rightarrow> bytes" where
  "marshalHardState hs =
     render (JObj [(''CurrentTerm'', enc_uint (CurrentTerm hs)), (''VotedFor'', JStr (VotedFor hs))])"

definition updHardState :: "string \<Rightarrow> json \<Rightarrow> HardState \<Rightarrow> HardState option" where
  "updHardState k j hs =
     (let names = [''CurrentTerm'', ''VotedFor''] in
      if is_field names ''CurrentTerm'' k
      then map_option (\<lambda>n. hs\<lparr>CurrentTerm := n\<rparr>) (dec_uint u64_size j (CurrentTerm hs))
      else if is_field names ''VotedFor'' k
      then map_option (\<lambda>s. hs\<lparr>VotedFor := s\<rparr>) (dec_string j (VotedFor hs))
      else Some hs)"

definition unmarshalHardState :: "bytes \<Rightarrow> HardState option" where
  "unmarshalHardState b = unmarshal updHardState b \<lparr>CurrentTerm = 0, VotedFor = []\<rparr>"

text \<open>\<open>snapshotEnvelope\<close> has the fields of \<open>Snapshot\<close> under the names of its tags.\<close>

definition marshalSnapshot :: "Snapshot \<Rightarrow> bytes" where
  "marshalSnapshot s =
     render (JObj [(''last_included_index'', enc_uint (LastIncludedIndex s)),
                   (''last_included_term'', enc_uint (LastIncludedTerm s)),
                   (''data'', enc_bytes (Data s))])"

definition updSnapshot :: "string \<Rightarrow> json \<Rightarrow> Snapshot \<Rightarrow> Snapshot option" where
  "updSnapshot k j s =
     (let names = [''last_included_index'', ''last_included_term'', ''data''] in
      if is_field names ''last_included_index'' k
      then map_option (\<lambda>n. s\<lparr>LastIncludedIndex := n\<rparr>) (dec_uint u64_size j (LastIncludedIndex s))
      else if is_field names ''last_included_term'' k
      then map_option (\<lambda>n. s\<lparr>LastIncludedTerm := n\<rparr>) (dec_uint u64_size j (LastIncludedTerm s))
      else if is_field names ''data'' k
      then map_option (\<lambda>b. s\<lparr>Data := b\<rparr>) (dec_bytes j)
      else Some s)"

definition unmarshalSnapshot :: "bytes \<Rightarrow> Snapshot option" where
  "unmarshalSnapshot b =
     unmarshal updSnapshot b \<lparr>LastIncludedIndex = 0, LastIncludedTerm = 0, Data = []\<rparr>"

record walRecord =
  wr_Type :: string
  wr_Term :: nat
  wr_Index :: nat
  wr_Command :: bytes
  wr_From :: nat

definition zeroRecord :: walRecord where
  "zeroRecord = \<lparr>wr_Type = [], wr_Term = 0, wr_Index = 0, wr_Command = [], wr_From = 0\<rparr>"

text \<open>Fields tagged \<open>omitempty\<close> are written only when they are not zero.\<close>

definition omitempty :: "bool \<Rightarrow> string \<Rightarrow> json \<Rightarrow> (string \<times> json) list" where
  "omitempty zero k j = (if zero then [] else [(k, j)])"

definition marshalRecord :: "walRecord \<Rightarrow> bytes" where
  "marshalRecord r =
     render (JObj ((''type'', JStr (wr_Type r)) #
       omitempty (wr_Term r = 0) ''term'' (enc_uint (wr_Term r)) @
       omitempty (wr_Index r = 0) ''index'' (enc_uint (wr_Index r)) @
       omitempty (wr_Command r = []) ''command'' (enc_bytes (wr_Command r)) @
       omitempty (wr_From r = 0) ''from'' (enc_uint (wr_From r))))"

definition updRecord :: "string \<Rightarrow> json \<Rightarrow> walRecord \<Rightarrow> walRecord option" where
  "updRecord k j r =
     (let names = [''type'', ''term'', ''index'', ''command'', ''from''] in
      if is_field names ''type'' k then map_option (\<lambda>s. r\<lparr>wr_Type := s\<rparr>) (dec_string j (wr_Type r))
      else if is_field names ''term'' k
      then map_option (\<lambda>n. r\<lparr>wr_Term := n\<rparr>) (dec_uint u64_size j (wr_Term r))
      else if is_field names ''index'' k
      then map_option (\<lambda>n. r\<lparr>wr_Index := n\<rparr>) (dec_uint u64_size j (wr_Index r))
      else if is_field names ''command'' k then map_option (\<lambda>b. r\<lparr>wr_Command := b\<rparr>) (dec_bytes j)
      else if is_field names ''from'' k
      then map_option (\<lambda>n. r\<lparr>wr_From := n\<rparr>) (dec_uint u64_size j (wr_From r))
      else Some r)"

definition unmarshalRecord :: "bytes \<Rightarrow> walRecord option" where
  "unmarshalRecord b = unmarshal updRecord b zeroRecord"

section \<open>Framing\<close>

text \<open>\<open>crc32.ChecksumIEEE\<close>, bit by bit with the reversed polynomial.\<close>

definition crc_bit :: "32 word \<Rightarrow> 32 word" where
  "crc_bit w = (if bit w 0 then drop_bit 1 w XOR 0xEDB88320 else drop_bit 1 w)"

definition crc_byte :: "32 word \<Rightarrow> char \<Rightarrow> 32 word" where
  "crc_byte w c = (crc_bit ^^ 8) (w XOR word_of_nat (of_char c))"

definition crc32 :: "bytes \<Rightarrow> nat" where
  "crc32 b = unat (NOT (foldl crc_byte (NOT 0) b))"

definition le32 :: "nat \<Rightarrow> bytes" where
  "le32 n = [char_of n, char_of (n div 256), char_of (n div 65536), char_of (n div 16777216)]"

definition read_le32 :: "bytes \<Rightarrow> nat" where
  "read_le32 b = code (b ! 0) + 256 * code (b ! 1) + 65536 * code (b ! 2) + 16777216 * code (b ! 3)"

definition maxRecordSize :: nat where
  "maxRecordSize = 64 * 2 ^ 20"

definition frame :: "walRecord \<Rightarrow> bytes" where
  "frame r = (let payload = marshalRecord r in
              le32 (length payload) @ le32 (crc32 payload) @ payload)"

text \<open>The record at the front of \<open>b\<close> and what follows it; \<open>None\<close> where the loop breaks.\<close>

definition readRecord :: "bytes \<Rightarrow> (walRecord \<times> bytes) option" where
  "readRecord b =
     (if length b < 8 then None
      else
        let len = read_le32 b; sum = read_le32 (drop 4 b); payload = take len (drop 8 b) in
        if len = 0 \<or> len > maxRecordSize then None
        else if length (drop 8 b) < len then None
        else if crc32 payload \<noteq> sum then None
        else map_option (\<lambda>r. (r, drop (8 + len) b)) (unmarshalRecord payload))"

text \<open>The header at the front of \<open>b\<close> is there and announces a payload that the loop goes on to read.\<close>

definition headerOk :: "bytes \<Rightarrow> bool" where
  "headerOk b \<longleftrightarrow> 8 \<le> length b \<and> 0 < read_le32 b \<and> read_le32 b \<le> maxRecordSize"

lemma readRecord_header: "readRecord b = Some x \<Longrightarrow> headerOk b"
  by (auto simp: readRecord_def headerOk_def Let_def split: if_splits)

lemma readRecord_shorter: "readRecord b = Some (r, b') \<Longrightarrow> length b' < length b"
  by (auto simp: readRecord_def Let_def split: if_splits)

section \<open>The store\<close>

record Disk =
  fs :: FS
  wal :: "(nat \<times> nat) option"

definition hardStateFile :: string where "hardStateFile = ''hardstate.json''"
definition snapshotFile :: string where "snapshotFile = ''snapshot.json''"
definition walFile :: string where "walFile = ''wal.log''"

definition try_sys :: "FS \<times> bool \<Rightarrow> err \<Rightarrow> (FS \<Rightarrow> FS \<times> err option) \<Rightarrow> FS \<times> err option" where
  "try_sys r e k = (case r of (f, ok) \<Rightarrow> if ok then k f else (f, Some e))"

definition syncDir :: "FS \<Rightarrow> FS \<times> err option" where
  "syncDir f =
     try_sys (fs_noop f) ''opening directory'' (\<lambda>f.
     try_sys (fs_sync_dir f) ''syncing directory'' (\<lambda>f. (f, None)))"

definition tempName :: "string \<Rightarrow> FS \<Rightarrow> string" where
  "tempName n f = n @ ''.tmp-'' @ show_nat (fresh f)"

text \<open>\<open>defer os.Remove(tmpName)\<close>: the outcome of the body, then the removal, whose error is ignored.\<close>

definition removing :: "string \<Rightarrow> FS \<times> err option \<Rightarrow> FS \<times> err option" where
  "removing tmp r = (case r of (f, e) \<Rightarrow> (fst (fs_remove tmp f), e))"

definition swapIn :: "string \<Rightarrow> string \<Rightarrow> nat \<Rightarrow> FS \<Rightarrow> FS \<times> err option" where
  "swapIn tmp name i f =
     try_sys (fs_sync i f) ''syncing temp file'' (\<lambda>f.
     try_sys (fs_noop f) ''closing temp file'' (\<lambda>f.
     try_sys (fs_rename tmp name f) ''replacing file'' syncDir))"

definition atomicWrite :: "string \<Rightarrow> bytes \<Rightarrow> FS \<Rightarrow> FS \<times> err option" where
  "atomicWrite name data f0 =
     (case fs_create_temp (tempName name f0) f0 of
        (f, None) \<Rightarrow> (f, Some ''creating temp file'')
      | (f, Some i) \<Rightarrow>
          removing (tempName name f0)
            (try_sys (fs_write i 0 data f) ''writing temp file'' (swapIn (tempName name f0) name i)))"

definition FS_SaveHardState :: "HardState \<Rightarrow> Disk \<Rightarrow> Disk \<times> err option" where
  "FS_SaveHardState hs d =
     (case atomicWrite hardStateFile (marshalHardState hs) (fs d) of (f, e) \<Rightarrow> (d\<lparr>fs := f\<rparr>, e))"

definition FS_LoadHardState :: "Disk \<Rightarrow> err + HardState option" where
  "FS_LoadHardState d =
     (case fs_read hardStateFile (fs d) of
        Inl e \<Rightarrow> Inl e
      | Inr None \<Rightarrow> Inr None
      | Inr (Some b) \<Rightarrow>
          (case unmarshalHardState b of None \<Rightarrow> Inl ''corrupt hard state'' | Some hs \<Rightarrow> Inr (Some hs)))"

definition FS_SaveSnapshot :: "Snapshot \<Rightarrow> Disk \<Rightarrow> Disk \<times> err option" where
  "FS_SaveSnapshot s d =
     (case atomicWrite snapshotFile (marshalSnapshot s) (fs d) of (f, e) \<Rightarrow> (d\<lparr>fs := f\<rparr>, e))"

definition FS_LoadSnapshot :: "Disk \<Rightarrow> err + Snapshot option" where
  "FS_LoadSnapshot d =
     (case fs_read snapshotFile (fs d) of
        Inl e \<Rightarrow> Inl e
      | Inr None \<Rightarrow> Inr None
      | Inr (Some b) \<Rightarrow>
          (case unmarshalSnapshot b of None \<Rightarrow> Inl ''corrupt snapshot'' | Some s \<Rightarrow> Inr (Some s)))"

section \<open>The write-ahead log\<close>

definition appendRecord :: "LogEntry \<Rightarrow> walRecord" where
  "appendRecord e = zeroRecord\<lparr>wr_Type := ''append'', wr_Term := Term e, wr_Index := Index e,
                               wr_Command := Command e\<rparr>"

definition truncateRecord :: "nat \<Rightarrow> walRecord" where
  "truncateRecord from = zeroRecord\<lparr>wr_Type := ''truncate'', wr_From := from\<rparr>"

text \<open>How many bytes of a write arrive, as the oracle will have it.\<close>

definition arriving :: "FS \<Rightarrow> bytes \<Rightarrow> nat" where
  "arriving f b = (case faults f (ticks f) of None \<Rightarrow> length b | Some k \<Rightarrow> min k (length b))"

definition writeRecord :: "walRecord \<Rightarrow> Disk \<Rightarrow> Disk \<times> err option" where
  "writeRecord r d =
     (case wal d of
        None \<Rightarrow> (d, Some ''invalid argument'')
      | Some (i, pos) \<Rightarrow>
          (case fs_write i pos (frame r) (fs d) of
             (f, ok) \<Rightarrow> (d\<lparr>fs := f, wal := Some (i, pos + arriving (fs d) (frame r))\<rparr>,
                         if ok then None else Some ''writing wal record'')))"

definition syncWAL :: "Disk \<Rightarrow> Disk \<times> err option" where
  "syncWAL d =
     (case wal d of
        None \<Rightarrow> (d, Some ''invalid argument'')
      | Some (i, pos) \<Rightarrow>
          (case fs_sync i (fs d) of
             (f, ok) \<Rightarrow> (d\<lparr>fs := f\<rparr>, if ok then None else Some ''syncing wal'')))"

fun writeRecords :: "walRecord list \<Rightarrow> Disk \<Rightarrow> Disk \<times> err option" where
  "writeRecords [] d = (d, None)"
| "writeRecords (r # rs) d =
     (case writeRecord r d of (d, Some e) \<Rightarrow> (d, Some e) | (d, None) \<Rightarrow> writeRecords rs d)"

definition FS_AppendEntries :: "LogEntry list \<Rightarrow> Disk \<Rightarrow> Disk \<times> err option" where
  "FS_AppendEntries es d =
     (if es = [] then (d, None)
      else case writeRecords (map appendRecord es) d of
             (d, Some e) \<Rightarrow> (d, Some e)
           | (d, None) \<Rightarrow> syncWAL d)"

definition FS_TruncateSuffix :: "nat \<Rightarrow> Disk \<Rightarrow> Disk \<times> err option" where
  "FS_TruncateSuffix from d =
     (case writeRecord (truncateRecord from) d of
        (d, Some e) \<Rightarrow> (d, Some e)
      | (d, None) \<Rightarrow> syncWAL d)"

text \<open>\<open>nextIndex\<close> of \<^verbatim>\<open>wal.go\<close> and the effect of one record on the replayed entries.\<close>

definition walNextIndex :: "LogEntry list \<Rightarrow> nat" where
  "walNextIndex es = (if es = [] then 0 else u64_add (Index (last es)) 1)"

definition dropTail :: "nat \<Rightarrow> LogEntry list \<Rightarrow> LogEntry list" where
  "dropTail from es = rev (dropWhile (\<lambda>e. Index e \<ge> from) (rev es))"

definition applyRecord :: "walRecord \<Rightarrow> LogEntry list \<Rightarrow> err + LogEntry list" where
  "applyRecord r es =
     (if wr_Type r = ''append'' then
        if walNextIndex es \<noteq> 0 \<and> wr_Index r \<noteq> walNextIndex es
        then Inl ''wal append record out of order''
        else Inr (es @ [\<lparr>Term = wr_Term r, Index = wr_Index r, Command = wr_Command r\<rparr>])
      else if wr_Type r = ''truncate'' then
        if wr_From r < 1 then Inl ''wal truncate record with from=0''
        else Inr (dropTail (wr_From r) es)
      else Inl ''unknown wal record type'')"

text \<open>
  The replay loop: the bytes from the current record on, the offset reached and the entries so
  far. The header is one read and, unless it ends the loop, the payload another, whether or not
  the record turns out to be whole and valid; a read that fails ends the loop as the end of the
  file does.
\<close>

function replayLoop ::
  "bytes \<Rightarrow> nat \<Rightarrow> LogEntry list \<Rightarrow> FS \<Rightarrow> FS \<times> (err + nat \<times> LogEntry list)" where
  "replayLoop b off es f =
     (case fs_noop f of
        (f, False) \<Rightarrow> (f, Inr (off, es))
      | (f, True) \<Rightarrow>
          if \<not> headerOk b then (f, Inr (off, es))
          else
            (case fs_noop f of
               (f, False) \<Rightarrow> (f, Inr (off, es))
             | (f, True) \<Rightarrow>
                 (case readRecord b of
                    None \<Rightarrow> (f, Inr (off, es))
                  | Some (r, b') \<Rightarrow>
                      (case applyRecord r es of
                         Inl e \<Rightarrow> (f, Inl e)
                       | Inr es' \<Rightarrow> replayLoop b' (off + (length b - length b')) es' f))))"
  by pat_completeness auto
termination
  by (relation "measure (\<lambda>(b, _). length b)") (auto dest: readRecord_shorter)

declare replayLoop.simps [simp del]

definition FS_LoadEntries :: "Disk \<Rightarrow> Disk \<times> (err + LogEntry list)" where
  "FS_LoadEntries d =
     (case wal d of
        None \<Rightarrow> (d, Inl ''invalid argument'')
      | Some (i, pos) \<Rightarrow>
          (case fs_noop (fs d) of
             (f, False) \<Rightarrow> (d\<lparr>fs := f\<rparr>, Inl ''seeking wal'')
           | (f, True) \<Rightarrow>
               (case replayLoop (case inodes f i of None \<Rightarrow> [] | Some x \<Rightarrow> cur x) 0 [] f of
                  (f, Inl e) \<Rightarrow> (d\<lparr>fs := f\<rparr>, Inl e)
                | (f, Inr (off, es)) \<Rightarrow>
                    (case fs_truncate i off f of
                       (f, False) \<Rightarrow> (d\<lparr>fs := f\<rparr>, Inl ''truncating torn wal tail'')
                     | (f, True) \<Rightarrow>
                         (case fs_noop f of
                            (f, False) \<Rightarrow> (d\<lparr>fs := f\<rparr>, Inl ''seeking wal end'')
                          | (f, True) \<Rightarrow> (d\<lparr>fs := f, wal := Some (i, off)\<rparr>, Inr es))))))"

text \<open>The temporary log of \<open>Compact\<close>: one write per record, from the given position on.\<close>

fun writeTemp :: "nat \<Rightarrow> nat \<Rightarrow> walRecord list \<Rightarrow> (FS \<Rightarrow> FS \<times> err option) \<Rightarrow> FS \<Rightarrow> FS \<times> err option" where
  "writeTemp i pos [] k f = k f"
| "writeTemp i pos (r # rs) k f =
     try_sys (fs_write i pos (frame r) f) ''writing temp wal'' (writeTemp i (pos + length (frame r)) rs k)"

definition openWAL :: "FS \<Rightarrow> FS \<times> nat option" where
  "openWAL f = fs_open walFile f"

declare openWAL_def [simp]

text \<open>The swap of the handle at the end of \<open>Compact\<close>.\<close>

definition reopenWAL :: "Disk \<Rightarrow> Disk \<times> err option" where
  "reopenWAL d =
     (case openWAL (fs d) of
        (f, None) \<Rightarrow> (d\<lparr>fs := f\<rparr>, Some ''opening wal'')
      | (f, Some i) \<Rightarrow>
          (case fs_noop f of
             (f, False) \<Rightarrow> (d\<lparr>fs := f\<rparr>, Some ''seeking new wal'')
           | (f, True) \<Rightarrow>
               (d\<lparr>fs := f, wal := Some (i, case inodes f i of None \<Rightarrow> 0 | Some x \<Rightarrow> length (cur x))\<rparr>, None)))"

definition FS_Compact :: "LogEntry list \<Rightarrow> Disk \<Rightarrow> Disk \<times> err option" where
  "FS_Compact es d =
     (let tmp = tempName walFile (fs d) in
      case fs_create_temp tmp (fs d) of
        (f, None) \<Rightarrow> (d\<lparr>fs := f\<rparr>, Some ''creating temp wal'')
      | (f, Some i) \<Rightarrow>
          (case writeTemp i 0 (map appendRecord es) (swapIn tmp walFile i) f of
             (f, Some e) \<Rightarrow> (d\<lparr>fs := fst (fs_remove tmp f)\<rparr>, Some e)
           | (f, None) \<Rightarrow>
               (case reopenWAL (d\<lparr>fs := f\<rparr>) of
                  (d, e) \<Rightarrow> (d\<lparr>fs := fst (fs_remove tmp (fs d))\<rparr>, e))))"

section \<open>Opening and closing\<close>

definition NewFileStore :: "FS \<Rightarrow> FS \<times> (err + Disk)" where
  "NewFileStore f =
     (case fs_noop f of
        (f, False) \<Rightarrow> (f, Inl ''creating directory'')
      | (f, True) \<Rightarrow>
          (case openWAL f of
             (f, None) \<Rightarrow> (f, Inl ''opening wal'')
           | (f, Some i) \<Rightarrow> (f, Inr \<lparr>fs = f, wal = Some (i, 0)\<rparr>)))"

definition FS_Close :: "Disk \<Rightarrow> Disk" where
  "FS_Close d = d\<lparr>wal := None\<rparr>"

text \<open>\<open>FileStore\<close> as the three interfaces of package \<open>raft\<close>.\<close>

definition fileStateStore :: "Disk StateStore" where
  "fileStateStore = \<lparr>SaveHardState = FS_SaveHardState, LoadHardState = FS_LoadHardState\<rparr>"

definition fileLogStore :: "Disk LogStoreOps" where
  "fileLogStore = \<lparr>AppendEntries = FS_AppendEntries, TruncateSuffix = FS_TruncateSuffix,
                   LoadEntries = FS_LoadEntries, Compact = FS_Compact\<rparr>"

definition fileSnapshotStore :: "Disk SnapshotStoreOps" where
  "fileSnapshotStore = \<lparr>SaveSnapshot = FS_SaveSnapshot, LoadSnapshot = FS_LoadSnapshot\<rparr>"

end
