(* ===== verification/Storage_Laws.thy ===== *)
theory Storage_Laws
  imports Storage Go_Json_Laws
begin

text \<open>
  The encodings of package \<open>storage\<close>: every record survives its encoding and its framing, and a
  frame that is cut short is not taken for a record.
\<close>

section \<open>Encodings\<close>

lemma storage_field_names [simp]:
  "valid_utf8 ''CurrentTerm''" "valid_utf8 ''VotedFor''" "valid_utf8 ''last_included_index''"
  "valid_utf8 ''last_included_term''" "valid_utf8 ''data''" "valid_utf8 ''type''" "valid_utf8 ''term''"
  "valid_utf8 ''index''" "valid_utf8 ''command''" "valid_utf8 ''from''"
  by (rule valid_utf8_ascii; simp)+

definition wf_hard_state :: "HardState \<Rightarrow> bool" where
  "wf_hard_state hs \<longleftrightarrow> CurrentTerm hs < u64_size \<and> valid_utf8 (VotedFor hs)"

lemma hard_state_roundtrip:
  assumes "wf_hard_state hs"
  shows "unmarshalHardState (marshalHardState hs) = Some hs"
proof -
  have "list_all (\<lambda>(k, j). valid_utf8 k \<and> encodable j \<and> nesting j = 0)
      [(''CurrentTerm'', enc_uint (CurrentTerm hs)), (''VotedFor'', JStr (VotedFor hs))]"
    using assms by (simp add: wf_hard_state_def)
  then show ?thesis
    using assms unfolding unmarshalHardState_def marshalHardState_def wf_hard_state_def
    by (subst unmarshal_object) (simp_all add: updHardState_def is_field_def)
qed

definition wf_snapshot :: "Snapshot \<Rightarrow> bool" where
  "wf_snapshot s \<longleftrightarrow> LastIncludedIndex s < u64_size \<and> LastIncludedTerm s < u64_size"

lemma snapshot_file_roundtrip:
  assumes "wf_snapshot s"
  shows "unmarshalSnapshot (marshalSnapshot s) = Some s"
proof -
  have "list_all (\<lambda>(k, j). valid_utf8 k \<and> encodable j \<and> nesting j = 0)
      [(''last_included_index'', enc_uint (LastIncludedIndex s)),
       (''last_included_term'', enc_uint (LastIncludedTerm s)), (''data'', enc_bytes (Data s))]"
    by simp
  then show ?thesis
    using assms unfolding unmarshalSnapshot_def marshalSnapshot_def wf_snapshot_def
    by (subst unmarshal_object) (simp_all add: updSnapshot_def is_field_def)
qed

definition wf_record :: "walRecord \<Rightarrow> bool" where
  "wf_record r \<longleftrightarrow> valid_utf8 (wr_Type r) \<and> wr_Term r < u64_size \<and> wr_Index r < u64_size \<and> wr_From r < u64_size"

lemma updRecord_fields:
  "updRecord ''type'' (JStr t) r = Some (r\<lparr>wr_Type := t\<rparr>)"
  "n < u64_size \<Longrightarrow> updRecord ''term'' (enc_uint n) r = Some (r\<lparr>wr_Term := n\<rparr>)"
  "n < u64_size \<Longrightarrow> updRecord ''index'' (enc_uint n) r = Some (r\<lparr>wr_Index := n\<rparr>)"
  "updRecord ''command'' (enc_bytes b) r = Some (r\<lparr>wr_Command := b\<rparr>)"
  "n < u64_size \<Longrightarrow> updRecord ''from'' (enc_uint n) r = Some (r\<lparr>wr_From := n\<rparr>)"
  by (simp_all add: updRecord_def is_field_def)

lemma dec_members_append: "dec_members upd (xs @ ys) r = Option.bind (dec_members upd xs r) (dec_members upd ys)"
proof (induction xs arbitrary: r)
  case (Cons x xs)
  then show ?case by (cases x; cases "upd (fst x) (snd x) r") auto
qed simp

lemma dec_omitempty:
  "upd k j r = Some r' \<Longrightarrow> (zero \<Longrightarrow> r' = r) \<Longrightarrow> dec_members upd (omitempty zero k j) r = Some r'"
  by (simp add: omitempty_def)

lemma record_roundtrip:
  assumes "wf_record r"
  shows "unmarshalRecord (marshalRecord r) = Some r"
proof -
  let ?t = "omitempty (wr_Term r = 0) ''term'' (enc_uint (wr_Term r))"
  let ?i = "omitempty (wr_Index r = 0) ''index'' (enc_uint (wr_Index r))"
  let ?c = "omitempty (wr_Command r = []) ''command'' (enc_bytes (wr_Command r))"
  let ?f = "omitempty (wr_From r = 0) ''from'' (enc_uint (wr_From r))"
  note wf = assms [unfolded wf_record_def]
  have "list_all (\<lambda>(k, j). valid_utf8 k \<and> encodable j \<and> nesting j = 0)
      ((''type'', JStr (wr_Type r)) # ?t @ ?i @ ?c @ ?f)"
    using wf by (auto simp: omitempty_def)
  then have "unmarshalRecord (marshalRecord r) = dec_members updRecord ((''type'', JStr (wr_Type r)) # ?t @ ?i @ ?c @ ?f) zeroRecord"
    unfolding unmarshalRecord_def marshalRecord_def by (rule unmarshal_object)
  also have "\<dots> = Some (zeroRecord\<lparr>wr_Type := wr_Type r, wr_Term := wr_Term r, wr_Index := wr_Index r,
      wr_Command := wr_Command r, wr_From := wr_From r\<rparr>)"
    using wf by (simp add: dec_members_append updRecord_fields omitempty_def zeroRecord_def)
  finally show ?thesis by (cases r) (simp add: zeroRecord_def)
qed

section \<open>Framing\<close>

lemma read_le32:
  assumes "n < 2 ^ 32"
  shows "read_le32 (le32 n @ b) = n"
proof -
  have n: "n = n mod 256 + 256 * (n div 256)" by simp
  have m: "n div 256 = n div 256 mod 256 + 256 * (n div 256 div 256)"
    "n div 256 div 256 = n div 256 div 256 mod 256 + 256 * (n div 256 div 256 div 256)" by simp_all
  have "n div 256 div 256 div 256 < 256"
    using assms by (intro less_mult_imp_div_less) simp
  then have "n div 256 div 256 div 256 mod 256 = n div 256 div 256 div 256" by simp
  moreover have "n div 65536 = n div 256 div 256" "n div 16777216 = n div 256 div 256 div 256"
    by (simp_all add: div_mult2_eq [symmetric])
  moreover have "n mod 256 + 256 * (n div 256 mod 256) + 65536 * (n div 256 div 256 mod 256) +
      16777216 * (n div 256 div 256 div 256) = n"
    using n m by linarith
  ultimately show ?thesis by (simp add: read_le32_def le32_def)
qed

lemma crc32_bound: "crc32 b < 2 ^ 32"
  unfolding crc32_def by (rule order_less_le_trans [OF unsigned_less]) simp

lemma length_le32 [simp]: "length (le32 n) = 4"
  by (simp add: le32_def)

definition small_record :: "walRecord \<Rightarrow> bool" where
  "small_record r \<longleftrightarrow> wf_record r \<and> length (marshalRecord r) \<le> maxRecordSize"

lemma marshalRecord_nonempty: "marshalRecord r \<noteq> []"
  by (simp add: marshalRecord_def)

lemma frame_length: "length (frame r) = 8 + length (marshalRecord r)"
  by (simp add: frame_def Let_def)

lemma small_length: "small_record r \<Longrightarrow> length (marshalRecord r) < 2 ^ 32"
  by (auto simp: small_record_def maxRecordSize_def)

text \<open>What the reader sees at the front of a frame, once its header is there.\<close>

lemma frame_header:
  assumes "small_record r" and "8 \<le> length b" and "prefix b (frame r @ y) \<or> prefix (frame r) b"
  shows "read_le32 b = length (marshalRecord r)" and "read_le32 (drop 4 b) = crc32 (marshalRecord r)"
proof -
  let ?p = "marshalRecord r"
  have f: "frame r = (le32 (length ?p) @ le32 (crc32 ?p)) @ ?p" by (simp add: frame_def Let_def)
  have "\<exists>z z'. frame r @ z = b @ z'"
    using assms(3) by (auto simp: prefix_def)
  then obtain z z' where "take 8 (frame r @ z) = take 8 (b @ z')" by metis
  then have "take 8 b = take 8 (frame r)" using assms(2) frame_length [of r] by simp
  then have "take 8 b = le32 (length ?p) @ le32 (crc32 ?p)" by (simp add: f)
  then have b: "b = le32 (length ?p) @ (le32 (crc32 ?p) @ drop 8 b)"
    by (metis append.assoc append_take_drop_id)
  show "read_le32 b = length ?p"
    using read_le32 [OF small_length [OF assms(1)], of "le32 (crc32 ?p) @ drop 8 b"] b by simp
  have "drop 4 b = le32 (crc32 ?p) @ drop 8 b"
    by (subst b) simp
  then show "read_le32 (drop 4 b) = crc32 ?p" using read_le32 [OF crc32_bound] by simp
qed

text \<open>A framed record is read back, and what follows it is untouched.\<close>

lemma readRecord_frame:
  assumes "small_record r"
  shows "readRecord (frame r @ b) = Some (r, b)"
proof -
  let ?p = "marshalRecord r"
  define w where "w = frame r @ b"
  have len: "8 \<le> length w" by (simp add: w_def frame_length)
  have "read_le32 w = length ?p" "read_le32 (drop 4 w) = crc32 ?p"
    using frame_header [OF assms len] by (simp_all add: w_def)
  moreover have "drop 8 w = ?p @ b" "drop (8 + length ?p) w = b"
    by (simp_all add: w_def frame_def Let_def)
  moreover have "length ?p \<noteq> 0" "length ?p \<le> maxRecordSize" "unmarshalRecord ?p = Some r"
    using assms marshalRecord_nonempty [of r] record_roundtrip [of r] by (simp_all add: small_record_def)
  ultimately have "readRecord w = Some (r, b)"
    using len unfolding readRecord_def Let_def by simp
  then show ?thesis by (simp add: w_def)
qed

text \<open>A frame that is cut short anywhere is not a record.\<close>

lemma readRecord_torn:
  assumes "small_record r" and "prefix b (frame r)" and "b \<noteq> frame r"
  shows "readRecord b = None"
proof (cases "length b < 8")
  case False
  then have "read_le32 b = length (marshalRecord r)"
    using frame_header(1) [OF assms(1), of b "[]"] assms(2) by simp
  moreover have "length b < length (frame r)"
    using assms(2,3) by (metis prefix_length_le prefix_order.le_imp_less_or_eq prefix_length_less)
  ultimately show ?thesis using False frame_length [of r] by (simp add: readRecord_def Let_def)
qed (simp add: readRecord_def)

end
