(* ===== verification/Storage_Atomic.thy ===== *)
theory Storage_Atomic
  imports Storage_Laws
begin

text \<open>
  The atomic replacement of a file, \<open>atomicWrite\<close>: through every failure of every call and every
  power cut the file is the old one or the new one, after success it is the new one for good, and
  no other file is touched.
\<close>

section \<open>Names of temporary files\<close>

text \<open>
  A temporary name carries the number of its inode, so it is new as long as no name carries a
  number that is still to be given out.
\<close>

definition temp_of :: "string \<Rightarrow> nat \<Rightarrow> string" where
  "temp_of n k = n @ ''.tmp-'' @ show_nat k"

definition clean_fs :: "FS \<Rightarrow> bool" where
  "clean_fs f \<longleftrightarrow> wf_fs f \<and> (\<forall>n k. temp_of n k \<in> dom (dir f) \<union> dom (ddir f) \<longrightarrow> k < fresh f)"

lemma temp_digits: "takeWhile is_digit (rev (temp_of n k)) = rev (show_nat k)"
proof -
  have "takeWhile is_digit (rev (show_nat k) @ CHR ''-'' # xs) = rev (show_nat k)" for xs
    using show_nat_digits [of k] by (subst takeWhile_append2) (auto simp: list_all_iff is_digit_def)
  then show ?thesis by (simp add: temp_of_def)
qed

lemma temp_of_inject: "temp_of n k = temp_of m j \<Longrightarrow> k = j"
  using temp_digits [of n k] temp_digits [of m j] read_show_nat [of k] read_show_nat [of j] by (metis rev_rev_ident)

lemma temp_of_last: "is_digit (last (temp_of n k))"
  using show_nat_digits [of k] show_nat_nonempty [of k] by (simp add: temp_of_def list_all_iff)

lemma not_temp [simp]:
  "temp_of n k \<noteq> hardStateFile" "temp_of n k \<noteq> snapshotFile" "temp_of n k \<noteq> walFile"
  "hardStateFile \<noteq> temp_of n k" "snapshotFile \<noteq> temp_of n k" "walFile \<noteq> temp_of n k"
proof -
  have "\<not> is_digit (last hardStateFile)" "\<not> is_digit (last snapshotFile)" "\<not> is_digit (last walFile)"
    by (simp_all add: hardStateFile_def snapshotFile_def walFile_def is_digit_def)
  then show "temp_of n k \<noteq> hardStateFile" "temp_of n k \<noteq> snapshotFile" "temp_of n k \<noteq> walFile"
    "hardStateFile \<noteq> temp_of n k" "snapshotFile \<noteq> temp_of n k" "walFile \<noteq> temp_of n k"
    using temp_of_last [of n k] by metis+
qed

lemma tempName_eq: "tempName n f = temp_of n (fresh f)"
  by (simp add: tempName_def temp_of_def)

lemma tempName_new:
  assumes "clean_fs f"
  shows "dir f (tempName n f) = None" and "ddir f (tempName n f) = None"
  using assms unfolding clean_fs_def tempName_eq by blast+

section \<open>Steps of a call\<close>

text \<open>The files of \<open>f\<close> and \<open>f'\<close> are the same; only the clock of the oracle has moved.\<close>

definition same_files :: "FS \<Rightarrow> FS \<Rightarrow> bool" where
  "same_files f f' \<longleftrightarrow> inodes f' = inodes f \<and> dir f' = dir f \<and> ddir f' = ddir f \<and> fresh f' = fresh f"

lemma sys_cases:
  assumes "sys bad good f = (f', ok)"
  obtains f1 where "same_files f f1" and "ok" and "f' = good f1"
    | f1 k where "same_files f f1" and "\<not> ok" and "f' = bad k f1"
proof -
  let ?f = "f\<lparr>ticks := Suc (ticks f)\<rparr>"
  have same: "same_files f ?f" by (simp add: same_files_def)
  show thesis
  proof (cases "faults f (ticks f)")
    case None
    then show thesis using assms that(1) [OF same] by (simp add: sys_def Let_def)
  next
    case (Some k)
    then show thesis using assms that(2) [OF same, of k] by (simp add: sys_def Let_def)
  qed
qed

lemma try_sysI:
  assumes "\<And>f. r = (f, False) \<Longrightarrow> R (f, Some e)" and "\<And>f. r = (f, True) \<Longrightarrow> R (k f)"
  shows "R (try_sys r e k)"
  using assms by (cases r) (auto simp: try_sys_def)

lemma fs_noop_files: "fs_noop f = (f', ok) \<Longrightarrow> same_files f f'"
  unfolding fs_noop_def by (erule sys_cases) simp_all

section \<open>Atomic writes\<close>

text \<open>
  The states an atomic write goes through, relative to the file system \<open>f0\<close> it starts from: the
  temporary file holds \<open>x\<close>; the file has been replaced, with \<open>dd\<close> as the synced directory.
\<close>

definition staged :: "FS \<Rightarrow> string \<Rightarrow> inode \<Rightarrow> FS \<Rightarrow> bool" where
  "staged f0 tmp x f \<longleftrightarrow> inodes f = (inodes f0)(fresh f0 \<mapsto> x) \<and> dir f = (dir f0)(tmp \<mapsto> fresh f0) \<and>
     ddir f = ddir f0 \<and> fresh f = Suc (fresh f0)"

definition discarded :: "FS \<Rightarrow> FS \<Rightarrow> bool" where
  "discarded f0 f \<longleftrightarrow> (\<exists>x. inodes f = (inodes f0)(fresh f0 \<mapsto> x)) \<and> dir f = dir f0 \<and> ddir f = ddir f0 \<and>
     fresh f = Suc (fresh f0)"

definition swapped :: "FS \<Rightarrow> string \<Rightarrow> bytes \<Rightarrow> (string \<rightharpoonup> nat) \<Rightarrow> FS \<Rightarrow> bool" where
  "swapped f0 name data dd f \<longleftrightarrow> inodes f = (inodes f0)(fresh f0 \<mapsto> \<lparr>cur = data, stable = data\<rparr>) \<and>
     dir f = (dir f0)(name \<mapsto> fresh f0) \<and> ddir f = dd \<and> fresh f = Suc (fresh f0)"

lemma same_files_trans: "same_files f g \<Longrightarrow> same_files g h \<Longrightarrow> same_files f h"
  by (simp add: same_files_def)

lemma staged_same: "staged f0 tmp x f \<Longrightarrow> same_files f f' \<Longrightarrow> staged f0 tmp x f'"
  by (simp add: staged_def same_files_def)

lemma swapped_same: "swapped f0 n b dd f \<Longrightarrow> same_files f f' \<Longrightarrow> swapped f0 n b dd f'"
  by (simp add: swapped_def same_files_def)

definition swap_result :: "FS \<Rightarrow> string \<Rightarrow> string \<Rightarrow> bytes \<Rightarrow> FS \<times> err option \<Rightarrow> bool" where
  "swap_result f0 tmp name data = (\<lambda>(f, e).
     (e \<noteq> None \<and> ((\<exists>x. staged f0 tmp x f) \<or> swapped f0 name data (ddir f0) f)) \<or>
     (e = None \<and> swapped f0 name data (dir f) f))"

lemma syncDir_result:
  assumes "swapped f0 name data (ddir f0) f"
  shows "swap_result f0 tmp name data (syncDir f)"
  unfolding syncDir_def
proof (rule try_sysI)
  fix f1
  assume "fs_noop f = (f1, False)"
  then show "swap_result f0 tmp name data (f1, Some ''opening directory'')"
    using swapped_same [OF assms fs_noop_files] by (auto simp: swap_result_def)
next
  fix f1
  assume "fs_noop f = (f1, True)"
  then have 1: "swapped f0 name data (ddir f0) f1" using swapped_same [OF assms fs_noop_files] by blast
  show "swap_result f0 tmp name data (try_sys (fs_sync_dir f1) ''syncing directory'' (\<lambda>f. (f, None)))"
  proof (rule try_sysI)
    fix f2
    assume "fs_sync_dir f1 = (f2, False)"
    then have "same_files f1 f2" unfolding fs_sync_dir_def by (rule sys_cases) simp_all
    then show "swap_result f0 tmp name data (f2, Some ''syncing directory'')"
      using swapped_same [OF 1] by (simp add: swap_result_def)
  next
    fix f2
    assume "fs_sync_dir f1 = (f2, True)"
    then obtain f' where "same_files f1 f'" "f2 = f'\<lparr>ddir := dir f'\<rparr>"
      unfolding fs_sync_dir_def by (rule sys_cases) simp_all
    then show "swap_result f0 tmp name data (f2, None)"
      using 1 by (simp add: swap_result_def swapped_def same_files_def)
  qed
qed

lemma swapIn_result:
  assumes st: "staged f0 tmp x f" and x: "cur x = data" and new: "dir f0 tmp = None" and tn: "tmp \<noteq> name"
  shows "swap_result f0 tmp name data (swapIn tmp name (fresh f0) f)"
  unfolding swapIn_def
proof (rule try_sysI)
  fix f1
  assume "fs_sync (fresh f0) f = (f1, False)"
  then have "same_files f f1" unfolding fs_sync_def by (rule sys_cases) simp_all
  then show "swap_result f0 tmp name data (f1, Some ''syncing temp file'')"
    using staged_same [OF st] by (auto simp: swap_result_def)
next
  fix f1
  assume "fs_sync (fresh f0) f = (f1, True)"
  then obtain f' where f': "same_files f f'"
      "f1 = f'\<lparr>inodes := (inodes f')(fresh f0 := map_option (\<lambda>f. f\<lparr>stable := cur f\<rparr>) (inodes f' (fresh f0)))\<rparr>"
    unfolding fs_sync_def by (rule sys_cases) simp_all
  have 1: "staged f0 tmp \<lparr>cur = data, stable = data\<rparr> f1"
    using staged_same [OF st f'(1)] x by (cases x) (simp add: f'(2) staged_def)
  show "swap_result f0 tmp name data (try_sys (fs_noop f1) ''closing temp file''
      (\<lambda>f. try_sys (fs_rename tmp name f) ''replacing file'' syncDir))"
  proof (rule try_sysI)
    fix f2
    assume "fs_noop f1 = (f2, False)"
    then show "swap_result f0 tmp name data (f2, Some ''closing temp file'')"
      using staged_same [OF 1 fs_noop_files] by (auto simp: swap_result_def)
  next
    fix f2
    assume "fs_noop f1 = (f2, True)"
    then have 2: "staged f0 tmp \<lparr>cur = data, stable = data\<rparr> f2" using staged_same [OF 1 fs_noop_files] by blast
    show "swap_result f0 tmp name data (try_sys (fs_rename tmp name f2) ''replacing file'' syncDir)"
    proof (rule try_sysI)
      fix f3
      assume "fs_rename tmp name f2 = (f3, False)"
      then have "same_files f2 f3" unfolding fs_rename_def by (rule sys_cases) simp_all
      then show "swap_result f0 tmp name data (f3, Some ''replacing file'')"
        using staged_same [OF 2] by (auto simp: swap_result_def)
    next
      fix f3
      assume "fs_rename tmp name f2 = (f3, True)"
      then obtain f' where "same_files f2 f'" "f3 = f'\<lparr>dir := (dir f')(name := dir f' tmp, tmp := None)\<rparr>"
        unfolding fs_rename_def by (rule sys_cases) simp_all
      then have "swapped f0 name data (ddir f0) f3"
        using 2 new tn by (auto simp: swapped_def staged_def same_files_def fun_eq_iff)
      then show "swap_result f0 tmp name data (syncDir f3)" by (rule syncDir_result)
    qed
  qed
qed

text \<open>What an atomic write leaves, once the temporary name is removed.\<close>

definition write_result :: "FS \<Rightarrow> string \<Rightarrow> bytes \<Rightarrow> FS \<times> err option \<Rightarrow> bool" where
  "write_result f0 name data = (\<lambda>(f, e).
     (e \<noteq> None \<and> (same_files f0 f \<or> discarded f0 f \<or> (\<exists>x n. staged f0 (tempName n f0) x f) \<or>
        swapped f0 name data (ddir f0) f)) \<or>
     (e = None \<and> swapped f0 name data (dir f) f))"

lemma removing_result:
  assumes "swap_result f0 (tempName n f0) name data r" and new: "dir f0 (tempName n f0) = None"
    and tn: "tempName n f0 \<noteq> name"
  shows "write_result f0 name data (removing (tempName n f0) r)"
proof -
  obtain f e where r: "r = (f, e)" by (cases r)
  obtain f1 ok where rm: "fs_remove (tempName n f0) f = (f1, ok)" by (cases "fs_remove (tempName n f0) f")
  have f1: "same_files f f1 \<or> (\<exists>f'. same_files f f' \<and> f1 = f'\<lparr>dir := (dir f')(tempName n f0 := None)\<rparr>)"
    using rm unfolding fs_remove_def by (elim sys_cases) auto
  have st: "discarded f0 f1 \<or> staged f0 (tempName n f0) x f1" if "staged f0 (tempName n f0) x f" for x
    using f1 that new by (auto simp: discarded_def staged_def same_files_def)
  have sw: "swapped f0 name data (dd f1) f1"
    if "swapped f0 name data (dd f) f" "dd = dir \<or> dd = ddir \<or> dd = (\<lambda>_. ddir f0)" for dd :: "FS \<Rightarrow> string \<rightharpoonup> nat"
  proof -
    have "dir f1 = dir f" using f1 that(1) new tn by (auto simp: swapped_def same_files_def)
    then show ?thesis using f1 that by (auto simp: swapped_def same_files_def)
  qed
  show ?thesis
    using assms(1) st sw [of "\<lambda>_. ddir f0"] sw [of dir]
    by (auto simp: r rm removing_def swap_result_def write_result_def)
qed

lemma atomicWrite_result:
  assumes "clean_fs f0" and "tempName name f0 \<noteq> name"
  shows "write_result f0 name data (atomicWrite name data f0)"
proof -
  let ?tmp = "tempName name f0"
  note new = tempName_new(1) [OF assms(1), of name]
  obtain f o' where c: "fs_create_temp ?tmp f0 = (f, o')" by (cases "fs_create_temp ?tmp f0")
  show ?thesis
  proof (cases o')
    case None
    then have "same_files f0 f"
      using c by (auto simp: fs_create_temp_def split: prod.splits if_splits elim: sys_cases)
    then show ?thesis using c None by (simp add: atomicWrite_def write_result_def)
  next
    case (Some i)
    then obtain f' where f': "same_files f0 f'" "f = add_file ?tmp f'" and i: "i = fresh f0"
      using c by (auto simp: fs_create_temp_def split: prod.splits if_splits elim!: sys_cases)
    have st: "staged f0 ?tmp \<lparr>cur = [], stable = []\<rparr> f"
      using f' by (simp add: staged_def add_file_def same_files_def)
    have "swap_result f0 ?tmp name data
        (try_sys (fs_write i 0 data f) ''writing temp file'' (swapIn ?tmp name i))"
    proof (rule try_sysI)
      fix f1
      assume "fs_write i 0 data f = (f1, False)"
      then obtain g k where "same_files f g" "f1 = put_bytes i 0 (take k data) g"
        unfolding fs_write_def by (rule sys_cases) simp_all
      then have "\<exists>x. staged f0 ?tmp x f1"
        using staged_same [OF st] i by (auto simp: staged_def put_bytes_def)
      then show "swap_result f0 ?tmp name data (f1, Some ''writing temp file'')"
        by (simp add: swap_result_def)
    next
      fix f1
      assume "fs_write i 0 data f = (f1, True)"
      then obtain g where g: "same_files f g" "f1 = put_bytes i 0 data g"
        unfolding fs_write_def by (rule sys_cases) simp_all
      then have "staged f0 ?tmp \<lparr>cur = data, stable = []\<rparr> f1"
        using staged_same [OF st g(1)] i by (simp add: staged_def put_bytes_def overwrite_def)
      then show "swap_result f0 ?tmp name data (swapIn ?tmp name i f1)"
        unfolding i by (rule swapIn_result) (use new assms(2) in simp_all)
    qed
    then show ?thesis
      using removing_result [OF _ new assms(2)] c Some by (simp add: atomicWrite_def)
  qed
qed

text \<open>
  The consequences. No file that existed before is touched, so what can be read under another
  name is what could be read before.
\<close>

lemma write_result_cases:
  assumes "write_result f0 name data (f, e)"
  obtains (same) "e \<noteq> None" and "same_files f0 f"
    | (thrown) "e \<noteq> None" and "discarded f0 f"
    | (staging) x n where "e \<noteq> None" and "staged f0 (tempName n f0) x f"
    | (unsynced) "e \<noteq> None" and "swapped f0 name data (ddir f0) f"
    | (synced) "e = None" and "swapped f0 name data (dir f) f"
  using assms unfolding write_result_def by fastforce

lemmas result_defs = same_files_def discarded_def staged_def swapped_def

lemma write_result_inodes:
  assumes "write_result f0 name data (f, e)"
  shows "fresh f0 \<le> fresh f" and "\<And>i. i \<noteq> fresh f0 \<Longrightarrow> inodes f i = inodes f0 i"
  using assms by (cases rule: write_result_cases; auto simp: result_defs)+

lemma write_result_entries:
  assumes "write_result f0 name data (f, e)"
  shows "n \<noteq> name \<Longrightarrow> (\<And>m. n \<noteq> tempName m f0) \<Longrightarrow> entries_of f n \<subseteq> entries_of f0 n"
    and "entries_of f n \<subseteq> entries_of f0 n \<union> {fresh f0}"
  using assms by (cases rule: write_result_cases; auto simp: result_defs entries_of_def split: if_splits)+

text \<open>The new file has one name.\<close>

lemma write_result_new:
  assumes "write_result f0 name data (f, e)" and "clean_fs f0"
    and "fresh f0 \<in> entries_of f n" and "fresh f0 \<in> entries_of f m"
  shows "n = m"
proof -
  have "fresh f0 \<notin> entries_of f0 k" for k using assms(2) by (auto simp: clean_fs_def wf_fs_def)
  then have old: "dir f0 k \<noteq> Some (fresh f0)" "ddir f0 k \<noteq> Some (fresh f0)" for k by (auto simp: entries_of_def)
  from assms(1) show ?thesis
    by (cases rule: write_result_cases)
      (use assms(3,4) old in \<open>auto simp: result_defs entries_of_def split: if_splits\<close>)
qed

lemma write_result_wf:
  assumes w: "write_result f0 name data (f, e)" and c: "clean_fs f0"
  shows "wf_fs f"
proof -
  have wf: "wf_fs f0" using c by (simp add: clean_fs_def)
  have "inodes f i \<noteq> None \<longleftrightarrow> i < fresh f" for i
  proof -
    have old: "inodes f0 i \<noteq> None \<longleftrightarrow> i < fresh f0" using wf unfolding wf_fs_def by blast
    from w show ?thesis
      by (cases rule: write_result_cases) (use old in \<open>auto simp: result_defs\<close>)
  qed
  moreover have below: "i < fresh f" if "i \<in> entries_of f n" for n i
  proof (cases "i = fresh f0")
    case True
    have "fresh f0 < fresh f"
    proof (rule ccontr)
      assume old: "\<not> fresh f0 < fresh f"
      from w have "same_files f0 f"
        by (cases rule: write_result_cases) (use old in \<open>auto simp: result_defs\<close>)
      then have "fresh f0 \<in> entries_of f0 n" using that True by (simp add: same_files_def entries_of_def)
      then show False using wf unfolding wf_fs_def by blast
    qed
    then show ?thesis using True by simp
  next
    case False
    then have "i \<in> entries_of f0 n" using write_result_entries(2) [OF w] that by blast
    then have "i < fresh f0" using wf unfolding wf_fs_def by blast
    then show ?thesis using write_result_inodes(1) [OF w] by simp
  qed
  moreover have "entries_of f n \<inter> entries_of f m = {}" if "n \<noteq> m" for n m
  proof (rule ccontr)
    assume "entries_of f n \<inter> entries_of f m \<noteq> {}"
    then obtain i where i: "i \<in> entries_of f n" "i \<in> entries_of f m" by blast
    then have "i \<noteq> fresh f0" using write_result_new [OF w c] that by blast
    then have "i \<in> entries_of f0 n \<inter> entries_of f0 m" using write_result_entries(2) [OF w] i by blast
    then show False using wf that unfolding wf_fs_def by blast
  qed
  ultimately show ?thesis unfolding wf_fs_def by blast
qed

lemma write_result_clean:
  assumes w: "write_result f0 name data (f, e)" and c: "clean_fs f0" and nt: "\<And>n k. name \<noteq> temp_of n k"
  shows "clean_fs f"
proof -
  have "k < fresh f" if "temp_of n k \<in> dom (dir f) \<union> dom (ddir f)" for n k
  proof -
    have old: "k < fresh f0" if "temp_of n k \<in> dom (dir f0) \<union> dom (ddir f0)"
      using c that unfolding clean_fs_def by blast
    have ne: "temp_of n k \<noteq> name" using nt by metis
    from w have "k < fresh f0 \<or> temp_of n k \<in> range (\<lambda>m. tempName m f0) \<and> fresh f = Suc (fresh f0)"
      by (cases rule: write_result_cases)
        (use that old ne in \<open>auto simp: result_defs dom_def split: if_splits\<close>)
    then show ?thesis
      using write_result_inodes(1) [OF w] temp_of_inject unfolding tempName_eq by force
  qed
  then show ?thesis using write_result_wf [OF w c] by (simp add: clean_fs_def)
qed

lemma could_find_old:
  assumes "wf_fs f0" and "\<And>i. i \<noteq> fresh f0 \<Longrightarrow> inodes f i = inodes f0 i" and "\<And>i. j = Some i \<Longrightarrow> i \<in> entries_of f0 n"
  shows "could_find f j c = could_find f0 j c"
proof (cases j)
  case (Some i)
  then have "i < fresh f0" using assms(1,3) by (auto simp: wf_fs_def)
  then show ?thesis using assms(2) Some by (simp add: could_find_def)
qed (simp add: could_find_def)

text \<open>Other names: what can be read does not grow, and the current file stays.\<close>

lemma write_result_other:
  assumes w: "write_result f0 name data (f, e)" and c: "clean_fs f0"
    and n: "n \<noteq> name" "\<And>m. n \<noteq> tempName m f0"
  shows "could_read f n b \<Longrightarrow> could_read f0 n b" and "dir f n = dir f0 n"
proof -
  have wf: "wf_fs f0" using c by (simp add: clean_fs_def)
  note ino = write_result_inodes(2) [OF w]
  show d: "dir f n = dir f0 n"
    using w by (cases rule: write_result_cases) (use n in \<open>auto simp: result_defs\<close>)
  have "ddir f n = ddir f0 n \<or> ddir f n = dir f0 n"
    using w by (cases rule: write_result_cases) (use n in \<open>auto simp: result_defs\<close>)
  moreover have "could_find f (dir f0 n) b = could_find f0 (dir f0 n) b"
    by (rule could_find_old [OF wf ino]) (auto simp: entries_of_def)
  moreover have "could_find f (ddir f0 n) b = could_find f0 (ddir f0 n) b"
    by (rule could_find_old [OF wf ino]) (auto simp: entries_of_def)
  ultimately show "could_read f n b \<Longrightarrow> could_read f0 n b" using d by (auto simp: could_read_def)
qed

text \<open>The name written: old or new on failure, new on success.\<close>

lemma write_result_name:
  assumes w: "write_result f0 name data (f, e)" and c: "clean_fs f0" and nt: "\<And>n k. name \<noteq> temp_of n k"
  shows "could_read f name b \<Longrightarrow> could_read f0 name b \<or> b = Some data"
    and "e = None \<Longrightarrow> could_read f name b \<longleftrightarrow> b = Some data"
    and "content f name = content f0 name \<or> content f name = Some data"
    and "e = None \<Longrightarrow> content f name = Some data"
proof -
  have wf: "wf_fs f0" using c by (simp add: clean_fs_def)
  note ino = write_result_inodes(2) [OF w]
  have tn: "name \<noteq> tempName m f0" for m using nt unfolding tempName_eq by metis
  have old: "could_find f (dir f0 name) b = could_find f0 (dir f0 name) b"
    "could_find f (ddir f0 name) b = could_find f0 (ddir f0 name) b"
    by (rule could_find_old [OF wf ino]; auto simp: entries_of_def)+
  have new: "could_find f (Some (fresh f0)) b \<longleftrightarrow> b = Some data" if "swapped f0 name data dd f" for dd
    using that survives_synced [of "\<lparr>cur = data, stable = data\<rparr>"] by (auto simp: swapped_def could_find_def)
  show "could_read f name b \<Longrightarrow> could_read f0 name b \<or> b = Some data"
    using w by (cases rule: write_result_cases)
      (use old new tn in \<open>auto simp: could_read_def result_defs\<close>)
  show "e = None \<Longrightarrow> could_read f name b \<longleftrightarrow> b = Some data"
    using w by (cases rule: write_result_cases) (use new in \<open>auto simp: could_read_def swapped_def\<close>)
  have nf: "dir f0 name \<noteq> Some (fresh f0)" using wf by (auto simp: wf_fs_def entries_of_def)
  from w show "content f name = content f0 name \<or> content f name = Some data"
    by (cases rule: write_result_cases)
      (use tn nf in \<open>auto simp: content_def result_defs split: Option.bind_splits\<close>)
  show "e = None \<Longrightarrow> content f name = Some data"
    using w by (cases rule: write_result_cases) (auto simp: content_def swapped_def)
qed

end
