(* ===== verification/Storage_Disk.thy ===== *)
theory Storage_Disk
  imports Storage_Atomic
begin

text \<open>
  The invariant of a \<open>FileStore\<close> and its directory, and what each operation does to the files it
  is not about: the write-ahead log never touches the hard state or the snapshot, nor the other
  way round.
\<close>

section \<open>Writes through a handle\<close>

text \<open>\<open>f'\<close> differs from \<open>f\<close> at most in the bytes of the existing file \<open>i\<close>.\<close>

definition touches :: "nat \<Rightarrow> FS \<Rightarrow> FS \<Rightarrow> bool" where
  "touches i f f' \<longleftrightarrow> dir f' = dir f \<and> ddir f' = ddir f \<and> fresh f' = fresh f \<and>
     (\<forall>j. j \<noteq> i \<longrightarrow> inodes f' j = inodes f j) \<and> (inodes f' i = None \<longleftrightarrow> inodes f i = None)"

lemma touches_refl [simp]: "touches i f f"
  by (simp add: touches_def)

lemma touches_trans: "touches i f g \<Longrightarrow> touches i g h \<Longrightarrow> touches i f h"
  by (simp add: touches_def)

lemma same_touches: "same_files f f' \<Longrightarrow> touches i f f'"
  by (simp add: touches_def same_files_def)

lemma same_files_could_read: "same_files f g \<Longrightarrow> could_read g n b = could_read f n b"
proof -
  assume s: "same_files f g"
  then have "could_find g j b = could_find f j b" for j
    by (simp add: could_find_def same_files_def split: option.split)
  then show ?thesis using s by (simp add: could_read_def same_files_def)
qed

lemma touches_write: "fs_write i pos b f = (f', ok) \<Longrightarrow> touches i f f'"
  unfolding fs_write_def by (erule sys_cases) (auto simp: touches_def same_files_def put_bytes_def)

lemma touches_sync: "fs_sync i f = (f', ok) \<Longrightarrow> touches i f f'"
  unfolding fs_sync_def by (erule sys_cases) (auto simp: touches_def same_files_def)

lemma touches_truncate: "fs_truncate i n f = (f', ok) \<Longrightarrow> touches i f f'"
  unfolding fs_truncate_def by (erule sys_cases) (auto simp: touches_def same_files_def)

lemma touches_clean:
  assumes "touches i f f'" and "clean_fs f"
  shows "clean_fs f'"
proof -
  have "inodes f' j \<noteq> None \<longleftrightarrow> inodes f j \<noteq> None" for j
    using assms(1) by (cases "j = i") (auto simp: touches_def)
  moreover have "entries_of f' = entries_of f" using assms(1) by (auto simp: touches_def entries_of_def fun_eq_iff)
  ultimately show ?thesis
    using assms unfolding clean_fs_def wf_fs_def touches_def by simp
qed

lemma touches_other:
  assumes "touches i f f'" and "i \<notin> entries_of f n"
  shows "could_read f' n b = could_read f n b" and "dir f' n = dir f n" and "entries_of f' = entries_of f"
proof -
  have "could_find f' j b = could_find f j b" if "j = dir f n \<or> j = ddir f n" for j
  proof (cases j)
    case (Some k)
    then have "k \<noteq> i" using assms(2) that by (auto simp: entries_of_def)
    then show ?thesis using assms(1) Some by (simp add: could_find_def touches_def)
  qed (simp add: could_find_def)
  then show "could_read f' n b = could_read f n b"
    using assms(1) by (simp add: could_read_def touches_def)
  show "dir f' n = dir f n" "entries_of f' = entries_of f"
    using assms(1) by (auto simp: touches_def entries_of_def fun_eq_iff)
qed

section \<open>The invariant\<close>

definition wf_disk :: "Disk \<Rightarrow> bool" where
  "wf_disk d \<longleftrightarrow> clean_fs (fs d) \<and>
     (\<forall>i pos. wal d = Some (i, pos) \<longrightarrow> i < fresh (fs d) \<and> (\<forall>n. i \<in> entries_of (fs d) n \<longrightarrow> n = walFile))"

text \<open>
  Nothing new can be read under the names outside \<open>ns\<close>; the names of the three files are what
  matters, temporary names may come and go.
\<close>

definition preserves :: "string set \<Rightarrow> Disk \<Rightarrow> Disk \<Rightarrow> bool" where
  "preserves ns d d' \<longleftrightarrow> wf_disk d' \<and>
     (\<forall>n b. n \<notin> ns \<longrightarrow> n \<in> {hardStateFile, snapshotFile, walFile} \<longrightarrow>
        could_read (fs d') n b \<longrightarrow> could_read (fs d) n b)"

lemma file_names [simp]:
  "hardStateFile \<noteq> snapshotFile" "snapshotFile \<noteq> hardStateFile" "hardStateFile \<noteq> walFile"
  "walFile \<noteq> hardStateFile" "snapshotFile \<noteq> walFile" "walFile \<noteq> snapshotFile"
  by (simp_all add: hardStateFile_def snapshotFile_def walFile_def)

lemma preserves_refl: "wf_disk d \<Longrightarrow> preserves ns d d"
  by (simp add: preserves_def)

lemma preserves_trans: "preserves ns d e \<Longrightarrow> preserves ns e g \<Longrightarrow> preserves ns d g"
  by (simp add: preserves_def)

lemma preserves_wf: "preserves ns d d' \<Longrightarrow> wf_disk d'"
  by (simp add: preserves_def)

text \<open>A write through the log's handle, which may move its position.\<close>

lemma touches_preserves:
  assumes wf: "wf_disk d" and w: "wal d = Some (i, pos)" and t: "touches i (fs d) f'"
  shows "preserves {walFile} d (d\<lparr>fs := f', wal := Some (i, pos')\<rparr>)"
proof -
  have i: "i < fresh (fs d)" "\<And>n. i \<in> entries_of (fs d) n \<Longrightarrow> n = walFile" and c: "clean_fs (fs d)"
    using wf w by (auto simp: wf_disk_def)
  have "could_read f' n b \<Longrightarrow> could_read (fs d) n b" if "n \<noteq> walFile" for n b
    using touches_other(1) [OF t] i(2) that by blast
  moreover have "wf_disk (d\<lparr>fs := f', wal := Some (i, pos')\<rparr>)"
    using touches_clean [OF t c] touches_other(3) [OF t, of "[]"] i t
    by (auto simp: wf_disk_def touches_def entries_of_def)
  ultimately show ?thesis by (simp add: preserves_def)
qed

text \<open>Replacing a file by an atomic write.\<close>

lemma write_result_preserves:
  assumes wf: "wf_disk d" and w: "write_result (fs d) name data (f, e)" and nm: "name \<in> {hardStateFile, snapshotFile}"
  shows "preserves {name} d (d\<lparr>fs := f\<rparr>)"
proof -
  have c: "clean_fs (fs d)" using wf by (simp add: wf_disk_def)
  have nt: "name \<noteq> temp_of n k" for n k using nm by auto
  have "could_read f n b \<Longrightarrow> could_read (fs d) n b" if "n \<noteq> name" "n \<in> {hardStateFile, snapshotFile, walFile}" for n b
    using that by (intro write_result_other(1) [OF w c]) (auto simp: tempName_eq)
  moreover have "i < fresh f \<and> (\<forall>n. i \<in> entries_of f n \<longrightarrow> n = walFile)" if "wal d = Some (i, pos)" for i pos
  proof -
    have i: "i < fresh (fs d)" "\<And>n. i \<in> entries_of (fs d) n \<Longrightarrow> n = walFile" using wf that by (auto simp: wf_disk_def)
    then show ?thesis using write_result_inodes(1) [OF w] write_result_entries(2) [OF w] by fastforce
  qed
  ultimately show ?thesis
    using write_result_clean [OF w c nt] by (simp add: preserves_def wf_disk_def)
qed

section \<open>The operations\<close>

lemma SaveHardState_preserves:
  "wf_disk d \<Longrightarrow> FS_SaveHardState hs d = (d', e) \<Longrightarrow> preserves {hardStateFile} d d'"
  using write_result_preserves [of d hardStateFile "marshalHardState hs"]
    atomicWrite_result [of "fs d" hardStateFile "marshalHardState hs"]
  by (auto simp: FS_SaveHardState_def wf_disk_def tempName_eq split: prod.splits)

lemma SaveSnapshot_preserves:
  "wf_disk d \<Longrightarrow> FS_SaveSnapshot s d = (d', e) \<Longrightarrow> preserves {snapshotFile} d d'"
  using write_result_preserves [of d snapshotFile "marshalSnapshot s"]
    atomicWrite_result [of "fs d" snapshotFile "marshalSnapshot s"]
  by (auto simp: FS_SaveSnapshot_def wf_disk_def tempName_eq split: prod.splits)

lemma writeRecord_preserves:
  assumes "wf_disk d" and "writeRecord r d = (d', e)"
  shows "preserves {walFile} d d'"
proof (cases "wal d")
  case None
  then show ?thesis using assms preserves_refl by (auto simp: writeRecord_def)
next
  case (Some w)
  obtain i pos where w: "wal d = Some (i, pos)" using Some by (cases w) auto
  obtain f ok where f: "fs_write i pos (frame r) (fs d) = (f, ok)" by fastforce
  then show ?thesis
    using assms(2) touches_preserves [OF assms(1) w touches_write [OF f]] by (auto simp: writeRecord_def w)
qed

lemma syncWAL_preserves:
  assumes "wf_disk d" and "syncWAL d = (d', e)"
  shows "preserves {walFile} d d'"
proof (cases "wal d")
  case None
  then show ?thesis using assms preserves_refl by (auto simp: syncWAL_def)
next
  case (Some w)
  obtain i pos where w: "wal d = Some (i, pos)" using Some by (cases w) auto
  obtain f ok where f: "fs_sync i (fs d) = (f, ok)" by fastforce
  have eq: "d\<lparr>fs := f, wal := Some (i, pos)\<rparr> = d\<lparr>fs := f\<rparr>" using w by simp
  have "preserves {walFile} d (d\<lparr>fs := f\<rparr>)"
    using touches_preserves [OF assms(1) w touches_sync [OF f], of pos] unfolding eq .
  then show ?thesis using assms(2) by (auto simp: syncWAL_def w f)
qed

lemma writeRecords_preserves:
  "wf_disk d \<Longrightarrow> writeRecords rs d = (d', e) \<Longrightarrow> preserves {walFile} d d'"
proof (induction rs arbitrary: d)
  case (Cons r rs)
  obtain d1 e1 where d1: "writeRecord r d = (d1, e1)" by fastforce
  note p = writeRecord_preserves [OF Cons(2) d1]
  show ?case
    using Cons(3) d1 p preserves_trans [OF p Cons(1) [OF preserves_wf [OF p]]] by (auto split: option.splits)
qed (simp add: preserves_refl)

lemma AppendEntries_preserves:
  assumes "wf_disk d" and "FS_AppendEntries es d = (d', e)"
  shows "preserves {walFile} d d'"
proof (cases "es = []")
  case False
  obtain d1 e1 where d1: "writeRecords (map appendRecord es) d = (d1, e1)" by fastforce
  note p = writeRecords_preserves [OF assms(1) d1]
  show ?thesis
    using assms(2) False d1 p preserves_trans [OF p syncWAL_preserves [OF preserves_wf [OF p]]]
    by (auto simp: FS_AppendEntries_def split: option.splits)
qed (use assms preserves_refl in \<open>simp add: FS_AppendEntries_def\<close>)

lemma TruncateSuffix_preserves:
  assumes "wf_disk d" and "FS_TruncateSuffix from d = (d', e)"
  shows "preserves {walFile} d d'"
proof -
  obtain d1 e1 where d1: "writeRecord (truncateRecord from) d = (d1, e1)" by fastforce
  note p = writeRecord_preserves [OF assms(1) d1]
  show ?thesis
    using assms(2) d1 p preserves_trans [OF p syncWAL_preserves [OF preserves_wf [OF p]]]
    by (auto simp: FS_TruncateSuffix_def split: option.splits)
qed

lemma replayLoop_files: "replayLoop b off es f = (f', r) \<Longrightarrow> same_files f f'"
proof (induction b off es f arbitrary: f' r rule: replayLoop.induct)
  case (1 b off es f)
  obtain f1 ok1 where f1: "fs_noop f = (f1, ok1)" by fastforce
  note s1 = fs_noop_files [OF f1]
  obtain f2 ok2 where f2: "fs_noop f1 = (f2, ok2)" by fastforce
  note s2 = same_files_trans [OF s1 fs_noop_files [OF f2]]
  show ?case
  proof (cases "ok1 \<and> ok2 \<and> (\<exists>x b' es'. readRecord b = Some (x, b') \<and> applyRecord x es = Inr es')")
    case True
    then obtain x b' es' where x: "readRecord b = Some (x, b')" "applyRecord x es = Inr es'" and ok: "ok1" "ok2" by blast
    have "replayLoop b' (off + (length b - length b')) es' f2 = (f', r)"
      using 1(2) f1 f2 x ok readRecord_header [OF x(1)] by (simp add: replayLoop.simps [of b])
    then have "same_files f2 f'" using 1(1) f1 f2 x ok readRecord_header [OF x(1)] by (metis (mono_tags))
    then show ?thesis by (rule same_files_trans [OF s2])
  next
    case False
    then have "f' = f1 \<or> f' = f2"
      using 1(2) f1 f2 by (auto simp: replayLoop.simps [of b] split: bool.splits option.splits sum.splits prod.splits if_splits)
    then show ?thesis using s1 s2 by blast
  qed
qed

lemma LoadEntries_preserves:
  assumes "wf_disk d" and "FS_LoadEntries d = (d', r)"
  shows "preserves {walFile} d d'"
proof (cases "wal d")
  case None
  then show ?thesis using assms preserves_refl by (auto simp: FS_LoadEntries_def)
next
  case (Some w)
  obtain i pos where w: "wal d = Some (i, pos)" using Some by (cases w) auto
  have "\<exists>f' pos'. touches i (fs d) f' \<and> d' = d\<lparr>fs := f', wal := Some (i, pos')\<rparr>"
  proof -
    obtain f1 ok1 where f1: "fs_noop (fs d) = (f1, ok1)" by fastforce
    note t1 = same_touches [OF fs_noop_files [OF f1], of i]
    have keep: "d\<lparr>fs := f\<rparr> = d\<lparr>fs := f, wal := Some (i, pos)\<rparr>" for f using w by simp
    obtain f2 r2 where f2: "replayLoop (case inodes f1 i of None \<Rightarrow> [] | Some x \<Rightarrow> cur x) 0 [] f1 = (f2, r2)" by fastforce
    note t2 = touches_trans [OF t1 same_touches [OF replayLoop_files [OF f2]]]
    show ?thesis
    proof (cases "ok1 \<and> (\<exists>off es. r2 = Inr (off, es))")
      case False
      then have "d' = d\<lparr>fs := f1\<rparr> \<or> d' = d\<lparr>fs := f2\<rparr>"
        using assms(2) w f1 f2 by (auto simp: FS_LoadEntries_def split: bool.splits sum.splits)
      then show ?thesis using t1 t2 keep by metis
    next
      case True
      then obtain off es where r2: "r2 = Inr (off, es)" and ok1: "ok1" by blast
      obtain f3 ok3 where f3: "fs_truncate i off f2 = (f3, ok3)" by fastforce
      note t3 = touches_trans [OF t2 touches_truncate [OF f3]]
      obtain f4 ok4 where f4: "fs_noop f3 = (f4, ok4)" by fastforce
      note t4 = touches_trans [OF t3 same_touches [OF fs_noop_files [OF f4]]]
      have "d' = d\<lparr>fs := f3\<rparr> \<or> d' = d\<lparr>fs := f4\<rparr> \<or> d' = d\<lparr>fs := f4, wal := Some (i, off)\<rparr>"
        using assms(2) w f1 f2 f3 f4 r2 ok1 by (auto simp: FS_LoadEntries_def split: bool.splits)
      then show ?thesis using t3 t4 keep by metis
    qed
  qed
  then show ?thesis using touches_preserves [OF assms(1) w] by metis
qed

section \<open>Compaction\<close>

definition wal_image :: "LogEntry list \<Rightarrow> bytes" where
  "wal_image es = concat (map (frame \<circ> appendRecord) es)"

lemma writeTemp_result:
  assumes "staged f0 tmp x f" and "dir f0 tmp = None" and "tmp \<noteq> name"
  shows "swap_result f0 tmp name (cur x @ concat (map frame rs))
    (writeTemp (fresh f0) (length (cur x)) rs (swapIn tmp name (fresh f0)) f)"
  using assms(1)
proof (induction rs arbitrary: x f)
  case Nil
  then show ?case using swapIn_result [OF Nil refl assms(2,3)] by simp
next
  case (Cons r rs)
  let ?i = "fresh f0"
  have "swap_result f0 tmp name (cur x @ concat (map frame (r # rs)))
      (try_sys (fs_write ?i (length (cur x)) (frame r) f) ''writing temp wal''
        (writeTemp ?i (length (cur x) + length (frame r)) rs (swapIn tmp name ?i)))"
  proof (rule try_sysI)
    fix f1
    assume "fs_write ?i (length (cur x)) (frame r) f = (f1, False)"
    then obtain g k where "same_files f g" "f1 = put_bytes ?i (length (cur x)) (take k (frame r)) g"
      unfolding fs_write_def by (rule sys_cases) simp_all
    then have "\<exists>y. staged f0 tmp y f1"
      using staged_same [OF Cons(2)] by (auto simp: staged_def put_bytes_def)
    then show "swap_result f0 tmp name (cur x @ concat (map frame (r # rs))) (f1, Some ''writing temp wal'')"
      by (simp add: swap_result_def)
  next
    fix f1
    assume "fs_write ?i (length (cur x)) (frame r) f = (f1, True)"
    then obtain g where g: "same_files f g" "f1 = put_bytes ?i (length (cur x)) (frame r) g"
      unfolding fs_write_def by (rule sys_cases) simp_all
    then have "staged f0 tmp (x\<lparr>cur := cur x @ frame r\<rparr>) f1"
      using staged_same [OF Cons(2) g(1)] by (cases x) (simp add: staged_def put_bytes_def overwrite_def)
    from Cons(1) [OF this] show "swap_result f0 tmp name (cur x @ concat (map frame (r # rs)))
        (writeTemp ?i (length (cur x) + length (frame r)) rs (swapIn tmp name ?i) f1)"
      by simp
  qed
  then show ?case by simp
qed

lemma reopenWAL_result:
  assumes "swapped f0 walFile data (dir (fs d)) (fs d)" and "reopenWAL d = (d', e)"
  shows "swapped f0 walFile data (dir (fs d')) (fs d') \<and>
    (e = None \<longrightarrow> wal d' = Some (fresh f0, length data)) \<and> (e \<noteq> None \<longrightarrow> wal d' = wal d)"
proof -
  have i: "dir (fs d) walFile = Some (fresh f0)" using assms(1) by (simp add: swapped_def)
  obtain f1 o1 where f1: "fs_open walFile (fs d) = (f1, o1)" by fastforce
  have s1: "same_files (fs d) f1" and o1: "o1 = None \<or> o1 = Some (fresh f0)"
    using f1 i unfolding fs_open_def
    by (auto split: prod.splits elim!: sys_cases simp: same_files_def)
  obtain f2 ok2 where f2: "fs_noop f1 = (f2, ok2)" by fastforce
  note s2 = same_files_trans [OF s1 fs_noop_files [OF f2]]
  have w: "swapped f0 walFile data (dir f) f" if "same_files (fs d) f" for f
    using assms(1) that by (simp add: swapped_def same_files_def)
  have "inodes f2 (fresh f0) = Some \<lparr>cur = data, stable = data\<rparr>" using w [OF s2] by (simp add: swapped_def)
  then show ?thesis
    using assms(2) o1 w [OF s1] w [OF s2] by (auto simp: reopenWAL_def f1 f2 split: option.splits bool.splits)
qed

lemma Compact_result:
  assumes c: "clean_fs (fs d)" and r: "FS_Compact es d = (d', e)"
  shows "\<exists>e0. write_result (fs d) walFile (wal_image es) (fs d', e0) \<and>
    (e = None \<longrightarrow> e0 = None \<and> wal d' = Some (fresh (fs d), length (wal_image es))) \<and>
    (e \<noteq> None \<longrightarrow> wal d' = wal d)"
proof -
  let ?f0 = "fs d" and ?tmp = "tempName walFile (fs d)"
  note new = tempName_new(1) [OF c, of walFile]
  have tn: "?tmp \<noteq> walFile" by (simp add: tempName_eq)
  obtain f o' where cr: "fs_create_temp ?tmp ?f0 = (f, o')" by fastforce
  show ?thesis
  proof (cases o')
    case None
    then have "same_files ?f0 f"
      using cr by (auto simp: fs_create_temp_def split: prod.splits if_splits elim: sys_cases)
    then have "write_result ?f0 walFile (wal_image es) (f, Some [])" by (simp add: write_result_def)
    then show ?thesis using r cr None by (auto simp: FS_Compact_def Let_def)
  next
    case (Some i)
    then obtain f' where f': "same_files ?f0 f'" "f = add_file ?tmp f'" and i: "i = fresh ?f0"
      using cr by (auto simp: fs_create_temp_def split: prod.splits if_splits elim!: sys_cases)
    have st: "staged ?f0 ?tmp \<lparr>cur = [], stable = []\<rparr> f"
      using f' by (simp add: staged_def add_file_def same_files_def)
    obtain f1 e1 where wt: "writeTemp i 0 (map appendRecord es) (swapIn ?tmp walFile i) f = (f1, e1)" by fastforce
    have sr: "swap_result ?f0 ?tmp walFile (wal_image es) (f1, e1)"
      using writeTemp_result [OF st new tn, of "map appendRecord es"] wt by (simp add: i wal_image_def)
    show ?thesis
    proof (cases e1)
      case (Some x)
      then have "d' = d\<lparr>fs := fst (fs_remove ?tmp f1)\<rparr>" "e = Some x"
        using r cr wt \<open>o' = Some i\<close> by (auto simp: FS_Compact_def Let_def)
      then show ?thesis
        using removing_result [OF sr new tn] Some by (auto simp: removing_def)
    next
      case None
      have sw: "swapped ?f0 walFile (wal_image es) (dir f1) f1" using sr None by (simp add: swap_result_def)
      obtain d1 e2 where ro: "reopenWAL (d\<lparr>fs := f1\<rparr>) = (d1, e2)" by fastforce
      have d1: "swapped ?f0 walFile (wal_image es) (dir (fs d1)) (fs d1)"
          "e2 = None \<longrightarrow> wal d1 = Some (fresh ?f0, length (wal_image es))" "e2 \<noteq> None \<longrightarrow> wal d1 = wal d"
        using reopenWAL_result [of ?f0 "wal_image es" "d\<lparr>fs := f1\<rparr>", OF _ ro] sw by simp_all
      have d': "d' = d1\<lparr>fs := fst (fs_remove ?tmp (fs d1))\<rparr>" "e = e2"
        using r cr wt \<open>o' = Some i\<close> None ro by (auto simp: FS_Compact_def Let_def)
      have "write_result ?f0 walFile (wal_image es) (removing ?tmp (fs d1, None))"
        by (rule removing_result [OF _ new tn]) (simp add: swap_result_def d1(1))
      then show ?thesis using d1 d' by (auto simp: removing_def)
    qed
  qed
qed

lemma Compact_preserves:
  assumes wf: "wf_disk d" and r: "FS_Compact es d = (d', e)"
  shows "preserves {walFile} d d'"
proof -
  let ?f0 = "fs d"
  have c: "clean_fs ?f0" using wf by (simp add: wf_disk_def)
  obtain e0 where w: "write_result ?f0 walFile (wal_image es) (fs d', e0)"
      and ok: "e = None \<longrightarrow> e0 = None \<and> wal d' = Some (fresh ?f0, length (wal_image es))"
      and bad: "e \<noteq> None \<longrightarrow> wal d' = wal d"
    using Compact_result [OF c r] by blast
  have "could_read (fs d') n b \<Longrightarrow> could_read ?f0 n b" if "n \<noteq> walFile" "n \<in> {hardStateFile, snapshotFile, walFile}" for n b
    using that by (intro write_result_other(1) [OF w c]) (auto simp: tempName_eq)
  moreover have "i < fresh (fs d') \<and> (\<forall>n. i \<in> entries_of (fs d') n \<longrightarrow> n = walFile)" if "wal d' = Some (i, pos)" for i pos
  proof (cases e)
    case None
    have sw: "swapped ?f0 walFile (wal_image es) (dir (fs d')) (fs d')"
      using w ok None by (simp add: write_result_def)
    then have "fresh ?f0 \<in> entries_of (fs d') walFile" by (simp add: swapped_def entries_of_def)
    then show ?thesis
      using write_result_new [OF w c] that ok None sw by (auto simp: swapped_def)
  next
    case (Some x)
    then have i: "i < fresh ?f0" "\<And>n. i \<in> entries_of ?f0 n \<Longrightarrow> n = walFile" using wf that bad by (auto simp: wf_disk_def)
    then show ?thesis using write_result_inodes(1) [OF w] write_result_entries(2) [OF w] by fastforce
  qed
  ultimately show ?thesis
    using write_result_clean [OF w c] by (simp add: preserves_def wf_disk_def)
qed

section \<open>Restarts\<close>

text \<open>
  What a new process may find: the directory as the old process left it, or what a power cut made
  of it, with any faults to come. Opening the store creates the log file if it is missing.
\<close>

definition crashed :: "FS \<Rightarrow> FS \<Rightarrow> bool" where
  "crashed f f' \<longleftrightarrow> same_files f f' \<or> power_loss f f'"

lemma crashed_clean: "crashed f f' \<Longrightarrow> clean_fs f \<Longrightarrow> clean_fs f'"
proof -
  assume c: "crashed f f'" "clean_fs f"
  from c(1) show ?thesis unfolding crashed_def
  proof
    assume "same_files f f'"
    then show ?thesis using touches_clean [OF same_touches] c(2) by blast
  next
    assume p: "power_loss f f'"
    then have wf: "wf_fs f'" "fresh f' = fresh f" using power_loss_wf c(2) by (auto simp: clean_fs_def power_loss_def)
    have "k < fresh f'" if t: "temp_of n k \<in> dom (dir f') \<union> dom (ddir f')" for n k
    proof -
      have "entries_of f' (temp_of n k) \<noteq> {}" using t by (auto simp: entries_of_def)
      then have "entries_of f (temp_of n k) \<noteq> {}" using power_loss_entries [OF p] by blast
      then have "temp_of n k \<in> dom (dir f) \<union> dom (ddir f)" by (auto simp: entries_of_def)
      then have "k < fresh f" using c(2) unfolding clean_fs_def by blast
      then show ?thesis using wf(2) by simp
    qed
    then show ?thesis using wf(1) unfolding clean_fs_def by blast
  qed
qed

lemma crashed_could_read: "crashed f f' \<Longrightarrow> could_read f' n b \<Longrightarrow> could_read f n b"
  using power_loss_could_read [of f f' n b] same_files_could_read [of f f' n b] by (auto simp: crashed_def)

lemma add_file_entries:
  "entries_of (add_file n f) m \<subseteq> (if m = n then insert (fresh f) (entries_of f m) else entries_of f m)"
  by (auto simp: entries_of_def add_file_def)

lemma clean_fresh: "clean_fs f \<Longrightarrow> fresh f \<notin> entries_of f m"
  by (auto simp: clean_fs_def wf_fs_def)

lemma add_file_clean:
  assumes c: "clean_fs f" and nt: "\<And>m k. n \<noteq> temp_of m k"
  shows "clean_fs (add_file n f)"
proof -
  let ?h = "add_file n f"
  note old = clean_fresh [OF c] and ent = add_file_entries [of n f]
  have "inodes ?h k \<noteq> None \<longleftrightarrow> k < fresh ?h" for k
    using c by (auto simp: clean_fs_def wf_fs_def add_file_def less_Suc_eq)
  moreover have "k < fresh ?h" if "k \<in> entries_of ?h m" for k m
  proof -
    have "k = fresh f \<or> k \<in> entries_of f m" using ent [of m] that by (auto split: if_splits)
    moreover have "k < fresh f" if "k \<in> entries_of f m" using c that unfolding clean_fs_def wf_fs_def by blast
    ultimately show ?thesis by (auto simp: add_file_def)
  qed
  moreover have "entries_of ?h m \<inter> entries_of ?h k = {}" if "m \<noteq> k" for m k
  proof -
    have "entries_of f m \<inter> entries_of f k = {}" using c that unfolding clean_fs_def wf_fs_def by blast
    then show ?thesis using ent [of m] ent [of k] old that by (auto split: if_splits)
  qed
  ultimately have "wf_fs ?h" unfolding wf_fs_def by blast
  moreover have "k < fresh ?h" if "temp_of m k \<in> dom (dir ?h) \<union> dom (ddir ?h)" for m k
  proof -
    have "temp_of m k \<in> dom (dir f) \<union> dom (ddir f)" using that nt [of m k] by (auto simp: add_file_def split: if_splits)
    then have "k < fresh f" using c unfolding clean_fs_def by blast
    then show ?thesis by (simp add: add_file_def)
  qed
  ultimately show ?thesis unfolding clean_fs_def by blast
qed

lemma add_file_other:
  assumes "clean_fs f" and "m \<noteq> n"
  shows "could_read (add_file n f) m b = could_read f m b"
proof -
  have "could_find (add_file n f) j b = could_find f j b" if "j = dir f m \<or> j = ddir f m" for j
    using clean_fresh [OF assms(1), of m] that by (cases j) (auto simp: could_find_def add_file_def entries_of_def)
  then show ?thesis using assms(2) by (simp add: could_read_def add_file_def)
qed

lemma NewFileStore_ok:
  assumes c: "clean_fs f" and r: "NewFileStore f = (f', Inr d)"
  shows "wf_disk d" and "n \<in> {hardStateFile, snapshotFile} \<Longrightarrow> could_read (fs d) n b \<Longrightarrow> could_read f n b"
proof -
  obtain f1 where f1: "fs_noop f = (f1, True)" using r by (auto simp: NewFileStore_def split: prod.splits bool.splits)
  obtain f2 i where f2: "fs_open walFile f1 = (f2, Some i)" "d = \<lparr>fs = f2, wal = Some (i, 0)\<rparr>"
    using r f1 by (auto simp: NewFileStore_def split: prod.splits option.splits)
  obtain g where g: "same_files f1 g" "f2 = (if dir g walFile = None then add_file walFile g else g)" "dir f2 walFile = Some i"
    using f2(1) by (auto simp: fs_open_def split: prod.splits if_splits elim!: sys_cases)
  note sg = same_files_trans [OF fs_noop_files [OF f1] g(1)]
  have cg: "clean_fs g" using touches_clean [OF same_touches [OF sg] c] .
  have c2: "clean_fs f2" using g(2) cg add_file_clean [OF cg, of walFile] by simp
  have "i \<in> entries_of f2 walFile" using g(3) by (simp add: entries_of_def)
  then have "i < fresh f2" "\<And>m. i \<in> entries_of f2 m \<Longrightarrow> m = walFile"
    using c2 unfolding clean_fs_def wf_fs_def by blast+
  then show "wf_disk d" using c2 by (simp add: wf_disk_def f2(2))
  have "could_read f2 n b = could_read f n b" if "n \<noteq> walFile"
    using add_file_other [OF cg that, of b] same_files_could_read [OF sg, of n b] g(2) by simp
  then show "n \<in> {hardStateFile, snapshotFile} \<Longrightarrow> could_read (fs d) n b \<Longrightarrow> could_read f n b"
    by (auto simp: f2(2))
qed

end
