(* ===== verification/Storage_Wal.thy ===== *)
theory Storage_Wal
  imports Storage_Disk
begin

text \<open>
  The write-ahead log as a list of entries: what each operation of \<^verbatim>\<open>storage/wal.go\<close> makes of the
  log a later process recovers, when it succeeds, when it fails half-way, and when the power goes.
\<close>

section \<open>Replaying bytes\<close>

function replay :: "bytes \<Rightarrow> LogEntry list \<Rightarrow> err + LogEntry list" where
  "replay b es =
     (case readRecord b of None \<Rightarrow> Inr es | Some (r, b') \<Rightarrow> bind_res (applyRecord r es) (replay b'))"
  by pat_completeness auto
termination
  by (relation "measure (\<lambda>(b, _). length b)") (auto dest: readRecord_shorter)

declare replay.simps [simp del]

text \<open>How many bytes the valid records at the front take.\<close>

function valid_len :: "bytes \<Rightarrow> nat" where
  "valid_len b = (case readRecord b of None \<Rightarrow> 0 | Some (r, b') \<Rightarrow> (length b - length b') + valid_len b')"
  by pat_completeness auto
termination
  by (relation "measure length") (auto dest: readRecord_shorter)

declare valid_len.simps [simp del]

text \<open>No call fails from here on.\<close>

definition faultless :: "FS \<Rightarrow> bool" where
  "faultless f \<longleftrightarrow> (\<forall>t \<ge> ticks f. faults f t = None \<and> unreadable f t = {})"

lemma sys_faultless:
  assumes "faultless f"
  shows "sys bad good f = (good (f\<lparr>ticks := Suc (ticks f)\<rparr>), True)" and "faultless (f\<lparr>ticks := Suc (ticks f)\<rparr>)"
  using assms by (simp_all add: sys_def faultless_def Let_def)

lemma noop_faultless:
  assumes "faultless f"
  shows "\<exists>f'. fs_noop f = (f', True) \<and> same_files f f' \<and> faultless f'"
  using sys_faultless [OF assms] by (simp add: fs_noop_def same_files_def)

lemma replayLoop_pure:
  assumes "faultless f"
  shows "\<exists>f'. same_files f f' \<and> faultless f' \<and>
    replayLoop b off es f = (f', bind_res (replay b es) (\<lambda>l. Inr (off + valid_len b, l)))"
  using assms
proof (induction b off es f rule: replayLoop.induct)
  case (1 b off es f)
  obtain f1 where f1: "fs_noop f = (f1, True)" "same_files f f1" "faultless f1" using noop_faultless [OF 1(2)] by blast
  obtain f2 where f2: "fs_noop f1 = (f2, True)" "same_files f1 f2" "faultless f2" using noop_faultless [OF f1(3)] by blast
  note s2 = same_files_trans [OF f1(2) f2(2)]
  show ?case
  proof (cases "readRecord b")
    case None
    then show ?thesis
      using f1 f2 s2 by (cases "headerOk b") (auto simp: replayLoop.simps [of b] replay.simps [of b] valid_len.simps [of b])
  next
    case (Some x)
    obtain r b' where x: "readRecord b = Some (r, b')" using Some by (cases x) auto
    note h = readRecord_header [OF x]
    show ?thesis
    proof (cases "applyRecord r es")
      case (Inl e)
      then show ?thesis using f1 f2 s2 x h by (auto simp: replayLoop.simps [of b] replay.simps [of b])
    next
      case (Inr es')
      obtain f' where f': "same_files f2 f'" "faultless f'"
          "replayLoop b' (off + (length b - length b')) es' f2 =
             (f', bind_res (replay b' es') (\<lambda>l. Inr (off + (length b - length b') + valid_len b', l)))"
        using 1(1) [OF f1(1) [symmetric]] f2 x Inr h by (metis (no_types, lifting))
      then show ?thesis
        using f1(1) f2(1) x Inr h same_files_trans [OF s2 f'(1)]
        by (intro exI [of _ f']) (simp add: replayLoop.simps [of b] replay.simps [of b] valid_len.simps [of b] add.assoc)
    qed
  qed
qed

section \<open>Images of records\<close>

definition image_of :: "walRecord list \<Rightarrow> bytes" where
  "image_of rs = concat (map frame rs)"

fun replay_records :: "walRecord list \<Rightarrow> LogEntry list \<Rightarrow> err + LogEntry list" where
  "replay_records [] es = Inr es"
| "replay_records (r # rs) es = bind_res (applyRecord r es) (replay_records rs)"

lemma image_of_simps [simp]:
  "image_of [] = []" "image_of (r # rs) = frame r @ image_of rs" "image_of (rs @ ss) = image_of rs @ image_of ss"
  by (simp_all add: image_of_def)

lemma replay_records_append:
  "replay_records (rs @ ss) es = bind_res (replay_records rs es) (replay_records ss)"
proof (induction rs arbitrary: es)
  case (Cons r rs)
  then show ?case by (cases "applyRecord r es") simp_all
qed simp

lemma replay_image:
  assumes "\<forall>r \<in> set rs. small_record r" and "readRecord p = None"
  shows "replay (image_of rs @ p) es = replay_records rs es" and "valid_len (image_of rs @ p) = length (image_of rs)"
proof -
  have "replay (image_of rs @ p) es = replay_records rs es \<and> valid_len (image_of rs @ p) = length (image_of rs)"
    using assms
  proof (induction rs arbitrary: es)
    case Nil
    then show ?case by (simp add: replay.simps [of p] valid_len.simps [of p])
  next
    case (Cons r rs)
    have r: "readRecord (frame r @ (image_of rs @ p)) = Some (r, image_of rs @ p)"
      using Cons(2) by (intro readRecord_frame) simp
    have "replay (image_of rs @ p) = replay_records rs" using Cons by (intro ext) simp
    then show ?case
      using Cons r by (simp add: replay.simps [of "frame r @ _"] valid_len.simps [of "frame r @ _"])
  qed
  then show "replay (image_of rs @ p) es = replay_records rs es" "valid_len (image_of rs @ p) = length (image_of rs)" by auto
qed

text \<open>What is left of an interrupted sequence of writes: some whole records and a torn one.\<close>

lemma torn_image:
  assumes "\<forall>r \<in> set rs. small_record r" and "prefix q (image_of rs)"
  shows "\<exists>k p. k \<le> length rs \<and> q = image_of (take k rs) @ p \<and> readRecord p = None"
  using assms
proof (induction rs arbitrary: q)
  case Nil
  then show ?case by (auto simp: readRecord_def)
next
  case (Cons r rs)
  show ?case
  proof (cases "prefix (frame r) q")
    case True
    then obtain q' where q': "q = frame r @ q'" by (auto simp: prefix_def)
    obtain k p where "k \<le> length rs" "q' = image_of (take k rs) @ p" "readRecord p = None"
      using Cons(1) [of q'] Cons(2,3) q' by auto
    then show ?thesis using q' by (intro exI [of _ "Suc k"] exI [of _ p]) simp
  next
    case False
    then have "prefix q (frame r)" "q \<noteq> frame r" using Cons(3) by (auto simp: prefix_append)
    then have "readRecord q = None" using readRecord_torn [of r q] Cons(2) by simp
    then show ?thesis by (intro exI [of _ 0] exI [of _ q]) simp
  qed
qed


section \<open>The log a store holds\<close>

text \<open>
  The file is linked for good; its current bytes are whole records, and so are its synced bytes up
  to a tail that no reader takes for a record.
\<close>

definition holds_image :: "Disk \<Rightarrow> nat \<Rightarrow> walRecord list \<Rightarrow> bytes \<Rightarrow> bool" where
  "holds_image d i rs p \<longleftrightarrow>
     wal d = Some (i, length (image_of rs)) \<and> dir (fs d) walFile = Some i \<and> ddir (fs d) walFile = Some i \<and>
     inodes (fs d) i = Some \<lparr>cur = image_of rs, stable = image_of rs @ p\<rparr> \<and> readRecord p = None \<and>
     (\<forall>r \<in> set rs. small_record r)"

definition holds_log :: "Disk \<Rightarrow> LogEntry list \<Rightarrow> bool" where
  "holds_log d l \<longleftrightarrow> wf_disk d \<and> (\<exists>i rs p. holds_image d i rs p \<and> replay_records rs [] = Inr l)"

definition reads_as :: "bytes \<Rightarrow> LogEntry list \<Rightarrow> bool" where
  "reads_as c l \<longleftrightarrow> (\<exists>rs p. c = image_of rs @ p \<and> readRecord p = None \<and> (\<forall>r \<in> set rs. small_record r) \<and>
     replay_records rs [] = Inr l)"

text \<open>Every content a later process may find reads as one of the logs.\<close>

definition readable :: "FS \<Rightarrow> LogEntry list set \<Rightarrow> bool" where
  "readable f L \<longleftrightarrow> (\<forall>c. could_read f walFile c \<longrightarrow> (\<exists>b l. c = Some b \<and> reads_as b l \<and> l \<in> L))"

definition reloaded :: "FS \<Rightarrow> (Disk \<times> (err + LogEntry list)) option" where
  "reloaded f = (case NewFileStore f of (_, Inl _) \<Rightarrow> None | (_, Inr d) \<Rightarrow> Some (FS_LoadEntries d))"

text \<open>A restart that meets no fault finds one of the logs; after a power cut the store holds it for good.\<close>

definition recovers :: "Disk \<Rightarrow> LogEntry list set \<Rightarrow> bool" where
  "recovers d L \<longleftrightarrow> (\<forall>f. crashed (fs d) f \<and> faultless f \<longrightarrow>
     (\<exists>d' l. reloaded f = Some (d', Inr l) \<and> l \<in> L \<and> (power_loss (fs d) f \<longrightarrow> holds_log d' l)))"

section \<open>Reopening\<close>

lemma NewFileStore_existing:
  assumes "faultless f" and "dir f walFile = Some i"
  shows "\<exists>f'. NewFileStore f = (f', Inr \<lparr>fs = f', wal = Some (i, 0)\<rparr>) \<and> same_files f f' \<and> faultless f'"
proof -
  obtain f1 where f1: "fs_noop f = (f1, True)" "same_files f f1" "faultless f1" using noop_faultless [OF assms(1)] by blast
  let ?f = "f1\<lparr>ticks := Suc (ticks f1)\<rparr>"
  have "fs_open walFile f1 = (?f, Some i)"
    using assms(2) f1(2) by (simp add: fs_open_def sys_faultless(1) [OF f1(3)] same_files_def)
  then show ?thesis
    using f1 sys_faultless(2) [OF f1(3)] by (simp add: NewFileStore_def same_files_def)
qed

text \<open>Without a fault the store opens, also where there is no log file yet.\<close>

lemma NewFileStore_faultless:
  assumes "faultless f"
  shows "\<exists>f' i. NewFileStore f = (f', Inr \<lparr>fs = f', wal = Some (i, 0)\<rparr>) \<and> faultless f'"
proof (cases "dir f walFile")
  case None
  obtain f1 where f1: "fs_noop f = (f1, True)" "same_files f f1" "faultless f1"
    using noop_faultless [OF assms] by blast
  have "\<exists>f' i. fs_open walFile f1 = (f', Some i) \<and> faultless f'"
    using None f1(2) sys_faultless(2) [OF f1(3)]
    by (simp add: fs_open_def sys_faultless(1) [OF f1(3)] same_files_def add_file_def faultless_def)
  then show ?thesis using f1(1) by (auto simp: NewFileStore_def)
next
  case (Some i)
  then show ?thesis using NewFileStore_existing [OF assms] by blast
qed

lemma LoadEntries_image:
  assumes fl: "faultless (fs d)" and w: "wal d = Some (i, pos)" and x: "inodes (fs d) i = Some x"
    and c: "cur x = image_of rs @ p" "readRecord p = None" "\<forall>r \<in> set rs. small_record r"
    and l: "replay_records rs [] = Inr l"
  shows "\<exists>f. FS_LoadEntries d = (\<lparr>fs = f, wal = Some (i, length (image_of rs))\<rparr>, Inr l) \<and>
    inodes f = (inodes (fs d))(i \<mapsto> x\<lparr>cur := image_of rs\<rparr>) \<and> dir f = dir (fs d) \<and> ddir f = ddir (fs d)"
proof -
  obtain f1 where f1: "fs_noop (fs d) = (f1, True)" "same_files (fs d) f1" "faultless f1" using noop_faultless [OF fl] by blast
  have x1: "inodes f1 i = Some x" using x f1(2) by (simp add: same_files_def)
  obtain f2 where f2: "same_files f1 f2" "faultless f2"
      "replayLoop (cur x) 0 [] f1 = (f2, Inr (length (image_of rs), l))"
    using replayLoop_pure [OF f1(3), of "cur x" 0 "[]"] replay_image(1) [OF c(3,2), of "[]"]
      replay_image(2) [OF c(3,2)] c(1) l by auto
  obtain f3 where f3: "fs_truncate i (length (image_of rs)) f2 = (f3, True)" "faultless f3"
      "inodes f3 = (inodes f2)(i := map_option (cur_update (take (length (image_of rs)))) (inodes f2 i))"
      "dir f3 = dir f2" "ddir f3 = ddir f2"
    using sys_faultless [OF f2(2)] by (auto simp: fs_truncate_def faultless_def)
  obtain f4 where f4: "fs_noop f3 = (f4, True)" "same_files f3 f4" using noop_faultless [OF f3(2)] by blast
  have "FS_LoadEntries d = (d\<lparr>fs := f4, wal := Some (i, length (image_of rs))\<rparr>, Inr l)"
    using w f1(1) x1 f2(3) f3(1) f4(1) by (simp add: FS_LoadEntries_def)
  moreover have "inodes f4 = (inodes (fs d))(i \<mapsto> x\<lparr>cur := image_of rs\<rparr>)" "dir f4 = dir (fs d)" "ddir f4 = ddir (fs d)"
    using f1(2) f2(1) f3(3-) f4(2) x c(1) by (auto simp: same_files_def)
  ultimately show ?thesis by (cases d) auto
qed

lemma reloaded_image:
  assumes fl: "faultless f" and c: "clean_fs f" and i: "dir f walFile = Some i" and x: "inodes f i = Some x"
    and b: "cur x = image_of rs @ p" "readRecord p = None" "\<forall>r \<in> set rs. small_record r" and l: "replay_records rs [] = Inr l"
  shows "\<exists>d'. reloaded f = Some (d', Inr l) \<and>
    (ddir f walFile = Some i \<and> stable x = image_of rs @ p' \<and> readRecord p' = None \<longrightarrow> holds_log d' l)"
proof -
  obtain f1 where f1: "NewFileStore f = (f1, Inr \<lparr>fs = f1, wal = Some (i, 0)\<rparr>)" "same_files f f1" "faultless f1"
    using NewFileStore_existing [OF fl i] by blast
  let ?d = "\<lparr>fs = f1, wal = Some (i, 0)\<rparr>"
  have x1: "inodes (fs ?d) i = Some x" using x f1(2) by (simp add: same_files_def)
  obtain f2 where f2: "FS_LoadEntries ?d = (\<lparr>fs = f2, wal = Some (i, length (image_of rs))\<rparr>, Inr l)"
      "inodes f2 = (inodes f1)(i \<mapsto> x\<lparr>cur := image_of rs\<rparr>)" "dir f2 = dir f1" "ddir f2 = ddir f1"
    using LoadEntries_image [OF _ _ x1 b l] f1(3) by auto
  have "wf_disk \<lparr>fs = f2, wal = Some (i, length (image_of rs))\<rparr>"
    using preserves_wf [OF LoadEntries_preserves [OF NewFileStore_ok(1) [OF c f1(1)] f2(1)]] .
  moreover have "reloaded f = Some (\<lparr>fs = f2, wal = Some (i, length (image_of rs))\<rparr>, Inr l)"
    using f1(1) f2(1) by (simp add: reloaded_def)
  moreover have "holds_image \<lparr>fs = f2, wal = Some (i, length (image_of rs))\<rparr> i rs p'"
    if "ddir f walFile = Some i \<and> stable x = image_of rs @ p' \<and> readRecord p' = None"
    using that f1(2) f2(2-) b i by (cases x) (simp add: holds_image_def same_files_def)
  ultimately show ?thesis using l unfolding holds_log_def by blast
qed

lemma readable_recovers:
  assumes r: "readable (fs d) L" and wf: "wf_disk d"
  shows "recovers d L"
  unfolding recovers_def
proof (intro allI impI)
  fix f
  assume f: "crashed (fs d) f \<and> faultless f"
  have c: "clean_fs f" using crashed_clean f wf by (auto simp: wf_disk_def)
  have "could_read (fs d) walFile (content f walFile)"
    using crashed_could_read f could_read_current c by (auto simp: clean_fs_def)
  then obtain b l where b: "content f walFile = Some b" "reads_as b l" "l \<in> L" using r unfolding readable_def by blast
  obtain i x where i: "dir f walFile = Some i" "inodes f i = Some x" "cur x = b"
    using b(1) by (auto simp: content_def bind_eq_Some_conv)
  obtain rs p where rs: "b = image_of rs @ p" "readRecord p = None" "\<forall>r \<in> set rs. small_record r" "replay_records rs [] = Inr l"
    using b(2) unfolding reads_as_def by blast
  obtain d' where d': "reloaded f = Some (d', Inr l)"
      "ddir f walFile = Some i \<and> stable x = image_of rs @ p \<and> readRecord p = None \<longrightarrow> holds_log d' l"
    using reloaded_image [OF _ c i(1,2) _ rs(2-), of p] f i(3) rs(1) by blast
  have "stable x = cur x \<and> ddir f walFile = Some i" if pl: "power_loss (fs d) f"
    using power_loss_inode [OF pl, of i] i pl by (cases "inodes (fs d) i") (auto simp: power_loss_def)
  then have "power_loss (fs d) f \<longrightarrow> holds_log d' l" using d'(2) rs i(3) by auto
  then show "\<exists>d' l. reloaded f = Some (d', Inr l) \<and> l \<in> L \<and> (power_loss (fs d) f \<longrightarrow> holds_log d' l)"
    using d'(1) b(3) by blast
qed

section \<open>Writing records\<close>

text \<open>While records are being appended: the current bytes have grown by \<open>q\<close>.\<close>

definition appending :: "Disk \<Rightarrow> nat \<Rightarrow> bytes \<Rightarrow> bytes \<Rightarrow> bool" where
  "appending d i b s \<longleftrightarrow> dir (fs d) walFile = Some i \<and> ddir (fs d) walFile = Some i \<and>
     inodes (fs d) i = Some \<lparr>cur = b, stable = s\<rparr>"

lemma overwrite_end [simp]: "overwrite (length b) c b = b @ c"
  by (simp add: overwrite_def)

lemma writeRecord_appends:
  assumes a: "appending d i b s" and w: "wal d = Some (i, length b)" and r: "writeRecord r d = (d', e)"
  shows "\<exists>q. prefix q (frame r) \<and> appending d' i (b @ q) s \<and>
    (e = None \<longrightarrow> q = frame r \<and> wal d' = Some (i, length (b @ q)))"
proof -
  obtain f ok where f: "fs_write i (length b) (frame r) (fs d) = (f, ok)" by fastforce
  have d': "fs d' = f" "wal d' = Some (i, length b + arriving (fs d) (frame r))" "e = None \<longleftrightarrow> ok"
    using r w f by (auto simp: writeRecord_def split: if_splits)
  show ?thesis
  proof (cases "faults (fs d) (ticks (fs d))")
    case None
    then have "f = put_bytes i (length b) (frame r) ((fs d)\<lparr>ticks := Suc (ticks (fs d))\<rparr>)"
      using f by (simp add: fs_write_def sys_def Let_def)
    then have "appending d' i (b @ frame r) s" using a d'(1) by (simp add: appending_def put_bytes_def)
    then show ?thesis using d'(2) None by (intro exI [of _ "frame r"]) (simp add: arriving_def)
  next
    case (Some k)
    then have "f = put_bytes i (length b) (take k (frame r)) ((fs d)\<lparr>ticks := Suc (ticks (fs d))\<rparr>)" "\<not> ok"
      using f by (simp_all add: fs_write_def sys_def Let_def)
    then have "appending d' i (b @ take k (frame r)) s" "e \<noteq> None"
      using a d'(1,3) by (simp_all add: appending_def put_bytes_def)
    then show ?thesis by (intro exI [of _ "take k (frame r)"]) (auto simp: take_is_prefix)
  qed
qed

lemma writeRecords_appends:
  assumes "appending d i b s" and "wal d = Some (i, length b)" and "writeRecords rs d = (d', e)"
  shows "\<exists>q. prefix q (image_of rs) \<and> appending d' i (b @ q) s \<and>
    (e = None \<longrightarrow> q = image_of rs \<and> wal d' = Some (i, length (b @ q)))"
  using assms
proof (induction rs arbitrary: d b)
  case (Cons r rs)
  obtain d1 e1 where d1: "writeRecord r d = (d1, e1)" by fastforce
  obtain q where q: "prefix q (frame r)" "appending d1 i (b @ q) s"
      "e1 = None \<longrightarrow> q = frame r \<and> wal d1 = Some (i, length (b @ q))"
    using writeRecord_appends [OF Cons(2,3) d1] by blast
  show ?case
  proof (cases e1)
    case (Some x)
    then have "d' = d1" "e \<noteq> None" using Cons(4) d1 by auto
    then show ?thesis using q by (intro exI [of _ q]) (auto simp: prefix_prefix)
  next
    case None
    then have "writeRecords rs d1 = (d', e)" using Cons(4) d1 by simp
    from Cons(1) [OF q(2) _ this] q(3) None obtain q' where "prefix q' (image_of rs)" "appending d' i ((b @ q) @ q') s"
        "e = None \<longrightarrow> q' = image_of rs \<and> wal d' = Some (i, length ((b @ q) @ q'))" by blast
    then show ?thesis using q(3) None by (intro exI [of _ "frame r @ q'"]) simp
  qed
qed simp

lemma syncWAL_appends:
  assumes a: "appending d i b s" and w: "wal d = Some (i, pos)" and r: "syncWAL d = (d', e)"
  shows "wal d' = wal d \<and> appending d' i b (if e = None then b else s)"
proof -
  obtain f ok where f: "fs_sync i (fs d) = (f, ok)" by fastforce
  then have d': "d' = d\<lparr>fs := f\<rparr>" "e = None \<longleftrightarrow> ok" using r w by (auto simp: syncWAL_def split: if_splits)
  from f [unfolded fs_sync_def] show ?thesis
    by (rule sys_cases) (use a d' in \<open>auto simp: appending_def same_files_def\<close>)
qed

text \<open>What a restart may read in the middle of it.\<close>

lemma appending_readable:
  assumes a: "appending d i (image_of rs @ q) (image_of rs @ p)" and q: "prefix q (image_of new)"
    and p: "readRecord p = None" and small: "\<forall>r \<in> set (rs @ new). small_record r"
    and g: "\<And>k. k \<le> length new \<Longrightarrow> replay_records (rs @ take k new) [] = Inr (g k)"
  shows "readable (fs d) (g ` {..length new})"
  unfolding readable_def
proof (intro allI impI)
  fix c
  assume "could_read (fs d) walFile c"
  then have "could_find (fs d) (Some i) c" using a by (simp add: could_read_def appending_def)
  then obtain b where b: "c = Some b" "b = image_of rs @ q \<or> survives \<lparr>cur = image_of rs @ q, stable = image_of rs @ p\<rparr> b"
    using a by (auto simp: could_find_def appending_def)
  have "b = image_of rs @ p \<or> (\<exists>q'. b = image_of rs @ q' \<and> prefix q' q)"
  proof -
    have "\<exists>q'. b = image_of rs @ q' \<and> prefix q' q"
      if "prefix b (image_of rs @ q)" "prefix (image_of rs) b"
      using that by (auto simp: prefix_def)
    then show ?thesis using b(2) by (auto simp: survives_def)
  qed
  moreover have "reads_as (image_of rs @ p) (g 0)"
    unfolding reads_as_def using p small g [of 0] by (intro exI [of _ rs] exI [of _ p]) simp
  moreover have "\<exists>k \<le> length new. reads_as (image_of rs @ q') (g k)" if q': "prefix q' q" for q'
  proof -
    obtain k t where k: "k \<le> length new" "q' = image_of (take k new) @ t" "readRecord t = None"
      using torn_image [of new q'] small prefix_order.trans [OF q' q] by auto
    then have "reads_as (image_of rs @ q') (g k)"
      unfolding reads_as_def using small g [OF k(1)] set_take_subset [of k new]
      by (intro exI [of _ "rs @ take k new"] exI [of _ t]) auto
    then show ?thesis using k(1) by blast
  qed
  ultimately have "\<exists>k \<le> length new. reads_as b (g k)" by auto
  then show "\<exists>b l. c = Some b \<and> reads_as b l \<and> l \<in> g ` {..length new}" using b(1) by blast
qed

lemma holds_readable:
  assumes "holds_log d l"
  shows "readable (fs d) {l}"
proof -
  obtain i rs p where h: "holds_image d i rs p" "replay_records rs [] = Inr l" using assms by (auto simp: holds_log_def)
  have "readable (fs d) ((\<lambda>_. l) ` {..length ([] :: walRecord list)})"
    by (rule appending_readable [of d i rs "[]" p]) (use h in \<open>auto simp: holds_image_def appending_def\<close>)
  then show ?thesis by simp
qed

text \<open>Writing records and syncing them, on a store that holds a log.\<close>

lemma write_sync:
  assumes h: "holds_log d l" and w: "writeRecords new d = (d1, e1)"
    and s: "(if e1 = None then syncWAL d1 else (d1, e1)) = (d', e)"
    and small: "\<forall>r \<in> set new. small_record r"
    and g: "\<And>k. k \<le> length new \<Longrightarrow> replay_records (take k new) l = Inr (g k)"
  shows "e = None \<Longrightarrow> holds_log d' (g (length new))" and "recovers d' (g ` {..length new})"
proof -
  obtain i rs p where hi: "holds_image d i rs p" and l: "replay_records rs [] = Inr l" and wf: "wf_disk d"
    using h by (auto simp: holds_log_def)
  have a: "appending d i (image_of rs) (image_of rs @ p)" "wal d = Some (i, length (image_of rs))"
      "readRecord p = None" "\<forall>r \<in> set (rs @ new). small_record r"
    using hi small by (auto simp: holds_image_def appending_def)
  obtain q where q: "prefix q (image_of new)" "appending d1 i (image_of rs @ q) (image_of rs @ p)"
      "e1 = None \<longrightarrow> q = image_of new \<and> wal d1 = Some (i, length (image_of rs @ q))"
    using writeRecords_appends [OF a(1,2) w] by blast
  have wf1: "wf_disk d1" using preserves_wf [OF writeRecords_preserves [OF wf w]] .
  have g': "replay_records (rs @ take k new) [] = Inr (g k)" if "k \<le> length new" for k
    using l g [OF that] by (simp add: replay_records_append)
  have wf': "wf_disk d'" using s wf1 preserves_wf [OF syncWAL_preserves [OF wf1]] by (auto split: if_splits)
  have synced: "wal d' = wal d1 \<and> appending d' i (image_of rs @ q) (if e = None then image_of rs @ q else image_of rs @ p)"
    if "e1 = None"
    using syncWAL_appends [OF q(2), of "length (image_of rs @ q)" d' e] q(3) s that by simp
  have e1: "e1 \<noteq> None \<Longrightarrow> d' = d1 \<and> e = e1" using s by (auto split: if_splits)
  have failed: "appending d' i (image_of rs @ q) (image_of rs @ p)" if "e \<noteq> None"
    by (cases "e1 = None") (use synced e1 q(2) that in simp_all)
  have ok: "q = image_of new \<and> wal d' = Some (i, length (image_of rs @ q)) \<and>
      appending d' i (image_of rs @ q) (image_of rs @ q)" if "e = None"
  proof -
    have "e1 = None" using e1 that by blast
    then show ?thesis using synced q(3) that by simp
  qed
  show held: "holds_log d' (g (length new))" if "e = None"
  proof -
    have "holds_image d' i (rs @ new) []"
      using ok [OF that] a(4) by (auto simp: holds_image_def appending_def readRecord_def)
    then show ?thesis using wf' g' [of "length new"] unfolding holds_log_def by auto
  qed
  have "readable (fs d') (g ` {..length new})"
  proof (cases "e = None")
    case True
    have "{g (length new)} \<subseteq> g ` {..length new}" by simp
    then show ?thesis using holds_readable [OF held [OF True]] unfolding readable_def by blast
  next
    case False
    show ?thesis using appending_readable [OF failed [OF False] q(1) a(3,4) g'] .
  qed
  then show "recovers d' (g ` {..length new})" using readable_recovers wf' by blast
qed

section \<open>The operations on the log\<close>

datatype walOp = AppendOp "LogEntry list" | TruncateOp nat | CompactOp "LogEntry list"

definition walExec :: "walOp \<Rightarrow> Disk \<Rightarrow> Disk \<times> err option" where
  "walExec op = (case op of
       AppendOp es \<Rightarrow> AppendEntries fileLogStore es
     | TruncateOp from \<Rightarrow> TruncateSuffix fileLogStore from
     | CompactOp es \<Rightarrow> Compact fileLogStore es)"

text \<open>The log after an operation, and the logs that one which failed half-way may leave.\<close>

definition walEffect :: "walOp \<Rightarrow> LogEntry list \<Rightarrow> LogEntry list" where
  "walEffect op l = (case op of AppendOp es \<Rightarrow> l @ es | TruncateOp from \<Rightarrow> dropTail from l | CompactOp es \<Rightarrow> es)"

definition walPartly :: "walOp \<Rightarrow> LogEntry list \<Rightarrow> LogEntry list set" where
  "walPartly op l = (case op of
       AppendOp es \<Rightarrow> (\<lambda>k. l @ take k es) ` {..length es}
     | TruncateOp from \<Rightarrow> {l, dropTail from l}
     | CompactOp es \<Rightarrow> {l, es})"

text \<open>The entries continue the log, and every record has a size that \<open>LoadEntries\<close> accepts.\<close>

fun chained :: "LogEntry list \<Rightarrow> LogEntry list \<Rightarrow> bool" where
  "chained l [] \<longleftrightarrow> True"
| "chained l (e # es) \<longleftrightarrow> (walNextIndex l = 0 \<or> Index e = walNextIndex l) \<and> chained (l @ [e]) es"

definition walAdmissible :: "walOp \<Rightarrow> LogEntry list \<Rightarrow> bool" where
  "walAdmissible op l \<longleftrightarrow> (case op of
       AppendOp es \<Rightarrow> chained l es \<and> (\<forall>e \<in> set es. small_record (appendRecord e))
     | TruncateOp from \<Rightarrow> 1 \<le> from \<and> from < u64_size
     | CompactOp es \<Rightarrow> chained [] es \<and> (\<forall>e \<in> set es. small_record (appendRecord e)))"

lemma chained_take: "chained l es \<Longrightarrow> chained l (take k es)"
proof (induction es arbitrary: l k)
  case (Cons e es)
  then show ?case by (cases k) auto
qed simp

lemma replay_append: "chained l es \<Longrightarrow> replay_records (map appendRecord es) l = Inr (l @ es)"
proof (induction es arbitrary: l)
  case (Cons e es)
  have "applyRecord (appendRecord e) l = Inr (l @ [e])"
    using Cons(2) by (auto simp: applyRecord_def appendRecord_def zeroRecord_def)
  then show ?case using Cons by simp
qed simp

lemma replay_truncate: "1 \<le> from \<Longrightarrow> replay_records [truncateRecord from] l = Inr (dropTail from l)"
  by (simp add: applyRecord_def truncateRecord_def zeroRecord_def)

lemma append_step:
  assumes h: "holds_log d l" and a: "walAdmissible (AppendOp es) l" and r: "FS_AppendEntries es d = (d', e)"
  shows "(e = None \<longrightarrow> holds_log d' (l @ es)) \<and> recovers d' (walPartly (AppendOp es) l)"
proof (cases "es = []")
  case True
  then have "d' = d" using r by (simp add: FS_AppendEntries_def)
  then show ?thesis
    using True h readable_recovers [OF holds_readable [OF h]] by (simp add: walPartly_def holds_log_def)
next
  case False
  let ?new = "map appendRecord es"
  obtain d1 e1 where w: "writeRecords ?new d = (d1, e1)" by fastforce
  have s: "(if e1 = None then syncWAL d1 else (d1, e1)) = (d', e)"
    using r w False by (auto simp: FS_AppendEntries_def split: option.splits)
  have "replay_records (take k ?new) l = Inr (l @ take k es)" for k
    using replay_append [OF chained_take] a by (simp add: walAdmissible_def take_map)
  from write_sync [OF h w s, of "\<lambda>k. l @ take k es", OF _ this] show ?thesis
    using a by (simp add: walAdmissible_def walPartly_def)
qed

lemma compact_step:
  assumes h: "holds_log d l" and a: "walAdmissible (CompactOp es) l" and r: "FS_Compact es d = (d', e)"
  shows "(e = None \<longrightarrow> holds_log d' es) \<and> recovers d' {l, es}"
proof -
  have wf: "wf_disk d" and c: "clean_fs (fs d)" using h by (simp_all add: holds_log_def wf_disk_def)
  let ?new = "map appendRecord es"
  have img: "wal_image es = image_of ?new" by (simp add: wal_image_def image_of_def)
  have new: "\<forall>r \<in> set ?new. small_record r" "replay_records ?new [] = Inr es"
    using a replay_append [of "[]" es] by (auto simp: walAdmissible_def)
  obtain e0 where w: "write_result (fs d) walFile (wal_image es) (fs d', e0)"
      and ok: "e = None \<longrightarrow> e0 = None \<and> wal d' = Some (fresh (fs d), length (wal_image es))"
    using Compact_result [OF c r] by blast
  have wf': "wf_disk d'" using preserves_wf [OF Compact_preserves [OF wf r]] .
  have "holds_image d' (fresh (fs d)) ?new []" if "e = None"
  proof -
    have "swapped (fs d) walFile (wal_image es) (dir (fs d')) (fs d')" using w ok that by (simp add: write_result_def)
    then show ?thesis using ok that new(1) by (simp add: holds_image_def swapped_def img readRecord_def)
  qed
  moreover have "readable (fs d') {l, es}"
    unfolding readable_def
  proof (intro allI impI)
    fix x
    assume "could_read (fs d') walFile x"
    then have "could_read (fs d) walFile x \<or> x = Some (wal_image es)" using write_result_name(1) [OF w c] by simp
    moreover have "reads_as (wal_image es) es"
      unfolding reads_as_def using new by (intro exI [of _ ?new] exI [of _ "[]"]) (simp add: img readRecord_def)
    ultimately show "\<exists>b l'. x = Some b \<and> reads_as b l' \<and> l' \<in> {l, es}"
      using holds_readable [OF h] unfolding readable_def by blast
  qed
  ultimately show ?thesis using wf' new(2) readable_recovers unfolding holds_log_def by blast
qed

section \<open>Sizes of records\<close>

lemma show_nat_length: "n < 10 ^ Suc k \<Longrightarrow> length (show_nat n) \<le> Suc k"
proof (induction k arbitrary: n)
  case 0
  then show ?case by (simp add: show_nat.simps [of n])
next
  case (Suc k)
  then have "n div 10 < 10 ^ Suc k" by (simp add: div_less_iff_less_mult mult.commute)
  from Suc(1) [OF this] show ?case by (simp add: show_nat.simps [of n])
qed

lemma show_u64_length: "n < u64_size \<Longrightarrow> length (show_nat n) \<le> 20"
  using show_nat_length [of n 19] by (simp add: u64_size_def)

lemma b64_length: "length (b64_encode s) = 4 * ((length s + 2) div 3)"
proof (induction s rule: b64_encode.induct)
  case (4 a b c cs)
  then show ?case by (simp only: b64_encode.simps length_append list.size) presburger
qed simp_all

lemma b64_plain: "list_all (\<lambda>c. code c < 0x80 \<and> escape c = [c]) (b64_encode s)"
proof -
  have "code (b64_char n) < 0x80 \<and> escape (b64_char n) = [b64_char n]" if "n < 64" for n
    using code_b64_char [OF that] that by (auto simp: escape_def Let_def)
  moreover have "escape (CHR ''='') = ''=''" by (simp add: escape_def)
  ultimately show ?thesis by (induction s rule: b64_encode.induct) simp_all
qed

lemma quote_plain: "list_all (\<lambda>c. code c < 0x80 \<and> escape c = [c]) s \<Longrightarrow> quote s = CHR 0x22 # s @ [CHR 0x22]"
proof -
  have "list_all (\<lambda>c. code c < 0x80 \<and> escape c = [c]) s \<Longrightarrow> quote_body s = s"
    by (induction s) (simp_all add: quote_body.simps(2))
  then show "list_all (\<lambda>c. code c < 0x80 \<and> escape c = [c]) s \<Longrightarrow> quote s = CHR 0x22 # s @ [CHR 0x22]"
    by (simp add: quote_def)
qed

lemma quoted_fields [simp]:
  "length (quote ''type'') = 6" "length (quote ''append'') = 8" "length (quote ''term'') = 6"
  "length (quote ''index'') = 7" "length (quote ''command'') = 9" "length (quote ''truncate'') = 10"
  "length (quote ''from'') = 6"
  by (subst quote_plain; simp add: escape_def)+

lemma append_record_length:
  assumes "Term e < u64_size" and "Index e < u64_size"
  shows "length (marshalRecord (appendRecord e)) \<le> 87 + 4 * ((length (Command e) + 2) div 3)"
    and "4 * ((length (Command e) + 2) div 3) \<le> length (marshalRecord (appendRecord e))"
proof -
  have c: "render (enc_bytes b) = CHR 0x22 # b64_encode b @ [CHR 0x22]" if "b \<noteq> []" for b
    using that quote_plain [OF b64_plain] by (simp add: enc_bytes_def)
  note t = show_u64_length [OF assms(1)] and i = show_u64_length [OF assms(2)]
  show "length (marshalRecord (appendRecord e)) \<le> 87 + 4 * ((length (Command e) + 2) div 3)"
    "4 * ((length (Command e) + 2) div 3) \<le> length (marshalRecord (appendRecord e))"
    using t i by (cases "Term e = 0"; cases "Index e = 0"; cases "Command e = []";
        simp add: marshalRecord_def appendRecord_def zeroRecord_def omitempty_def enc_uint_def c b64_length)+
qed

lemma small_append:
  assumes "Term e < u64_size" and "Index e < u64_size" and "length (Command e) \<le> 48 * 2 ^ 20 - 72"
  shows "small_record (appendRecord e)"
proof -
  have "length (marshalRecord (appendRecord e)) \<le> maxRecordSize"
    using append_record_length(1) [OF assms(1,2)] assms(3) by (simp add: maxRecordSize_def)
  then show ?thesis
    using assms by (simp add: small_record_def wf_record_def appendRecord_def zeroRecord_def valid_utf8_ascii u64_size_def)
qed

lemma small_truncate:
  assumes "from < u64_size"
  shows "small_record (truncateRecord from)"
proof -
  have "length (marshalRecord (truncateRecord from)) \<le> maxRecordSize"
    using show_u64_length [OF assms]
    by (simp add: marshalRecord_def truncateRecord_def zeroRecord_def omitempty_def enc_uint_def maxRecordSize_def)
  then show ?thesis
    using assms by (simp add: small_record_def wf_record_def truncateRecord_def zeroRecord_def valid_utf8_ascii u64_size_def)
qed

text \<open>A record above the limit is not read back, whatever follows it.\<close>

lemma readRecord_oversized:
  assumes "maxRecordSize < length (marshalRecord r)" and "length (marshalRecord r) < 2 ^ 32"
  shows "readRecord (frame r @ b) = None"
proof -
  have "read_le32 (frame r @ b) = length (marshalRecord r)"
    using read_le32 [OF assms(2)] by (simp add: frame_def Let_def)
  then show ?thesis using assms(1) by (simp add: readRecord_def Let_def)
qed

lemma oversized_append:
  assumes "Term e < u64_size" and "Index e < u64_size"
    and "48 * 2 ^ 20 < length (Command e)" and "length (Command e) < 3 * 10 ^ 9"
  shows "readRecord (frame (appendRecord e) @ b) = None"
proof (rule readRecord_oversized)
  have "16777217 \<le> (length (Command e) + 2) div 3" "(length (Command e) + 2) div 3 \<le> 1000000000"
    using assms(3,4) by simp_all
  then show "maxRecordSize < length (marshalRecord (appendRecord e))"
    "length (marshalRecord (appendRecord e)) < 2 ^ 32"
    using append_record_length [OF assms(1,2)] by (simp_all add: maxRecordSize_def)
qed

lemma truncate_step:
  assumes h: "holds_log d l" and a: "walAdmissible (TruncateOp from) l" and r: "FS_TruncateSuffix from d = (d', e)"
  shows "(e = None \<longrightarrow> holds_log d' (dropTail from l)) \<and> recovers d' {l, dropTail from l}"
proof -
  let ?new = "[truncateRecord from]"
  let ?g = "\<lambda>k. if k = 0 then l else dropTail from l"
  obtain d1 e1 where w: "writeRecords ?new d = (d1, e1)" by fastforce
  have s: "(if e1 = None then syncWAL d1 else (d1, e1)) = (d', e)"
    using r w by (auto simp: FS_TruncateSuffix_def split: option.splits prod.splits)
  have g: "replay_records (take k ?new) l = Inr (?g k)" if "k \<le> length ?new" for k
    using that a replay_truncate by (cases k) (simp_all add: walAdmissible_def)
  have small: "\<forall>r \<in> set ?new. small_record r" using a small_truncate by (simp add: walAdmissible_def)
  have "?g ` {..length ?new} = {l, dropTail from l}" by auto
  then show ?thesis using write_sync [OF h w s small, of ?g, OF g] by simp
qed

section \<open>What is loaded is well formed\<close>

lemma unmarshalSnapshot_wf: "unmarshalSnapshot b = Some s \<Longrightarrow> wf_snapshot s"
  unfolding unmarshalSnapshot_def
  by (erule unmarshal_keeps)
    (auto simp: wf_snapshot_def updSnapshot_def u64_size_def Let_def split: if_splits dest: dec_uint_bound)

lemma unmarshalRecord_wf: "unmarshalRecord b = Some r \<Longrightarrow> wf_record r"
  unfolding unmarshalRecord_def
  by (erule unmarshal_keeps)
    (auto simp: wf_record_def updRecord_def zeroRecord_def u64_size_def Let_def split: if_splits
      dest: dec_string_valid dec_uint_bound)

lemma readRecord_wf: "readRecord b = Some (r, b') \<Longrightarrow> wf_record r"
  by (auto simp: readRecord_def Let_def split: if_splits dest: unmarshalRecord_wf)

lemma LoadSnapshot_wf: "FS_LoadSnapshot d = Inr (Some s) \<Longrightarrow> wf_snapshot s"
  by (auto simp: FS_LoadSnapshot_def split: sum.splits option.splits dest: unmarshalSnapshot_wf)

definition wf_replayed :: "LogEntry list \<Rightarrow> bool" where
  "wf_replayed es \<longleftrightarrow> chained [] es \<and> list_all (\<lambda>e. Term e < u64_size \<and> Index e < u64_size) es"

lemma chained_append: "chained l (es @ xs) \<longleftrightarrow> chained l es \<and> chained (l @ es) xs"
  by (induction es arbitrary: l) simp_all

lemma dropTail_prefix: "\<exists>k. dropTail n es = take k es"
proof -
  have "suffix (dropWhile (\<lambda>e. Index e \<ge> n) (rev es)) (rev es)" by (rule suffix_dropWhile)
  then have "prefix (dropTail n es) es" unfolding dropTail_def by (simp add: suffix_to_prefix)
  then show ?thesis by (metis append_eq_conv_conj prefix_def)
qed

lemma applyRecord_wf:
  assumes "wf_record r" and "wf_replayed es" and "applyRecord r es = Inr es'"
  shows "wf_replayed es'"
proof (cases "wr_Type r = ''append''")
  case True
  then show ?thesis
    using assms by (auto simp: applyRecord_def wf_replayed_def wf_record_def chained_append split: if_splits)
next
  case False
  then have "es' = dropTail (wr_From r) es"
    using assms(3) by (auto simp: applyRecord_def split: if_splits)
  then obtain k where "es' = take k es" using dropTail_prefix by metis
  then show ?thesis
    using assms(2) chained_take set_take_subset [of k es] by (auto simp: wf_replayed_def list_all_iff)
qed

lemma replayLoop_wf: "wf_replayed es \<Longrightarrow> replayLoop b off es f = (f', Inr (n, es')) \<Longrightarrow> wf_replayed es'"
proof (induction b off es f rule: replayLoop.induct)
  case (1 b off es f)
  obtain f1 ok1 where f1: "fs_noop f = (f1, ok1)" by fastforce
  obtain f2 ok2 where f2: "fs_noop f1 = (f2, ok2)" by fastforce
  show ?case
  proof (cases "ok1 \<and> ok2 \<and> (\<exists>r b'. readRecord b = Some (r, b'))")
    case False
    then have "es' = es"
      using 1(3) f1 f2 by (auto simp: replayLoop.simps [of b] split: bool.splits option.splits if_splits)
    then show ?thesis using 1(2) by simp
  next
    case True
    then obtain r b' where r: "readRecord b = Some (r, b')" and ok: "ok1" "ok2" by blast
    obtain x where x: "applyRecord r es = Inr x"
        "replayLoop b' (off + (length b - length b')) x f2 = (f', Inr (n, es'))"
      using 1(3) f1 f2 r ok readRecord_header [OF r] by (auto simp: replayLoop.simps [of b] split: sum.splits)
    have "wf_replayed x" using applyRecord_wf [OF readRecord_wf [OF r] 1(2) x(1)] .
    then show ?thesis using 1(1) f1 f2 r ok x readRecord_header [OF r] by (metis (mono_tags))
  qed
qed

lemma LoadEntries_wf: "FS_LoadEntries d = (d', Inr es) \<Longrightarrow> wf_replayed es"
  using replayLoop_wf [of "[]"]
  by (fastforce simp: FS_LoadEntries_def wf_replayed_def split: option.splits prod.splits bool.splits sum.splits)

section \<open>The contract of a log store\<close>

text \<open>
  A store holds a log for good; an operation that succeeds has its effect on that log, one that
  fails may have had a part of it.
\<close>

locale durable_log =
  fixes exec :: "'op \<Rightarrow> 'd \<Rightarrow> 'd \<times> err option"
    and effect :: "'op \<Rightarrow> 'l \<Rightarrow> 'l"
    and partly :: "'op \<Rightarrow> 'l \<Rightarrow> 'l set"
    and admissible :: "'op \<Rightarrow> 'l \<Rightarrow> bool"
    and holds :: "'d \<Rightarrow> 'l \<Rightarrow> bool"
    and may_recover :: "'d \<Rightarrow> 'l set \<Rightarrow> bool"
  assumes exec_ok: "holds d l \<Longrightarrow> admissible op l \<Longrightarrow> exec op d = (d', None) \<Longrightarrow> holds d' (effect op l)"
    and exec_failed: "holds d l \<Longrightarrow> admissible op l \<Longrightarrow> exec op d = (d', Some e) \<Longrightarrow> may_recover d' (partly op l)"
    and held: "holds d l \<Longrightarrow> may_recover d {l}"

text \<open>Operations one after the other, up to the first that fails; a caller gives up there.\<close>

fun runOps :: "('op \<Rightarrow> 'd \<Rightarrow> 'd \<times> err option) \<Rightarrow> 'op list \<Rightarrow> 'd \<Rightarrow> 'd \<times> err option" where
  "runOps exec [] d = (d, None)"
| "runOps exec (op # ops) d =
     (case exec op d of (d, Some e) \<Rightarrow> (d, Some e) | (d, None) \<Rightarrow> runOps exec ops d)"

fun allAdmissible :: "('op \<Rightarrow> 'l \<Rightarrow> bool) \<Rightarrow> ('op \<Rightarrow> 'l \<Rightarrow> 'l) \<Rightarrow> 'op list \<Rightarrow> 'l \<Rightarrow> bool" where
  "allAdmissible adm eff [] l \<longleftrightarrow> True"
| "allAdmissible adm eff (op # ops) l \<longleftrightarrow> adm op l \<and> allAdmissible adm eff ops (eff op l)"

context durable_log
begin

lemma run_ok:
  "holds d l \<Longrightarrow> allAdmissible admissible effect ops l \<Longrightarrow> runOps exec ops d = (d', None) \<Longrightarrow>
   holds d' (fold effect ops l)"
proof (induction ops arbitrary: d l)
  case (Cons op ops)
  then show ?case using exec_ok [of d l op] by (auto split: prod.splits option.splits)
qed simp

lemma run_failed:
  "holds d l \<Longrightarrow> allAdmissible admissible effect ops l \<Longrightarrow> runOps exec ops d = (d', Some e) \<Longrightarrow>
   \<exists>k < length ops. may_recover d' (partly (ops ! k) (fold effect (take k ops) l))"
proof (induction ops arbitrary: d l)
  case (Cons op ops)
  obtain d1 e1 where d1: "exec op d = (d1, e1)" by fastforce
  show ?case
  proof (cases e1)
    case None
    then have "holds d1 (effect op l)" using exec_ok Cons(2,3) d1 by simp
    then obtain k where "k < length ops" "may_recover d' (partly (ops ! k) (fold effect (take k ops) (effect op l)))"
      using Cons(1) [of d1 "effect op l"] Cons(3,4) d1 None by auto
    then show ?thesis by (intro exI [of _ "Suc k"]) simp
  next
    case (Some x)
    then show ?thesis using exec_failed [of d l op] Cons(2-) d1 by (intro exI [of _ 0]) simp
  qed
qed simp

lemma run_recovers:
  assumes "holds d l" and "allAdmissible admissible effect ops l" and "runOps exec ops d = (d', e)"
  shows "if e = None then holds d' (fold effect ops l) \<and> may_recover d' {fold effect ops l}
    else \<exists>k < length ops. may_recover d' (partly (ops ! k) (fold effect (take k ops) l))"
  using run_ok [OF assms(1,2)] run_failed [OF assms(1,2)] held assms(3) by (cases e) auto

end

lemma walExec_step:
  assumes h: "holds_log d l" and a: "walAdmissible op l" and r: "walExec op d = (d', e)"
  shows "(e = None \<longrightarrow> holds_log d' (walEffect op l)) \<and> recovers d' (walPartly op l)"
proof (cases op)
  case (AppendOp es)
  then show ?thesis
    using append_step [OF h, of es d' e] a r by (simp add: walExec_def fileLogStore_def walEffect_def)
next
  case (TruncateOp n)
  then show ?thesis
    using truncate_step [OF h, of n d' e] a r by (simp add: walExec_def fileLogStore_def walEffect_def walPartly_def)
next
  case (CompactOp es)
  then show ?thesis
    using compact_step [OF h, of es d' e] a r by (simp add: walExec_def fileLogStore_def walEffect_def walPartly_def)
qed

interpretation walog: durable_log walExec walEffect walPartly walAdmissible holds_log recovers
proof unfold_locales
  show "recovers d {l}" if "holds_log d l" for d l
    using readable_recovers [OF holds_readable [OF that]] that by (simp add: holds_log_def)
qed (use walExec_step in blast)+

text \<open>A restart finds the log a store holds, and holds it again.\<close>

lemma holds_restart:
  assumes h: "holds_log d l" and c: "crashed (fs d) f" and fl: "faultless f"
  shows "\<exists>d'. reloaded f = Some (d', Inr l) \<and> holds_log d' l"
proof (cases "power_loss (fs d) f")
  case True
  then show ?thesis using walog.held [OF h] c fl unfolding recovers_def by blast
next
  case False
  then have s: "same_files (fs d) f" using c by (simp add: crashed_def)
  obtain i rs p where hi: "holds_image d i rs p" and l: "replay_records rs [] = Inr l" and wf: "wf_disk d"
    using h by (auto simp: holds_log_def)
  have cf: "clean_fs f" using crashed_clean [OF c] wf by (simp add: wf_disk_def)
  let ?x = "\<lparr>cur = image_of rs, stable = image_of rs @ p\<rparr>"
  have i: "dir f walFile = Some i" "ddir f walFile = Some i" "inodes f i = Some ?x"
    using hi s by (simp_all add: holds_image_def same_files_def)
  have p: "readRecord p = None" "\<forall>r \<in> set rs. small_record r" using hi by (simp_all add: holds_image_def)
  show ?thesis
    using reloaded_image [OF fl cf i(1,3), of rs "[]" l p] i(2) p l by (auto simp: readRecord_def)
qed

section \<open>How much is read\<close>

lemma noop_ticks: "fs_noop f = (f', ok) \<Longrightarrow> ticks f' = Suc (ticks f)"
  by (auto simp: fs_noop_def sys_def Let_def split: option.splits)

lemma readRecord_length: "readRecord b = Some (r, b') \<Longrightarrow> length b' + 9 \<le> length b"
  by (auto simp: readRecord_def Let_def split: if_splits)

text \<open>
  A record takes at least nine bytes and two reads; the one that ends the loop takes up to two
  reads more, even when it has fewer bytes.
\<close>

lemma replayLoop_ticks: "replayLoop b off es f = (f', r) \<Longrightarrow> ticks f' \<le> ticks f + 2 * (length b div 9) + 2"
proof (induction b off es f arbitrary: f' r rule: replayLoop.induct)
  case (1 b off es f)
  obtain f1 ok1 where f1: "fs_noop f = (f1, ok1)" by fastforce
  obtain f2 ok2 where f2: "fs_noop f1 = (f2, ok2)" by fastforce
  note t = noop_ticks [OF f1] noop_ticks [OF f2]
  show ?case
  proof (cases "readRecord b")
    case None
    then have "f' = f1 \<or> f' = f2"
      using 1(2) f1 f2 by (auto simp: replayLoop.simps [of b] split: bool.splits if_splits)
    then show ?thesis using t by auto
  next
    case (Some y)
    obtain x b' where x: "readRecord b = Some (x, b')" using Some by (cases y) auto
    have len: "length b' div 9 + 1 \<le> length b div 9"
      using div_le_mono [OF readRecord_length [OF x], of 9] by simp
    show ?thesis
    proof (cases "ok1 \<and> ok2 \<and> (\<exists>es'. applyRecord x es = Inr es')")
      case True
      then obtain es' where es': "applyRecord x es = Inr es'" and ok: "ok1" "ok2" by blast
      have "replayLoop b' (off + (length b - length b')) es' f2 = (f', r)"
        using 1(2) f1 f2 x es' ok readRecord_header [OF x] by (simp add: replayLoop.simps [of b])
      then have "ticks f' \<le> ticks f2 + 2 * (length b' div 9) + 2"
        using 1(1) f1 f2 x es' ok readRecord_header [OF x] by (metis (mono_tags))
      then show ?thesis using t len by linarith
    next
      case False
      then have "f' = f1 \<or> f' = f2"
        using 1(2) f1 f2 x by (auto simp: replayLoop.simps [of b] split: bool.splits sum.splits if_splits)
      then show ?thesis using t len by auto
    qed
  qed
qed

lemma LoadEntries_ticks:
  assumes r: "FS_LoadEntries d = (d', r)" and w: "wal d = Some (i, pos)" and x: "inodes (fs d) i = Some x"
  shows "ticks (fs d') \<le> ticks (fs d) + 2 * (length (cur x) div 9) + 5"
proof -
  obtain f1 ok1 where f1: "fs_noop (fs d) = (f1, ok1)" by fastforce
  have x1: "inodes f1 i = Some x" using fs_noop_files [OF f1] x by (simp add: same_files_def)
  obtain f2 r2 where f2: "replayLoop (cur x) 0 [] f1 = (f2, r2)" by fastforce
  note t = noop_ticks [OF f1] replayLoop_ticks [OF f2]
  show ?thesis
  proof (cases "ok1 \<and> (\<exists>off es. r2 = Inr (off, es))")
    case False
    then have "fs d' = f1 \<or> fs d' = f2"
      using r w f1 x1 f2 by (auto simp: FS_LoadEntries_def split: bool.splits sum.splits)
    then show ?thesis using t by auto
  next
    case True
    then obtain off es where r2: "r2 = Inr (off, es)" and ok1: "ok1" by blast
    obtain f3 ok3 where f3: "fs_truncate i off f2 = (f3, ok3)" by fastforce
    have t3: "ticks f3 = Suc (ticks f2)"
      using f3 by (auto simp: fs_truncate_def sys_def Let_def split: option.splits)
    obtain f4 ok4 where f4: "fs_noop f3 = (f4, ok4)" by fastforce
    have "fs d' = f3 \<or> fs d' = f4"
      using r w f1 x1 f2 f3 f4 r2 ok1 by (auto simp: FS_LoadEntries_def split: bool.splits)
    then show ?thesis using t t3 noop_ticks [OF f4] by auto
  qed
qed

section \<open>What a log can lose\<close>

text \<open>Bytes that are synced are what every restart reads, valid or not.\<close>

lemma synced_recovers:
  assumes a: "appending d i b b" and r: "reads_as b l" and wf: "wf_disk d"
  shows "recovers d {l}"
proof (rule readable_recovers [OF _ wf])
  have "c = Some b" if "could_read (fs d) walFile c" for c
    using that a survives_synced [of "\<lparr>cur = b, stable = b\<rparr>"]
    by (auto simp: could_read_def could_find_def appending_def)
  then show "readable (fs d) {l}" using r unfolding readable_def by blast
qed

lemma append_synced:
  assumes r: "FS_AppendEntries es d = (d', None)" and es: "es \<noteq> []"
    and a: "appending d i b s" and w: "wal d = Some (i, length b)"
  shows "appending d' i (b @ image_of (map appendRecord es)) (b @ image_of (map appendRecord es)) \<and>
    wal d' = Some (i, length (b @ image_of (map appendRecord es)))"
proof -
  let ?new = "map appendRecord es"
  obtain d1 e1 where d1: "writeRecords ?new d = (d1, e1)" by fastforce
  then have s: "e1 = None" "syncWAL d1 = (d', None)"
    using r es by (auto simp: FS_AppendEntries_def split: option.splits)
  then have "appending d1 i (b @ image_of ?new) s" "wal d1 = Some (i, length (b @ image_of ?new))"
    using writeRecords_appends [OF a w d1] by auto
  from syncWAL_appends [OF this s(2)] show ?thesis using \<open>wal d1 = _\<close> by simp
qed

lemma holds_appending:
  assumes "holds_log d l"
  obtains i rs p where "appending d i (image_of rs) (image_of rs @ p)" and "wal d = Some (i, length (image_of rs))"
    and "\<forall>r \<in> set rs. small_record r" and "replay_records rs [] = Inr l" and "wf_disk d"
  using assms by (auto simp: holds_log_def holds_image_def appending_def)

text \<open>Appending never syncs the directory.\<close>

lemma writeRecords_ddir: "writeRecords rs d = (d', e) \<Longrightarrow> ddir (fs d') = ddir (fs d)"
proof (induction rs arbitrary: d)
  case (Cons r rs)
  obtain d1 e1 where d1: "writeRecord r d = (d1, e1)" by fastforce
  have "ddir (fs d1) = ddir (fs d)"
    using d1 touches_write by (fastforce simp: writeRecord_def touches_def split: option.splits prod.splits)
  then show ?case using Cons d1 by (auto split: option.splits)
qed simp

lemma AppendEntries_ddir: "FS_AppendEntries es d = (d', e) \<Longrightarrow> ddir (fs d') = ddir (fs d)"
proof -
  assume r: "FS_AppendEntries es d = (d', e)"
  obtain d1 e1 where d1: "writeRecords (map appendRecord es) d = (d1, e1)" by fastforce
  have "ddir (fs d') = ddir (fs d1)" if "syncWAL d1 = (d', e)"
    using that touches_sync by (fastforce simp: syncWAL_def touches_def split: option.splits prod.splits)
  then show ?thesis
    using r d1 writeRecords_ddir [OF d1] by (auto simp: FS_AppendEntries_def split: if_splits option.splits)
qed

text \<open>The worst a cut can do: only what is synced is left.\<close>

definition only_synced :: "FS \<Rightarrow> FS" where
  "only_synced f = f\<lparr>dir := ddir f, inodes := (\<lambda>i. map_option (\<lambda>x. x\<lparr>cur := stable x\<rparr>) (inodes f i))\<rparr>"

lemma only_synced_loss: "power_loss f (only_synced f)"
  by (auto simp: power_loss_def only_synced_def option.rel_map survives_refl intro: option.rel_refl)

end
