(* ===== verification/Raft_Recovery.thy ===== *)
theory Raft_Recovery
  imports Raft_Invariant
begin

text \<open>
  What \<open>NewNode\<close> makes of what the stores return: the log it rebuilds, when it refuses to, and
  that a recovered node satisfies the invariant every handler relies on.
\<close>

definition load_snapshot :: "'d Config \<Rightarrow> 'd \<Rightarrow> err + Snapshot option" where
  "load_snapshot c d = (case SnapshotStore c of None \<Rightarrow> Inr None | Some ss \<Rightarrow> LoadSnapshot ss d)"

definition load_entries :: "'d Config \<Rightarrow> 'd \<Rightarrow> 'd \<times> (err + LogEntry list)" where
  "load_entries c d = (case LogStore c of None \<Rightarrow> (d, Inr []) | Some ls \<Rightarrow> LoadEntries ls d)"

text \<open>The boundary entry of the recovered log, and the entries that lie beyond it.\<close>

definition boundary :: "Snapshot option \<Rightarrow> LogEntry" where
  "boundary snap =
     (case snap of
        None \<Rightarrow> \<lparr>Term = 0, Index = 0, Command = []\<rparr>
      | Some s \<Rightarrow> \<lparr>Term = LastIncludedTerm s, Index = LastIncludedIndex s, Command = []\<rparr>)"

definition live_entries :: "Snapshot option \<Rightarrow> LogEntry list \<Rightarrow> LogEntry list" where
  "live_entries snap es = filter (\<lambda>e. Index e > Index (boundary snap)) es"

definition timing_ok :: "'d Config \<Rightarrow> bool" where
  "timing_ok c \<longleftrightarrow> ElectionTimeoutMin c \<le> ElectionTimeoutMax c \<and> HeartbeatInterval c < ElectionTimeoutMin c"

definition hard_state :: "HardState option \<Rightarrow> HardState" where
  "hard_state hs = (case hs of None \<Rightarrow> \<lparr>CurrentTerm = 0, VotedFor = NoID\<rparr> | Some h \<Rightarrow> h)"

lemma recoverEntries_iff:
  assumes "base < want" and "want + length es < u64_size"
  shows "recoverEntries base want l es = Inr l' \<longleftrightarrow>
    contiguous_from want (filter (\<lambda>e. Index e > base) es) \<and> l' = l @ filter (\<lambda>e. Index e > base) es"
  using assms
proof (induction es arbitrary: want l)
  case Nil
  then show ?case by auto
next
  case (Cons e es)
  have "u64_add want 1 = want + 1" using Cons(3) by (simp add: u64_add_small)
  then show ?case using Cons by (auto simp: not_less)
qed

text \<open>
  Whatever entries are offered, what recovery keeps is numbered consecutively: past the index
  \<open>2^64 - 1\<close> the expected index wraps to 0, which no entry above the boundary has.
\<close>

lemma recoverEntries_consecutive:
  assumes "recoverEntries base (u64_add (Index (last l)) 1) l es = Inr l'"
    and "l \<noteq> []" and "Index (last l) < u64_size" and "contiguous_from (Index (hd l)) l"
  shows "contiguous_from (Index (hd l)) l' \<and> hd l' = hd l \<and> l' \<noteq> [] \<and> set l' \<subseteq> set l \<union> set es"
  using assms
proof (induction es arbitrary: l)
  case (Cons e es)
  show ?case
  proof (cases "Index e \<le> base")
    case True
    then show ?thesis using Cons(1) [of l] Cons(2-) by auto
  next
    case False
    then have e: "Index e = u64_add (Index (last l)) 1"
        and r: "recoverEntries base (u64_add (Index (last (l @ [e]))) 1) (l @ [e]) es = Inr l'"
      using Cons(2) by (auto split: if_splits)
    have "Index e < u64_size" by (simp add: e u64_add_def u64_size_def)
    moreover have last: "Index (last l) = Index (hd l) + (length l - 1)"
      using Cons(3,5) by (simp add: contiguous_from_def last_conv_nth)
    moreover have "Index e = Index (last l) + 1"
    proof (cases "Index (last l) + 1 < u64_size")
      case True
      then show ?thesis using e by (simp add: u64_add_small)
    next
      case no: False
      then have "Index (last l) + 1 = u64_size" using Cons(4) by simp
      then show ?thesis using e False by (simp add: u64_add_def)
    qed
    moreover have "contiguous_from (Index (hd l)) (l @ [e])"
      using Cons(3,5) calculation(2,3) by (auto simp: contiguous_from_def nth_append less_Suc_eq)
    ultimately show ?thesis using Cons(1) [OF r] Cons(3) by auto
  qed
qed simp

lemma recoverEntries_gap:
  assumes "recoverEntries base want l es = Inl x"
  shows "\<exists>i w. x = NotContiguous i w \<and> i \<noteq> w \<and> i \<in> Index ` set es"
  using assms
proof (induction es arbitrary: want l)
  case (Cons e es)
  consider "\<not> Index e \<le> base" "Index e \<noteq> want" "x = NotContiguous (Index e) want"
    | want' l' where "recoverEntries base want' l' es = Inl x"
    using Cons(2) by (cases "Index e \<le> base"; cases "Index e = want") simp_all
  then show ?case
  proof cases
    case 2
    then show ?thesis using Cons(1) [OF 2] by auto
  qed auto
qed simp

lemma recovered_prefix:
  assumes "LoadHardState st d = Inr hs" and "load_snapshot c d = Inr snap"
  shows "\<exists>rn. bind_res (recoverHardState st (freshNode c d)) recoverSnapshot = Inr rn \<and>
    rn = (freshNode c d)\<lparr>currentTerm := CurrentTerm (hard_state hs), votedFor := VotedFor (hard_state hs),
      log := [boundary snap], commitIndex := Index (boundary snap), lastApplied := Index (boundary snap),
      initialSnapshotData := (case snap of None \<Rightarrow> None | Some s \<Rightarrow> if Data s = [] then None else Some (Data s))\<rparr>"
proof -
  let ?r = "(freshNode c d)\<lparr>currentTerm := CurrentTerm (hard_state hs), votedFor := VotedFor (hard_state hs)\<rparr>"
  have "recoverHardState st (freshNode c d) = Inr ?r"
    using assms(1) by (cases hs) (simp_all add: recoverHardState_def freshNode_def hard_state_def)
  then show ?thesis
    using assms(2) by (cases snap)
      (auto simp: recoverSnapshot_def load_snapshot_def freshNode_def boundary_def split: option.splits)
qed

lemma recoverLog_eq:
  assumes "load_entries (cfg rn) (disk rn) = (d', Inr es)" and "log rn = [b]"
  shows "recoverLog rn = (d', bind_res (recoverEntries (Index b) (u64_add (Index b) 1) [b] es)
    (\<lambda>l. Inr (rn\<lparr>disk := d', log := l\<rparr>)))"
  using assms by (auto simp: recoverLog_def load_entries_def Let_def disk_update_id split: option.splits)

text \<open>The node that recovery is to build.\<close>

definition recovered ::
  "'d Config \<Rightarrow> HardState option \<Rightarrow> Snapshot option \<Rightarrow> LogEntry list \<Rightarrow> 'd \<Rightarrow> 'd RaftNode" where
  "recovered c hs snap es d' =
     (freshNode (withDefaults c) d')\<lparr>currentTerm := CurrentTerm (hard_state hs),
        votedFor := VotedFor (hard_state hs), log := boundary snap # live_entries snap es,
        commitIndex := Index (boundary snap), lastApplied := Index (boundary snap),
        initialSnapshotData := (case snap of None \<Rightarrow> None | Some s \<Rightarrow> if Data s = [] then None else Some (Data s))\<rparr>"

lemma withDefaults_stores [simp]:
  "SnapshotStore (withDefaults c) = SnapshotStore c" "LogStore (withDefaults c) = LogStore c"
  "Store (withDefaults c) = Store c"
  by (simp_all add: withDefaults_def)

lemma NewNode_eq:
  assumes "ID c \<noteq> []" and "Store c = Some st" and "timing_ok (withDefaults c)"
    and "LoadHardState st d = Inr hs" and "load_snapshot c d = Inr snap" and "load_entries c d = (d', Inr es)"
    and room: "Index (boundary snap) + length es + 1 < u64_size"
  shows "NewNode c d =
    (if contiguous_from (Index (boundary snap) + 1) (live_entries snap es)
     then (d', Inr (recovered c hs snap es d'))
     else (d', Inl (projl (recoverEntries (Index (boundary snap)) (Index (boundary snap) + 1) [boundary snap] es))))"
proof -
  let ?b = "boundary snap" and ?c = "withDefaults c"
  have ls: "load_snapshot ?c d = Inr snap" using assms(5) by (simp add: load_snapshot_def)
  obtain rn where rn: "bind_res (recoverHardState st (freshNode ?c d)) recoverSnapshot = Inr rn"
      "rn = (freshNode ?c d)\<lparr>currentTerm := CurrentTerm (hard_state hs), votedFor := VotedFor (hard_state hs),
        log := [?b], commitIndex := Index ?b, lastApplied := Index ?b,
        initialSnapshotData := (case snap of None \<Rightarrow> None | Some s \<Rightarrow> if Data s = [] then None else Some (Data s))\<rparr>"
    using recovered_prefix [OF assms(4) ls] by blast
  have le: "load_entries (cfg rn) (disk rn) = (d', Inr es)"
    using assms(6) by (simp add: rn(2) freshNode_def load_entries_def)
  have "log rn = [?b]" by (simp add: rn(2))
  note rl = recoverLog_eq [OF le this]
  have add: "u64_add (Index ?b) 1 = Index ?b + 1" using room by (simp add: u64_add_small)
  have new: "NewNode c d = recoverLog rn"
    using assms(1-3) rn(1) by (simp add: NewNode_def timing_ok_def Let_def)
  have iff: "recoverEntries (Index ?b) (Index ?b + 1) [?b] es = Inr l' \<longleftrightarrow>
      contiguous_from (Index ?b + 1) (live_entries snap es) \<and> l' = ?b # live_entries snap es" for l'
    using recoverEntries_iff [of "Index ?b" "Index ?b + 1" es "[?b]" l'] room by (simp add: live_entries_def)
  show ?thesis
  proof (cases "recoverEntries (Index ?b) (Index ?b + 1) [?b] es")
    case (Inl x)
    then have "\<not> contiguous_from (Index ?b + 1) (live_entries snap es)" using iff by fastforce
    then show ?thesis using Inl rl new add by simp
  next
    case (Inr l)
    then have "contiguous_from (Index ?b + 1) (live_entries snap es)" "l = ?b # live_entries snap es"
      using iff by blast+
    then show ?thesis
      using Inr rl new add by (simp add: recovered_def rn(2) freshNode_def)
  qed
qed

text \<open>What a node that was built was built from.\<close>

lemma NewNode_loads:
  assumes n: "NewNode c d = (d', Inr rn)" and st: "Store c = Some st"
  obtains hs snap es where "LoadHardState st d = Inr hs" "load_snapshot c d = Inr snap"
    "load_entries c d = (d', Inr es)" "cfg rn = withDefaults c" "state rn = Follower"
    "recoverEntries (Index (boundary snap)) (u64_add (Index (boundary snap)) 1) [boundary snap] es = Inr (log rn)"
    "currentTerm rn = CurrentTerm (hard_state hs)" "votedFor rn = VotedFor (hard_state hs)"
    "commitIndex rn = Index (boundary snap)" "lastApplied rn = Index (boundary snap)"
proof -
  let ?c = "withDefaults c"
  obtain r0 where r0: "bind_res (recoverHardState st (freshNode ?c d)) recoverSnapshot = Inr r0" "recoverLog r0 = (d', Inr rn)"
    using n st by (auto simp: NewNode_def Let_def split: if_splits sum.splits)
  obtain hs where hs: "LoadHardState st d = Inr hs"
    using r0(1) by (auto simp: bind_res_Inr_iff recoverHardState_def freshNode_def split: sum.splits)
  obtain snap where snap: "load_snapshot ?c d = Inr snap"
    using r0(1) hs by (auto simp: bind_res_Inr_iff recoverHardState_def recoverSnapshot_def freshNode_def
        load_snapshot_def split: sum.splits option.splits)
  have r: "r0 = (freshNode ?c d)\<lparr>currentTerm := CurrentTerm (hard_state hs), votedFor := VotedFor (hard_state hs),
      log := [boundary snap], commitIndex := Index (boundary snap), lastApplied := Index (boundary snap),
      initialSnapshotData := (case snap of None \<Rightarrow> None | Some s \<Rightarrow> if Data s = [] then None else Some (Data s))\<rparr>"
    using recovered_prefix [OF hs snap] r0(1) by auto
  obtain es where es: "load_entries (cfg r0) (disk r0) = (d', Inr es)"
  proof (cases "LogStore c")
    case None
    then show ?thesis using that [of "[]"] r0(2) r by (auto simp: load_entries_def recoverLog_def freshNode_def)
  next
    case (Some ls)
    then show ?thesis
      using that r0(2) r by (auto simp: load_entries_def recoverLog_def freshNode_def Let_def split: prod.splits sum.splits)
  qed
  obtain l where l: "recoverEntries (Index (boundary snap)) (u64_add (Index (boundary snap)) 1) [boundary snap] es = Inr l"
      "rn = r0\<lparr>disk := d', log := l\<rparr>"
  proof -
    have "log r0 = [boundary snap]" by (simp add: r)
    from recoverLog_eq [OF es this] r0(2)
    have "bind_res (recoverEntries (Index (boundary snap)) (u64_add (Index (boundary snap)) 1) [boundary snap] es)
        (\<lambda>l. Inr (r0\<lparr>disk := d', log := l\<rparr>)) = Inr rn" by simp
    then show ?thesis using that unfolding bind_res_Inr_iff by blast
  qed
  show thesis
  proof (rule that)
    show "load_snapshot c d = Inr snap" using snap by (simp add: load_snapshot_def)
    show "load_entries c d = (d', Inr es)" using es by (simp add: r freshNode_def load_entries_def)
  qed (use hs l in \<open>simp_all add: r freshNode_def\<close>)
qed

text \<open>The invariant of a recovered node from bounds on what was loaded alone.\<close>

lemma NewNode_wf:
  assumes n: "NewNode c d = (d', Inr rn)" and st: "Store c = Some st"
    and hs: "\<And>h. LoadHardState st d = Inr h \<Longrightarrow> CurrentTerm (hard_state h) < u64_size"
    and snap: "\<And>s. load_snapshot c d = Inr (Some s) \<Longrightarrow> LastIncludedIndex s < u64_size \<and> LastIncludedTerm s < u64_size"
    and es: "\<And>d' l. load_entries c d = (d', Inr l) \<Longrightarrow> list_all (\<lambda>e. Term e < u64_size) l"
    and room: "log_last (log rn) + 1 < u64_size"
  shows "wf_node rn \<and> list_all (\<lambda>e. Term e < u64_size) (log rn) \<and>
    commitIndex rn = log_base (log rn) \<and> lastApplied rn = log_base (log rn)"
  using n st
proof (rule NewNode_loads)
  fix h s l
  assume r: "LoadHardState st d = Inr h" "load_snapshot c d = Inr s" "load_entries c d = (d', Inr l)"
    "cfg rn = withDefaults c" "state rn = Follower"
    "recoverEntries (Index (boundary s)) (u64_add (Index (boundary s)) 1) [boundary s] l = Inr (log rn)"
    "currentTerm rn = CurrentTerm (hard_state h)" "commitIndex rn = Index (boundary s)"
    "lastApplied rn = Index (boundary s)"
  have b: "Index (boundary s) < u64_size" "Term (boundary s) < u64_size"
    using snap r(2) by (cases s; simp add: boundary_def u64_size_def)+
  have k: "contiguous_from (Index (boundary s)) (log rn)" "hd (log rn) = boundary s" "log rn \<noteq> []"
      "set (log rn) \<subseteq> insert (boundary s) (set l)"
    using recoverEntries_consecutive [of "Index (boundary s)" "[boundary s]" l "log rn"] r(6) b(1)
    by (simp_all add: contiguous_from_def)
  have "log_last (log rn) = Index (boundary s) + (length (log rn) - 1)"
    using k(1,3) by (simp add: log_last_def last_conv_nth contiguous_from_def)
  then have "wf_log (log rn)" "Index (boundary s) \<le> log_last (log rn)"
    using k(1-3) room by (auto simp: wf_log_def contiguous_from_def)
  moreover have "list_all (\<lambda>e. Term e < u64_size) (log rn)"
    using k(4) es [OF r(3)] b(2) by (auto simp: list_all_iff)
  ultimately show ?thesis
    using r hs [OF r(1)] st k(2) by (simp add: wf_node_def progress_ok_def log_base_def)
qed

lemma recovered_wf:
  assumes "Store c \<noteq> None" and "CurrentTerm (hard_state hs) < u64_size"
    and "contiguous_from (Index (boundary snap) + 1) (live_entries snap es)"
    and "Index (boundary snap) + length es + 1 < u64_size"
  shows "wf_node (recovered c hs snap es d')"
proof -
  let ?l = "boundary snap # live_entries snap es"
  have len: "length (live_entries snap es) \<le> length es" by (simp add: live_entries_def)
  have "wf_log ?l"
    using assms(3,4) len by (auto simp: wf_log_def contiguous_from_def nth_Cons split: nat.split)
  then show ?thesis
    using assms(1,2) wf_log_base_le_last [of ?l]
    by (simp add: wf_node_def recovered_def progress_ok_def freshNode_def)
qed

end
