(* ===== verification/Raft_Stores.thy ===== *)
theory Raft_Stores
  imports Raft_Handlers Raft_Election Raft_Applier Raft_Recovery
begin

text \<open>
  The contract of a node with its stores, as far as votes are concerned, and what every operation
  of a node does to the hard state under it: on the disk nothing appears but the old hard states
  and ones at least as new, and what is in memory only grows. Nothing here needs a well-formed
  log.
\<close>

section \<open>Hard states\<close>

definition hs_of :: "'d RaftNode \<Rightarrow> HardState" where
  "hs_of rn = \<lparr>CurrentTerm = currentTerm rn, VotedFor = votedFor rn\<rparr>"

lemma hs_of_disk [simp]: "hs_of (rn\<lparr>disk := d\<rparr>) = hs_of rn"
  by (simp add: hs_of_def)

text \<open>\<open>h'\<close> is as new as \<open>h\<close>: a later term, or the same one with no vote taken back.\<close>

definition hs_le :: "HardState \<Rightarrow> HardState \<Rightarrow> bool" where
  "hs_le h h' \<longleftrightarrow> CurrentTerm h < CurrentTerm h' \<or>
     CurrentTerm h = CurrentTerm h' \<and> (VotedFor h = NoID \<or> VotedFor h' = VotedFor h)"

lemma hs_le_refl [simp]: "hs_le h h"
  by (simp add: hs_le_def)

lemma hs_le_trans: "hs_le a b \<Longrightarrow> hs_le b c \<Longrightarrow> hs_le a c"
  by (auto simp: hs_le_def)

lemma hs_le_next: "t < t' \<Longrightarrow> hs_le \<lparr>CurrentTerm = t, VotedFor = v\<rparr> \<lparr>CurrentTerm = t', VotedFor = v'\<rparr>"
  by (simp add: hs_le_def)

text \<open>The hard state \<open>h\<close> remembers the vote for \<open>c\<close> in term \<open>t\<close>.\<close>

definition remembers :: "HardState \<Rightarrow> nat \<Rightarrow> node_id \<Rightarrow> bool" where
  "remembers h t c \<longleftrightarrow> t < CurrentTerm h \<or> t = CurrentTerm h \<and> VotedFor h = c"

lemma remembers_mono: "hs_le h h' \<Longrightarrow> remembers h t c \<Longrightarrow> c \<noteq> NoID \<Longrightarrow> remembers h' t c"
  by (auto simp: hs_le_def remembers_def)

section \<open>The contract\<close>

text \<open>
  \<open>could d h\<close>: loading from \<open>d\<close>, now or after crashes, may return \<open>h\<close>. A save that succeeds
  leaves only the saved state; one that fails may leave the old ones or the new one. The other
  stores do not meddle. \<open>reopens d d'\<close>: a later process may find \<open>d'\<close> where this one left \<open>d\<close>.
\<close>

locale durable_votes =
  fixes c :: "'d Config"
    and st :: "'d StateStore"
    and inv :: "'d \<Rightarrow> bool"
    and could :: "'d \<Rightarrow> HardState option \<Rightarrow> bool"
    and storable :: "HardState \<Rightarrow> bool"
    and reopens :: "'d \<Rightarrow> 'd \<Rightarrow> bool"
  assumes store: "Store c = Some st"
    and save_inv: "inv d \<Longrightarrow> storable hs \<Longrightarrow> SaveHardState st hs d = (d', e) \<Longrightarrow> inv d'"
    and save_could: "inv d \<Longrightarrow> storable hs \<Longrightarrow> SaveHardState st hs d = (d', e) \<Longrightarrow> could d' h \<Longrightarrow>
      could d h \<or> h = Some hs"
    and save_done: "inv d \<Longrightarrow> storable hs \<Longrightarrow> SaveHardState st hs d = (d', None) \<Longrightarrow> could d' h \<Longrightarrow> h = Some hs"
    and load: "inv d \<Longrightarrow> LoadHardState st d = Inr h \<Longrightarrow> could d h \<and> storable (hard_state h)"
    and append: "inv d \<Longrightarrow> LogStore c = Some ls \<Longrightarrow> AppendEntries ls es d = (d', e) \<Longrightarrow>
      inv d' \<and> (could d' h \<longrightarrow> could d h)"
    and truncate: "inv d \<Longrightarrow> LogStore c = Some ls \<Longrightarrow> TruncateSuffix ls n d = (d', e) \<Longrightarrow>
      inv d' \<and> (could d' h \<longrightarrow> could d h)"
    and compact: "inv d \<Longrightarrow> LogStore c = Some ls \<Longrightarrow> Compact ls es d = (d', e) \<Longrightarrow>
      inv d' \<and> (could d' h \<longrightarrow> could d h)"
    and load_log: "inv d \<Longrightarrow> LogStore c = Some ls \<Longrightarrow> LoadEntries ls d = (d', r) \<Longrightarrow>
      inv d' \<and> (could d' h \<longrightarrow> could d h)"
    and save_snapshot: "inv d \<Longrightarrow> SnapshotStore c = Some ss \<Longrightarrow> SaveSnapshot ss s d = (d', e) \<Longrightarrow>
      inv d' \<and> (could d' h \<longrightarrow> could d h)"
    and reopen: "inv d \<Longrightarrow> reopens d d' \<Longrightarrow> inv d' \<and> (could d' h \<longrightarrow> could d h)"
    and storable_bound: "storable hs \<Longrightarrow> CurrentTerm hs < u64_size"
    and storable_none: "t < u64_size \<Longrightarrow> storable \<lparr>CurrentTerm = t, VotedFor = NoID\<rparr>"

text \<open>
  What an operation may do to a node's role and election: nothing, except stepping down.
\<close>

definition quiet :: "'d RaftNode \<Rightarrow> 'd RaftNode \<Rightarrow> bool" where
  "quiet rn rn' \<longleftrightarrow> cfg rn' = cfg rn \<and> node_id rn' = node_id rn \<and> peers rn' = peers rn \<and>
     votes rn' = votes rn \<and> voteCalls rn' = voteCalls rn \<and>
     (state rn' \<noteq> Follower \<longrightarrow> state rn' = state rn \<and> currentTerm rn' = currentTerm rn)"

lemma quiet_refl [simp]: "quiet rn rn"
  by (simp add: quiet_def)

lemma quiet_trans: "quiet a b \<Longrightarrow> quiet b c \<Longrightarrow> quiet a c"
  by (auto simp: quiet_def)

context durable_votes
begin

definition intact :: "'d RaftNode \<Rightarrow> bool" where
  "intact rn \<longleftrightarrow> cfg rn = c \<and> inv (disk rn) \<and> storable (hs_of rn)"

text \<open>The disk \<open>d\<close> as an operation that started on \<open>rn\<close> may leave it.\<close>

definition left_by :: "'d RaftNode \<Rightarrow> 'd \<Rightarrow> bool" where
  "left_by rn d \<longleftrightarrow> inv d \<and> (\<forall>h. could d h \<longrightarrow> could (disk rn) h \<or> hs_le (hs_of rn) (hard_state h))"

definition follows :: "'d RaftNode \<Rightarrow> 'd RaftNode \<Rightarrow> bool" where
  "follows rn rn' \<longleftrightarrow> intact rn' \<and> left_by rn (disk rn') \<and> hs_le (hs_of rn) (hs_of rn')"

definition keeps :: "'d RaftNode \<Rightarrow> ('d, 'd RaftNode) outcome \<Rightarrow> bool" where
  "keeps rn m \<longleftrightarrow> ensures (\<lambda>(p, d). left_by rn d) (\<lambda>rn'. follows rn rn' \<and> quiet rn rn') m"

lemma left_by_refl: "intact rn \<Longrightarrow> left_by rn (disk rn)"
  by (simp add: left_by_def intact_def)

lemma follows_refl: "intact rn \<Longrightarrow> follows rn rn"
  by (simp add: follows_def left_by_refl)

lemma left_by_trans: "follows rn r1 \<Longrightarrow> left_by r1 d \<Longrightarrow> left_by rn d"
  unfolding follows_def left_by_def using hs_le_trans by blast

lemma follows_trans: "follows rn r1 \<Longrightarrow> follows r1 r2 \<Longrightarrow> follows rn r2"
  unfolding follows_def using left_by_trans hs_le_trans by (metis follows_def)

text \<open>An update of fields the hard state does not consist of.\<close>

lemma follows_same:
  assumes "follows rn r1" and "cfg r2 = cfg r1" and "disk r2 = disk r1"
    and "currentTerm r2 = currentTerm r1" and "votedFor r2 = votedFor r1"
  shows "follows rn r2"
  using assms by (simp add: follows_def intact_def hs_of_def left_by_def)

lemma keeps_return: "intact rn \<Longrightarrow> keeps rn (Inr rn)"
  by (simp add: keeps_def follows_refl)

lemma keeps_panic: "intact rn \<Longrightarrow> keeps rn (Inl (p, disk rn))"
  by (simp add: keeps_def left_by_refl)

lemma keeps_rt: "intact rn \<Longrightarrow> rt rn m = Inl x \<Longrightarrow> left_by rn (snd x)"
  by (auto simp: rt_def left_by_refl split: sum.splits)

lemma keeps_bind:
  assumes "keeps rn m" and "\<And>r1. m = Inr r1 \<Longrightarrow> follows rn r1 \<Longrightarrow> intact r1 \<Longrightarrow> keeps r1 (k r1)"
  shows "keeps rn (bind_res m k)"
proof (cases m)
  case (Inl x)
  then show ?thesis using assms(1) by (simp add: keeps_def)
next
  case (Inr r1)
  have f: "follows rn r1" "quiet rn r1" and i: "intact r1" using assms(1) Inr by (auto simp: keeps_def follows_def)
  show ?thesis
    using assms(2) [OF Inr f(1) i] f left_by_trans [OF f(1)] follows_trans [OF f(1)] quiet_trans [OF f(2)]
    by (cases "k r1") (auto simp: Inr keeps_def)
qed

text \<open>Reading the log does not change the node.\<close>

lemma keeps_read:
  assumes "intact rn" and "\<And>p d. m = Inl (p, d) \<Longrightarrow> d = disk rn" and "\<And>x. m = Inr x \<Longrightarrow> keeps rn (k x)"
  shows "keeps rn (bind_res m k)"
proof (cases m)
  case (Inl e)
  then show ?thesis using assms(1,2) left_by_refl by (cases e) (auto simp: keeps_def)
qed (use assms(3) in simp)

end

lemma reads_disk:
  "lastLogIndex rn = Inl (p, d) \<Longrightarrow> d = disk rn" "lastLogTerm rn = Inl (p, d) \<Longrightarrow> d = disk rn"
  "baseIndex rn = Inl (p, d) \<Longrightarrow> d = disk rn" "termAt rn i = Inl (p, d) \<Longrightarrow> d = disk rn"
  "entriesFrom rn i = Inl (p, d) \<Longrightarrow> d = disk rn" "rt rn m = Inl (p, d) \<Longrightarrow> d = disk rn"
  by (auto simp: lastLogIndex_def lastLogTerm_def baseIndex_def termAt_def entriesFrom_def rt_def bind_res_Inl_iff
      split: sum.splits)

lemma quiet_fields:
  "quiet rn (rn\<lparr>disk := d\<rparr>)" "quiet rn (rn\<lparr>disk := d, log := l\<rparr>)" "quiet rn (rn\<lparr>log := l\<rparr>)"
  "quiet rn (rn\<lparr>commitIndex := i\<rparr>)" "quiet rn (rn\<lparr>triggerCh := b\<rparr>)" "quiet rn (rn\<lparr>stopped := b\<rparr>)"
  "quiet rn (rn\<lparr>lastApplied := i\<rparr>)" "quiet rn (rn\<lparr>pendingSnapshot := s\<rparr>)" "quiet rn (rn\<lparr>leaderID := x\<rparr>)"
  "quiet rn (rn\<lparr>nextIndex := n\<rparr>)" "quiet rn (rn\<lparr>matchIndex := m, nextIndex := n\<rparr>)"
  "quiet rn (rn\<lparr>replicators := ts\<rparr>)" "quiet rn (rn\<lparr>state := Follower\<rparr>)"
  "quiet rn (resetElectionTimerLocked clk rn)"
  by (simp_all add: quiet_def)

section \<open>Every operation under the contract\<close>

text \<open>The node that an operation with a result leaves.\<close>

definition node_after :: "('d, 'x \<times> 'd RaftNode) outcome \<Rightarrow> ('d, 'd RaftNode) outcome" where
  "node_after m = bind_res m (\<lambda>(x, rn). Inr rn)"

lemma node_after_simps [simp]:
  "node_after (Inl e) = Inl e" "node_after (Inr (x, rn)) = Inr rn"
  "node_after (bind_res m k) = bind_res m (\<lambda>y. node_after (k y))"
  "node_after (if b then n else n') = (if b then node_after n else node_after n')"
  by (simp_all add: node_after_def bind_res_assoc)

text \<open>What the two operations that are not \<open>quiet\<close> do to role and election.\<close>

definition campaigns :: "'d RaftNode \<Rightarrow> 'd RaftNode \<Rightarrow> bool" where
  "campaigns rn rn' \<longleftrightarrow> cfg rn' = cfg rn \<and> node_id rn' = node_id rn \<and> peers rn' = peers rn \<and>
     currentTerm rn' = Suc (currentTerm rn) \<and> votedFor rn' = node_id rn \<and>
     votes rn' = (votes rn)(Suc (currentTerm rn) := 1) \<and>
     (state rn' = Leader \<and> quorum rn \<le> 1 \<and> voteCalls rn' = voteCalls rn \<or>
      state rn' = Candidate \<and> (\<exists>args. rva_Term args = Suc (currentTerm rn) \<and> rva_CandidateID args = node_id rn \<and>
        voteCalls rn' = map (\<lambda>p. \<lparr>vc_term = Suc (currentTerm rn), vc_peer = p, vc_args = args\<rparr>) (peers rn) @ voteCalls rn))"

definition counts :: "nat \<Rightarrow> 'd RaftNode \<Rightarrow> 'd RaftNode \<Rightarrow> bool" where
  "counts term rn rn' \<longleftrightarrow> cfg rn' = cfg rn \<and> node_id rn' = node_id rn \<and> peers rn' = peers rn \<and>
     state rn = Candidate \<and> currentTerm rn = term \<and> currentTerm rn' = term \<and> voteCalls rn' = voteCalls rn \<and>
     votes rn' = (votes rn)(term := Suc (votes rn term)) \<and>
     (state rn' = Candidate \<or> state rn' = Leader \<and> quorum rn \<le> votes rn' term)"

context durable_votes
begin

text \<open>A field update that keeps the hard state and the role.\<close>

lemma keeps_update:
  assumes "intact rn" and "quiet rn rn'" and "disk rn' = disk rn"
    and "currentTerm rn' = currentTerm rn" and "votedFor rn' = votedFor rn"
  shows "keeps rn (Inr rn')"
  using follows_same [OF follows_refl [OF assms(1)], of rn'] assms by (simp add: keeps_def quiet_def)

lemma keeps_fields:
  assumes "intact rn"
  shows "keeps rn (Inr (rn\<lparr>log := l\<rparr>))" "keeps rn (Inr (rn\<lparr>commitIndex := i\<rparr>))" "keeps rn (Inr (rn\<lparr>triggerCh := b\<rparr>))"
    "keeps rn (Inr (rn\<lparr>matchIndex := m, nextIndex := n\<rparr>))" "keeps rn (Inr (rn\<lparr>nextIndex := n, triggerCh := b\<rparr>))"
    "keeps rn (Inr (rn\<lparr>replicators := ts\<rparr>))" "keeps rn (Inr (rn\<lparr>pendingSnapshot := s\<rparr>))"
    "keeps rn (Inr (rn\<lparr>lastApplied := i\<rparr>))" "keeps rn (Inr (rn\<lparr>stopped := b\<rparr>))"
  by (rule keeps_update [OF assms]; simp add: quiet_def)+

lemma keeps_then:
  assumes "keeps rn m"
    and "\<And>r. quiet r (f r) \<and> disk (f r) = disk r \<and> currentTerm (f r) = currentTerm r \<and> votedFor (f r) = votedFor r"
  shows "keeps rn (bind_res m (\<lambda>r. Inr (f r)))"
  by (rule keeps_bind [OF assms(1)]) (use assms(2) in \<open>blast intro: keeps_update\<close>)

text \<open>A write to one of the other stores.\<close>

lemma keeps_write:
  assumes "intact rn" and "\<And>d e h. w (disk rn) = (d, e) \<Longrightarrow> inv d \<and> (could d h \<longrightarrow> could (disk rn) h)"
  shows "keeps rn (case w (disk rn) of (d, Some e) \<Rightarrow> Inl (p e, d) | (d, None) \<Rightarrow> Inr (rn\<lparr>disk := d\<rparr>))"
proof -
  obtain d e where w: "w (disk rn) = (d, e)" by fastforce
  have "left_by rn d" using assms(2) [OF w] by (simp add: left_by_def)
  moreover have "intact (rn\<lparr>disk := d\<rparr>)" using assms(1) assms(2) [OF w] by (simp add: intact_def)
  ultimately show ?thesis
    by (cases e) (simp_all add: w keeps_def follows_def quiet_fields)
qed

lemma logWrite_keeps:
  assumes "intact rn"
    and "\<And>ls d d' e h. inv d \<Longrightarrow> LogStore c = Some ls \<Longrightarrow> w ls d = (d', e) \<Longrightarrow> inv d' \<and> (could d' h \<longrightarrow> could d h)"
  shows "keeps rn (logWrite w p rn)"
proof (cases "LogStore (cfg rn)")
  case None
  then show ?thesis using keeps_return [OF assms(1)] by (simp add: logWrite_def)
next
  case (Some ls)
  have "inv (disk rn)" "LogStore c = Some ls" using assms(1) Some by (simp_all add: intact_def)
  then have "inv d \<and> (could d h \<longrightarrow> could (disk rn) h)" if "w ls (disk rn) = (d, e)" for d e h
    using assms(2) that by blast
  then show ?thesis using keeps_write [OF assms(1), of "w ls"] by (simp add: logWrite_def Some)
qed

lemma appendLogLocked_keeps: "intact rn \<Longrightarrow> keeps rn (appendLogLocked es rn)"
  unfolding appendLogLocked_def
  by (rule keeps_then [OF logWrite_keeps]) (use append in \<open>auto simp: quiet_fields\<close>)

lemma truncateLogLocked_keeps: "intact rn \<Longrightarrow> keeps rn (truncateLogLocked n rn)"
  unfolding truncateLogLocked_def
proof (rule keeps_bind [OF logWrite_keeps])
  fix r
  assume "intact r"
  then show "keeps r (bind_res (baseIndex r) (\<lambda>b. bind_res (rt r (go_slice_to (log r) (u64_sub n b))) (\<lambda>l. Inr (r\<lparr>log := l\<rparr>))))"
    by (intro keeps_read) (auto dest: reads_disk intro: keeps_fields)
qed (use truncate in auto)

lemma compactLogLocked_keeps:
  assumes i: "intact rn"
  shows "keeps rn (compactLogLocked index term rn)"
proof -
  have w: "keeps rn (bind_res (logWrite (\<lambda>ls. Compact ls suffix) CompactLog rn)
      (\<lambda>rn. Inr (rn\<lparr>log := \<lparr>Term = term, Index = index, Command = []\<rparr> # suffix\<rparr>)))" for suffix
    by (rule keeps_then [OF logWrite_keeps]) (use compact i in \<open>auto simp: quiet_fields\<close>)
  have r: "d = disk rn"
    if "(if index < lli then entriesFrom rn (u64_add index 1) else Inr []) = Inl (p, d)" for p d lli
    using that by (auto dest: reads_disk split: if_splits)
  show ?thesis
    unfolding compactLogLocked_def
    by (auto intro!: keeps_read keeps_return w simp: i dest: r reads_disk)
qed

text \<open>A new hard state, no older than the one before, is written.\<close>

lemma persist_new:
  assumes "intact rn" and "disk r = disk rn" and "cfg r = c" and "storable (hs_of r)" and "hs_le (hs_of rn) (hs_of r)"
  shows "ensures (\<lambda>(p, d). left_by rn d)
    (\<lambda>r'. (\<exists>d. r' = r\<lparr>disk := d\<rparr>) \<and> follows rn r' \<and> (\<forall>h. could (disk r') h \<longrightarrow> h = Some (hs_of r))) (persistLocked r)"
proof -
  obtain d e where s: "SaveHardState st (hs_of r) (disk rn) = (d, e)" by fastforce
  have i: "inv (disk rn)" using assms(1) by (simp add: intact_def)
  note d = save_inv [OF i assms(4) s] save_could [OF i assms(4) s] and sd = save_done [OF i assms(4), of d]
  have l: "left_by rn d" unfolding left_by_def using d assms(5) by (metis hard_state_def option.simps(5))
  have p: "persistLocked r = (case e of Some e \<Rightarrow> Inl (PersistHardState e, d) | None \<Rightarrow> Inr (r\<lparr>disk := d\<rparr>))"
    using s by (simp add: persistLocked_def assms(2,3) store hs_of_def split: option.splits)
  show ?thesis
    unfolding p using s sd l d(1) assms(3,4,5)
    by (cases e) (auto simp: follows_def intact_def)
qed

lemma becomeFollowerLocked_keeps:
  assumes i: "intact rn" and t: "term < u64_size"
  shows "keeps rn (becomeFollowerLocked clk term rn)"
proof (cases "term > currentTerm rn")
  case False
  then show ?thesis using keeps_update [OF i, of "rn\<lparr>state := Follower\<rparr>"] by (simp add: becomeFollowerLocked_def quiet_fields)
next
  case True
  let ?r = "rn\<lparr>currentTerm := term, votedFor := NoID, leaderID := NoID\<rparr>"
  let ?f = "\<lambda>r. resetElectionTimerLocked clk r\<lparr>state := Follower\<rparr>"
  have "storable (hs_of ?r)"
    using storable_none [OF t] by (simp add: hs_of_def)
  then have e: "ensures (\<lambda>(p, d). left_by rn d) (\<lambda>r'. (\<exists>d. r' = ?r\<lparr>disk := d\<rparr>) \<and> follows rn r') (persistLocked ?r)"
    using True i by (intro ensures_mono [OF persist_new [OF i, of ?r]]) (auto simp: intact_def hs_of_def hs_le_def)
  show ?thesis
  proof (cases "persistLocked ?r")
    case (Inl x)
    then show ?thesis using e True by (simp add: becomeFollowerLocked_def keeps_def)
  next
    case (Inr r')
    then obtain d where r': "r' = ?r\<lparr>disk := d\<rparr>" and f: "follows rn r'" using e by auto
    have "follows rn (?f r')" by (rule follows_same [OF f]) simp_all
    moreover have "quiet rn (?f r')" by (simp add: quiet_def r')
    ultimately show ?thesis using True Inr by (simp add: becomeFollowerLocked_def keeps_def)
  qed
qed

lemma keeps_if: "(b \<Longrightarrow> keeps rn m) \<Longrightarrow> (\<not> b \<Longrightarrow> keeps rn m') \<Longrightarrow> keeps rn (if b then m else m')"
  by simp

lemma becomeFollower_if_keeps:
  "intact rn \<Longrightarrow> term < u64_size \<Longrightarrow> keeps rn (if b then becomeFollowerLocked clk term rn else Inr rn)"
  by (simp add: becomeFollowerLocked_keeps keeps_return)

lemma appendWalk_keeps: "intact rn \<Longrightarrow> keeps rn (appendWalk base es rn)"
proof (induction base es rn rule: appendWalk.induct)
  case (2 base e es rn)
  then show ?case
    by (auto intro!: keeps_read keeps_bind [OF truncateLogLocked_keeps] appendLogLocked_keeps keeps_panic
        dest: reads_disk)
qed (simp add: keeps_return)

lemma conflictScan_disk: "conflictScan rn base t first = Inl (p, d) \<Longrightarrow> d = disk rn"
proof (induction rn base t first rule: conflictScan.induct)
  case (1 rn base t first)
  show ?case
  proof (cases "first > u64_add base 1")
    case True
    then show ?thesis
      using 1 conflictScan.simps [of rn base t first] by (auto simp: bind_res_Inl_iff dest: reads_disk split: if_splits)
  qed (use 1(2) conflictScan.simps [of rn base t first] in simp)
qed

lemma appendToLog_keeps:
  assumes "intact rn"
  shows "keeps rn (node_after (appendToLog args reply rn))"
proof -
  have cc: "d = disk rn" if "consistencyCheck args rn = Inl (p, d)" for p d
    using that by (auto simp: consistencyCheck_def bind_res_Inl_iff dest: reads_disk conflictScan_disk split: if_splits)
  have w: "keeps rn (bind_res (appendWalk base es rn) (\<lambda>r. Inr (advanceFollowerCommit args r)))" for base es
    by (rule keeps_then [OF appendWalk_keeps [OF assms]]) (auto simp: advanceFollowerCommit_def Let_def quiet_fields)
  show ?thesis
    unfolding appendToLog_def node_after_simps
  proof (rule keeps_read [OF assms])
    fix conflict
    show "keeps rn (node_after (case conflict of
       Some (ci, ct) \<Rightarrow> Inr (reply\<lparr>aer_ConflictIndex := ci, aer_ConflictTerm := ct\<rparr>, rn)
     | None \<Rightarrow> bind_res (baseIndex rn) (\<lambda>base. bind_res (appendWalk base (aea_Entries args) rn) (\<lambda>rn.
         Inr (reply\<lparr>aer_Success := True\<rparr>, advanceFollowerCommit args rn)))))"
      by (cases conflict) (auto intro!: keeps_read [OF assms] w keeps_return [OF assms] dest: reads_disk)
  qed (rule cc)
qed

lemma intact_same:
  "intact rn \<Longrightarrow> quiet rn rn' \<Longrightarrow> disk rn' = disk rn \<Longrightarrow> currentTerm rn' = currentTerm rn \<Longrightarrow>
   votedFor rn' = votedFor rn \<Longrightarrow> intact rn'"
  by (simp add: intact_def hs_of_def quiet_def)

text \<open>A node that acknowledges a leader goes on from here.\<close>

lemma keeps_acknowledged:
  assumes "intact rn" and "\<And>r. intact r \<Longrightarrow> keeps r (k r)"
  shows "keeps rn (k (resetElectionTimerLocked clk (rn\<lparr>leaderID := x\<rparr>)))"
  using keeps_bind [of rn "Inr (resetElectionTimerLocked clk (rn\<lparr>leaderID := x\<rparr>))" k] assms keeps_update
  by (auto simp: quiet_def)

lemma HandleAppendEntries_keeps:
  assumes "intact rn" and "aea_Term args < u64_size"
  shows "keeps rn (node_after (HandleAppendEntries clk args rn))"
proof -
  have k: "keeps r (node_after (appendToLog args reply (resetElectionTimerLocked clk (r\<lparr>leaderID := x\<rparr>))))"
    if "intact r" for reply r x
    using keeps_acknowledged [OF that, of "\<lambda>r. node_after (appendToLog args reply r)"] appendToLog_keeps by blast
  show ?thesis
    unfolding HandleAppendEntries_def node_after_simps
    using assms by (intro keeps_if keeps_bind [OF becomeFollower_if_keeps] keeps_return k)
qed

lemma saveInstalledSnapshot_keeps: "intact rn \<Longrightarrow> keeps rn (saveInstalledSnapshot snap rn)"
  using keeps_write [of rn "SaveSnapshot ss snap" for ss] save_snapshot keeps_return
  by (fastforce simp: saveInstalledSnapshot_def intact_def split: option.splits)

lemma installSnapshot_keeps:
  assumes "intact rn"
  shows "keeps rn (installSnapshot args rn)"
proof -
  have r: "d = disk rn" if "retainedSuffix args rn = Inl (p, d)" for p d
    using that by (auto simp: retainedSuffix_def bind_res_Inl_iff dest: reads_disk split: if_splits)
  have w: "keeps r (bind_res (compactForSnapshot suffix r) (\<lambda>rn. Inr (rn\<lparr>log := l, commitIndex := i, pendingSnapshot := s\<rparr>)))"
    if "intact r" for r suffix l i s
    unfolding compactForSnapshot_def
    by (rule keeps_then [OF logWrite_keeps]) (use compact that in \<open>auto simp: quiet_def\<close>)
  show ?thesis
    unfolding installSnapshot_def
    using assms by (auto intro!: keeps_read keeps_return keeps_bind [OF saveInstalledSnapshot_keeps] w dest: r simp: Let_def)
qed

lemma HandleInstallSnapshot_keeps:
  assumes "intact rn" and "isa_Term args < u64_size"
  shows "keeps rn (node_after (HandleInstallSnapshot clk args rn))"
proof -
  have k: "keeps r (bind_res (installSnapshot args (resetElectionTimerLocked clk (r\<lparr>leaderID := x\<rparr>))) Inr)"
    if "intact r" for r x
    using keeps_acknowledged [OF that, of "installSnapshot args" clk x, OF installSnapshot_keeps]
    by (cases "installSnapshot args (resetElectionTimerLocked clk (r\<lparr>leaderID := x\<rparr>))") simp_all
  show ?thesis
    unfolding HandleInstallSnapshot_def node_after_simps
    using assms by (intro keeps_if keeps_bind [OF becomeFollower_if_keeps] keeps_return k)
qed

lemma commitScan_disk: "commitScan rn n = Inl (p, d) \<Longrightarrow> d = disk rn"
  by (induction rn n rule: commitScan.induct) (auto simp: bind_res_Inl_iff dest: reads_disk split: if_splits)

lemma advanceCommitIndexLocked_keeps: "intact rn \<Longrightarrow> keeps rn (advanceCommitIndexLocked rn)"
  unfolding advanceCommitIndexLocked_def
  by (auto intro!: keeps_read keeps_return dest: reads_disk commitScan_disk split: option.splits
      intro: keeps_fields)

lemma Propose_keeps:
  assumes "intact rn"
  shows "keeps rn (node_after (Propose cmd rn))"
  unfolding Propose_def
  using assms
  by (auto intro!: keeps_read keeps_return keeps_bind [OF appendLogLocked_keeps] keeps_bind [OF advanceCommitIndexLocked_keeps]
      dest: reads_disk simp: Let_def intro: keeps_fields)

lemma handleAppendEntriesReply_keeps:
  assumes i: "intact rn" and t: "aer_Term reply < u64_size"
  shows "keeps rn (handleAppendEntriesReply clk peer term args reply rn)"
proof -
  have a: "keeps rn (advanceCommitIndexLocked (rn\<lparr>matchIndex := m, nextIndex := n\<rparr>))" for m n
  proof -
    have "keeps rn (bind_res (Inr (rn\<lparr>matchIndex := m, nextIndex := n\<rparr>)) advanceCommitIndexLocked)"
      by (rule keeps_bind [OF keeps_fields(4) [OF i]]) (rule advanceCommitIndexLocked_keeps)
    then show ?thesis by simp
  qed
  show ?thesis
    unfolding handleAppendEntriesReply_def
    using i t by (auto intro: keeps_return becomeFollowerLocked_keeps a keeps_fields simp: Let_def)
qed

lemma sendSnapshot_reply_keeps:
  assumes "intact rn" and "isr_Term reply < u64_size"
  shows "keeps rn (sendSnapshot_reply clk peer term snap reply rn)"
  unfolding sendSnapshot_reply_def
  using assms by (auto intro: keeps_return becomeFollowerLocked_keeps keeps_fields)

lemma buildAll_disk: "buildAll term rn ps = Inl (p, d) \<Longrightarrow> d = disk rn"
  by (induction ps) (auto simp: buildOutbound_def bind_res_Inl_iff Let_def dest: reads_disk split: if_splits)

lemma runReplication_keeps:
  assumes "intact rn"
  shows "keeps rn (node_after (runReplication term w rn))"
proof -
  have r: "d = disk rn" if "replicationRound term rn = Inl (p, d)" for p d
    using that by (auto simp: replicationRound_def bind_res_Inl_iff dest: buildAll_disk split: if_splits)
  show ?thesis
    unfolding runReplication_def node_after_simps
    by (rule keeps_read [OF assms r]) (auto split: option.splits wakeup.splits intro: keeps_return keeps_fields assms)
qed

lemma sendSnapshot_args_keeps: "intact rn \<Longrightarrow> sendSnapshot_args term rn = Inl (p, d) \<Longrightarrow> left_by rn d"
  by (auto simp: sendSnapshot_args_def left_by_refl split: option.splits sum.splits)

lemma applierLoop_keeps: "intact rn \<Longrightarrow> keeps rn (node_after (applierLoop rn))"
  unfolding applierLoop_def node_after_simps
  by (auto simp: Let_def split: option.splits intro: keeps_return keeps_fields intro!: keeps_read dest: reads_disk)

lemma maybeSnapshot_finish_keeps:
  assumes i: "intact rn"
  shows "keeps rn (maybeSnapshot_finish snapIndex snapTerm data rn)"
proof -
  have w: "keeps rn (case SaveSnapshot ss snap (disk rn) of
      (d, Some e) \<Rightarrow> Inl (PersistSnapshot e, d) | (d, None) \<Rightarrow> compactLogLocked snapIndex snapTerm (rn\<lparr>disk := d\<rparr>))"
    if "SnapshotStore c = Some ss" for ss snap
  proof -
    have "keeps rn (bind_res (case SaveSnapshot ss snap (disk rn) of
        (d, Some e) \<Rightarrow> Inl (PersistSnapshot e, d) | (d, None) \<Rightarrow> Inr (rn\<lparr>disk := d\<rparr>)) (compactLogLocked snapIndex snapTerm))"
    proof (rule keeps_bind [OF keeps_write [OF i]])
      show "inv d \<and> (could d h \<longrightarrow> could (disk rn) h)" if "SaveSnapshot ss snap (disk rn) = (d, e)" for d e h
        using save_snapshot [OF _ \<open>SnapshotStore c = Some ss\<close> that] i by (simp add: intact_def)
    qed (rule compactLogLocked_keeps)
    then show ?thesis by (auto split: prod.splits option.splits)
  qed
  have c: "cfg rn = c" using i by (simp add: intact_def)
  show ?thesis
    unfolding maybeSnapshot_finish_def c
    using i w by (auto split: sum.splits option.splits intro!: keeps_read keeps_return keeps_panic dest: reads_disk)
qed

lemma applierStep_keeps:
  assumes i: "intact (anode a)"
  shows "keeps (anode a) (bind_res (applierStep ops a) (\<lambda>a'. Inr (anode a')))"
proof (cases "apc a")
  case AtLoop
  have "keeps (anode a) (node_after (applierLoop (anode a)))" by (rule applierLoop_keeps [OF i])
  then show ?thesis
    by (cases "applierLoop (anode a)") (auto simp: applierStep_def AtLoop)
next
  case (Restoring snap)
  then show ?thesis
    using i by (auto simp: applierStep_def Let_def split: prod.splits option.splits intro: keeps_panic keeps_fields)
next
  case (Applying batch)
  let ?r = "anode a\<lparr>lastApplied := u64_add (lastApplied (anode a)) (length batch)\<rparr>"
  have d: "d = disk ?r" if "maybeSnapshot_begin ?r = Inl (p, d)" for p d
    using that by (auto simp: maybeSnapshot_begin_def bind_res_Inl_iff dest: reads_disk split: if_splits)
  show ?thesis
    using i
    by (auto simp: applierStep_def Let_def Applying bind_res_assoc intro!: keeps_read keeps_fields dest: d)
next
  case (Serializing x y)
  have "keeps (anode a) (maybeSnapshot_finish x y (sm_Snapshot ops (machine a)) (anode a))"
    by (rule maybeSnapshot_finish_keeps [OF i])
  then show ?thesis
    by (cases "maybeSnapshot_finish x y (sm_Snapshot ops (machine a)) (anode a)") (simp_all add: applierStep_def Serializing)
next
  case Exited
  then show ?thesis using keeps_return [OF i] by (simp add: applierStep_def)
qed

text \<open>Votes. An identifier is \<open>votable\<close> when a vote for it can be stored in every term.\<close>

definition votable :: "node_id \<Rightarrow> bool" where
  "votable x \<longleftrightarrow> (\<forall>t < u64_size. storable \<lparr>CurrentTerm = t, VotedFor = x\<rparr>)"

definition only_memory :: "'d RaftNode \<Rightarrow> bool" where
  "only_memory rn \<longleftrightarrow> (\<forall>h. could (disk rn) h \<longrightarrow> h = Some (hs_of rn))"

definition granted :: "RequestVoteArgs \<Rightarrow> RequestVoteReply \<Rightarrow> 'd RaftNode \<Rightarrow> bool" where
  "granted args reply rn \<longleftrightarrow> (rvr_VoteGranted reply \<longrightarrow>
     only_memory rn \<and> currentTerm rn = rva_Term args \<and> votedFor rn = rva_CandidateID args)"

lemma decideVote_keeps:
  assumes i: "intact rn" and t: "rva_Term args \<le> currentTerm rn" and v: "votable (rva_CandidateID args)"
  shows "ensures (\<lambda>(p, d). left_by rn d) (\<lambda>(reply, rn'). follows rn rn' \<and> quiet rn rn' \<and> granted args reply rn')
    (decideVote clk args rn)"
proof -
  let ?r = "rn\<lparr>votedFor := rva_CandidateID args\<rparr>" and ?Q = "\<lambda>(reply, rn'). follows rn rn' \<and> quiet rn rn' \<and> granted args reply rn'"
  let ?no = "\<lparr>rvr_Term = currentTerm rn, rvr_VoteGranted = False\<rparr>"
  have no: "?Q (?no, rn)" using i by (simp add: follows_refl granted_def)
  have rd: "ensures (\<lambda>(p, d). left_by rn d) ?Q (bind_res m k)"
    if "\<And>p d. m = Inl (p, d) \<Longrightarrow> d = disk rn" "\<And>x. m = Inr x \<Longrightarrow> ensures (\<lambda>(p, d). left_by rn d) ?Q (k x)"
    for m :: "('d, nat) outcome" and k
    using that left_by_refl [OF i] by (cases m) auto
  have yes: "ensures (\<lambda>(p, d). left_by rn d) ?Q (bind_res (persistLocked ?r) (\<lambda>rn.
      Inr (?no\<lparr>rvr_VoteGranted := True\<rparr>, resetElectionTimerLocked clk rn)))"
    if vf: "votedFor rn = NoID \<or> votedFor rn = rva_CandidateID args" and tt: "\<not> rva_Term args < currentTerm rn"
  proof (rule ensures_bind [OF persist_new [OF i, of ?r]])
    show "storable (hs_of ?r)"
      using v storable_bound [of "hs_of rn"] i by (simp add: votable_def intact_def hs_of_def)
    show "hs_le (hs_of rn) (hs_of ?r)" using vf by (auto simp: hs_le_def hs_of_def)
    fix r'
    assume r': "(\<exists>d. r' = ?r\<lparr>disk := d\<rparr>) \<and> follows rn r' \<and> (\<forall>h. could (disk r') h \<longrightarrow> h = Some (hs_of ?r))"
    have "follows rn (resetElectionTimerLocked clk r')" by (rule follows_same [OF conjunct1 [OF conjunct2 [OF r']]]) simp_all
    moreover have "quiet rn (resetElectionTimerLocked clk r')" using r' by (auto simp: quiet_def)
    moreover have "granted args (?no\<lparr>rvr_VoteGranted := True\<rparr>) (resetElectionTimerLocked clk r')"
      using r' t tt by (auto simp: granted_def only_memory_def hs_of_def)
    ultimately show "ensures (\<lambda>(p, d). left_by rn d) ?Q
        (Inr (?no\<lparr>rvr_VoteGranted := True\<rparr>, resetElectionTimerLocked clk r'))" by simp
  qed (use i in \<open>simp_all add: intact_def\<close>)
  show ?thesis
    unfolding decideVote_def Let_def
    using no yes by (auto intro!: rd dest: reads_disk)
qed

lemma HandleRequestVote_keeps:
  assumes i: "intact rn" and t: "rva_Term args < u64_size" and v: "votable (rva_CandidateID args)"
  shows "ensures (\<lambda>(p, d). left_by rn d) (\<lambda>(reply, rn'). follows rn rn' \<and> quiet rn rn' \<and> granted args reply rn')
    (HandleRequestVote clk args rn)"
proof (cases "stopped rn")
  case True
  then show ?thesis using i by (simp add: HandleRequestVote_def follows_refl granted_def)
next
  case False
  let ?m = "if rva_Term args > currentTerm rn then becomeFollowerLocked clk (rva_Term args) rn else Inr rn"
  have k: "keeps rn ?m" by (rule becomeFollower_if_keeps [OF i t])
  have "ensures (\<lambda>(p, d). left_by rn d) (\<lambda>(reply, rn'). follows rn rn' \<and> quiet rn rn' \<and> granted args reply rn')
      (bind_res ?m (decideVote clk args))"
  proof (cases ?m)
    case (Inl x)
    then show ?thesis using k by (simp add: keeps_def)
  next
    case (Inr r)
    then have f: "follows rn r" "quiet rn r" using k by (simp_all add: keeps_def)
    have "rva_Term args \<le> currentTerm r"
    proof (cases "rva_Term args > currentTerm rn")
      case True
      then have "steppedDown (rva_Term args) rn r"
        using ensures_InrD [OF becomeFollowerLocked_ensures [of rn "rva_Term args" clk]] Inr store i
        by (simp add: intact_def)
      then show ?thesis using True by (simp add: steppedDown_def)
    qed (use Inr in simp)
    then have "ensures (\<lambda>(p, d). left_by r d) (\<lambda>(reply, rn'). follows r rn' \<and> quiet r rn' \<and> granted args reply rn')
        (decideVote clk args r)"
      using f(1) v by (intro decideVote_keeps) (simp_all add: follows_def)
    then show ?thesis
      unfolding Inr bind_res_simps
      by (rule ensures_mono) (use left_by_trans [OF f(1)] follows_trans [OF f(1)] quiet_trans [OF f(2)] in auto)
  qed
  then show ?thesis using False by (simp add: HandleRequestVote_def)
qed

text \<open>Elections.\<close>

lemma becomeLeaderLocked_keeps:
  assumes "follows rn r"
  shows "ensures (\<lambda>(p, d). left_by rn d)
    (\<lambda>r'. follows rn r' \<and> cfg r' = cfg r \<and> node_id r' = node_id r \<and> peers r' = peers r \<and> disk r' = disk r \<and>
       currentTerm r' = currentTerm r \<and> votedFor r' = votedFor r \<and> votes r' = votes r \<and>
       voteCalls r' = voteCalls r \<and> state r' = Leader) (becomeLeaderLocked r)"
proof -
  let ?m = "if peers r = [] then Inr 0 else lastLogIndex r"
  have f: "follows rn (r\<lparr>state := Leader, leaderID := x, nextIndex := n, matchIndex := m, replicators := ts\<rparr>)" for x n m ts
    by (rule follows_same [OF assms]) simp_all
  have "left_by rn (disk r)" using assms by (simp add: follows_def)
  moreover have "d = disk r" if "?m = Inl (p, d)" for p d using that by (auto dest: reads_disk split: if_splits)
  ultimately show ?thesis
    unfolding becomeLeaderLocked_def using f by (cases ?m) auto
qed

lemma startElectionLocked_keeps:
  assumes i: "intact rn" and t: "currentTerm rn + 1 < u64_size" and v: "votable (node_id rn)"
  shows "ensures (\<lambda>(p, d). left_by rn d) (\<lambda>rn'. follows rn rn' \<and> only_memory rn' \<and> campaigns rn rn')
    (startElectionLocked clk rn)"
proof -
  let ?r = "rn\<lparr>state := Candidate, currentTerm := Suc (currentTerm rn), votedFor := node_id rn, leaderID := NoID\<rparr>"
  let ?P = "\<lambda>(p, d). left_by rn d" and ?Q = "\<lambda>rn'. follows rn rn' \<and> only_memory rn' \<and> campaigns rn rn'"
  let ?f = "\<lambda>r. resetElectionTimerLocked clk r"
  have add: "u64_add (currentTerm rn) 1 = Suc (currentTerm rn)" using t by (simp add: go_simps)
  show ?thesis
    unfolding startElectionLocked_def add
  proof (rule ensures_bind [OF persist_new [OF i, of ?r]])
    show "storable (hs_of ?r)" using v t by (simp add: votable_def hs_of_def)
    show "hs_le (hs_of rn) (hs_of ?r)" by (simp add: hs_le_def hs_of_def)
    fix r
    assume r: "(\<exists>d. r = ?r\<lparr>disk := d\<rparr>) \<and> follows rn r \<and> (\<forall>h. could (disk r) h \<longrightarrow> h = Some (hs_of ?r))"
    then obtain d where rd: "r = ?r\<lparr>disk := d\<rparr>" and om: "only_memory r" by (auto simp: only_memory_def)
    let ?v = "?f r\<lparr>votes := (votes r)(Suc (currentTerm rn) := 1)\<rparr>"
    have f: "follows rn ?v" by (rule follows_same [of rn r]) (use r in auto)
    have l: "left_by rn (disk r)" using r by (auto simp: follows_def)
    have om': "only_memory r'" if "disk r' = disk r" "currentTerm r' = Suc (currentTerm rn)" "votedFor r' = node_id rn" for r'
      using om that rd by (simp add: only_memory_def hs_of_def)
    have lead: "ensures ?P ?Q (becomeLeaderLocked ?v)" if "quorum ?v \<le> 1"
      by (rule ensures_mono [OF becomeLeaderLocked_keeps [OF f]])
        (use that in \<open>auto simp: campaigns_def rd quorum_def intro: om'\<close>)
    have ask: "?Q (?v\<lparr>voteCalls := map (\<lambda>p. \<lparr>vc_term = Suc (currentTerm rn), vc_peer = p,
        vc_args = \<lparr>rva_Term = Suc (currentTerm rn), rva_CandidateID = node_id rn, rva_LastLogIndex = a, rva_LastLogTerm = b\<rparr>\<rparr>)
        (peers rn) @ voteCalls rn\<rparr>)" for a b
    proof -
      have "follows rn (?v\<lparr>voteCalls := x\<rparr>)" for x by (rule follows_same [OF f]) simp_all
      then show ?thesis
        using om' by (auto simp: campaigns_def rd intro!: exI [of _ "\<lparr>rva_Term = Suc (currentTerm rn),
          rva_CandidateID = node_id rn, rva_LastLogIndex = a, rva_LastLogTerm = b\<rparr>"])
    qed
    have rd': "ensures ?P ?Q (bind_res m k)"
      if "\<And>p d. m = Inl (p, d) \<Longrightarrow> d = disk r" "\<And>x. m = Inr x \<Longrightarrow> ensures ?P ?Q (k x)"
      for m :: "('d, nat) outcome" and k
      using that l by (cases m) auto
    have k: "currentTerm r = Suc (currentTerm rn)" "node_id r = node_id rn" "peers r = peers rn" "voteCalls r = voteCalls rn"
      by (simp_all add: rd)
    show "ensures ?P ?Q (let rn = ?f r; term = currentTerm rn in
       bind_res (lastLogIndex rn) (\<lambda>lli. bind_res (lastLogTerm rn) (\<lambda>llt.
       let args = \<lparr>rva_Term = term, rva_CandidateID = node_id rn, rva_LastLogIndex = lli, rva_LastLogTerm = llt\<rparr>;
           rn = rn\<lparr>votes := (votes rn)(term := 1)\<rparr> in
       if 1 \<ge> quorum rn then becomeLeaderLocked rn
       else Inr (rn\<lparr>voteCalls :=
                   map (\<lambda>p. \<lparr>vc_term = term, vc_peer = p, vc_args = args\<rparr>) (peers rn) @ voteCalls rn\<rparr>))))"
      unfolding Let_def resetElectionTimerLocked_frame k
      apply (rule rd')
      subgoal by (drule reads_disk(1)) simp
      apply (rule rd')
      subgoal by (drule reads_disk(2)) simp
      using lead ask k by simp
  qed (use i in \<open>simp_all add: intact_def\<close>)
qed

lemma runElectionTicker_keeps:
  assumes "intact rn" and "currentTerm rn + 1 < u64_size" and "votable (node_id rn)"
  shows "ensures (\<lambda>(p, d). left_by rn d) (\<lambda>rn'. rn' = rn \<or> follows rn rn' \<and> only_memory rn' \<and> campaigns rn rn')
    (runElectionTicker clk rn)"
  unfolding runElectionTicker_def
  using ensures_mono [OF startElectionLocked_keeps [OF assms]] by simp

lemma handleVoteReply_keeps:
  assumes i: "intact rn" and t: "rvr_Term reply < u64_size"
  shows "ensures (\<lambda>(p, d). left_by rn d)
    (\<lambda>rn'. follows rn rn' \<and> (quiet rn rn' \<or> rvr_VoteGranted reply \<and> counts term rn rn')) (handleVoteReply clk term reply rn)"
proof -
  let ?P = "\<lambda>(p, d). left_by rn d"
  let ?Q = "\<lambda>rn'. follows rn rn' \<and> (quiet rn rn' \<or> rvr_VoteGranted reply \<and> counts term rn rn')"
  let ?v = "rn\<lparr>votes := (votes rn)(term := Suc (votes rn term))\<rparr>"
  have f: "follows rn ?v" by (rule follows_same [OF follows_refl [OF i]]) simp_all
  have k: "ensures ?P ?Q (becomeFollowerLocked clk (rvr_Term reply) rn)"
    using becomeFollowerLocked_keeps [OF i t] unfolding keeps_def by (rule ensures_mono) auto
  have lead: "ensures ?P ?Q (becomeLeaderLocked ?v)"
    if "rvr_VoteGranted reply" "state rn = Candidate" "currentTerm rn = term" "Suc (votes rn term) = quorum ?v"
    by (rule ensures_mono [OF becomeLeaderLocked_keeps [OF f]]) (use that in \<open>auto simp: counts_def quorum_def\<close>)
  show ?thesis
    unfolding handleVoteReply_def Let_def
    using k lead f follows_refl [OF i] by (auto simp: counts_def)
qed

text \<open>Recovery: a new node starts from a hard state that its disk could hold.\<close>

lemma recoverLog_keeps:
  assumes "inv (disk rn)" and "cfg rn = c" and "recoverLog rn = (d', r)"
  shows "inv d' \<and> (could d' h \<longrightarrow> could (disk rn) h) \<and>
    (r = Inr rn' \<longrightarrow> cfg rn' = c \<and> disk rn' = d' \<and> currentTerm rn' = currentTerm rn \<and> votedFor rn' = votedFor rn)"
proof (cases "LogStore c")
  case None
  then show ?thesis using assms by (auto simp: recoverLog_def)
next
  case (Some ls)
  obtain d x where l: "LoadEntries ls (disk rn) = (d, x)" by fastforce
  note k = load_log [OF assms(1) Some l]
  show ?thesis
    using assms(2,3) k Some l by (auto simp: recoverLog_def Let_def bind_res_Inr_iff split: sum.splits)
qed

lemma NewNode_keeps:
  assumes i: "inv d" and c: "withDefaults cfg0 = c" and n: "NewNode cfg0 d = (d', r)"
  shows "inv d' \<and> (could d' h \<longrightarrow> could d h) \<and>
    (r = Inr rn \<longrightarrow> intact rn \<and> disk rn = d' \<and> (\<exists>h0. could d h0 \<and> hs_of rn = hard_state h0))"
proof -
  have st: "Store cfg0 = Some st" using store c by (auto simp: withDefaults_def)
  show ?thesis
  proof (cases "bind_res (recoverHardState st (freshNode c d)) recoverSnapshot")
    case (Inl e)
    then show ?thesis using n i st by (auto simp: NewNode_def c Let_def split: if_splits)
  next
    case (Inr r0)
    obtain r1 where r1: "recoverHardState st (freshNode c d) = Inr r1" "recoverSnapshot r1 = Inr r0"
      using Inr by (auto simp: bind_res_Inr_iff)
    obtain h0 where h0: "LoadHardState st d = Inr h0" "hs_of r1 = hard_state h0" "cfg r1 = c" "disk r1 = d"
      using r1(1) by (auto simp: recoverHardState_def freshNode_def hs_of_def hard_state_def split: sum.splits option.splits)
    have r0: "hs_of r0 = hs_of r1" "cfg r0 = c" "disk r0 = d"
      using r1(2) h0 by (auto simp: recoverSnapshot_def hs_of_def split: sum.splits option.splits)
    have l: "could d h0" "storable (hard_state h0)" using load [OF i h0(1)] by simp_all
    show ?thesis
    proof (cases "recoverLog r0 = (d', r)")
      case True
      have k: "inv d' \<and> (could d' h \<longrightarrow> could d h) \<and> (r = Inr rn \<longrightarrow> cfg rn = c \<and> disk rn = d' \<and>
          currentTerm rn = currentTerm r0 \<and> votedFor rn = votedFor r0)"
        using recoverLog_keeps [of r0 d' r h rn, OF _ r0(2) True] r0(3) i by simp
      then have "hs_of rn = hard_state h0" if "r = Inr rn" using r0(1) h0(2) that by (simp add: hs_of_def)
      then show ?thesis using k l by (auto simp: intact_def)
    next
      case False
      then show ?thesis using n i st Inr by (auto simp: NewNode_def c Let_def split: if_splits)
    qed
  qed
qed

text \<open>The terms a node sends are terms it can store.\<close>

lemma intact_term: "intact rn \<Longrightarrow> currentTerm rn < u64_size"
  using storable_bound [of "hs_of rn"] by (simp add: intact_def hs_of_def)

lemma becomeFollower_if_term:
  assumes "intact rn" and "t < u64_size" and "(if b then becomeFollowerLocked clk t rn else Inr rn) = Inr r"
  shows "currentTerm r < u64_size"
  using becomeFollower_if_keeps [OF assms(1,2), of b clk] assms(3) intact_term by (simp add: keeps_def follows_def)

lemma HandleRequestVote_term:
  assumes "intact rn" and "rva_Term args < u64_size" and "HandleRequestVote clk args rn = Inr (reply, rn')"
  shows "rvr_Term reply < u64_size"
proof (cases "stopped rn")
  case True
  then show ?thesis using assms intact_term by (auto simp: HandleRequestVote_def)
next
  case False
  then obtain r where r: "(if rva_Term args > currentTerm rn then becomeFollowerLocked clk (rva_Term args) rn else Inr rn) = Inr r"
      "decideVote clk args r = Inr (reply, rn')"
    using assms(3) by (auto simp: HandleRequestVote_def bind_res_Inr_iff)
  then have "rvr_Term reply = currentTerm r"
    by (auto simp: decideVote_def Let_def bind_res_Inr_iff split: if_splits)
  then show ?thesis using becomeFollower_if_term [OF assms(1,2) r(1)] by simp
qed

lemma HandleAppendEntries_term:
  assumes "intact rn" and "aea_Term args < u64_size" and "HandleAppendEntries clk args rn = Inr (reply, rn')"
  shows "aer_Term reply < u64_size"
proof (cases "stopped rn")
  case True
  then show ?thesis using assms intact_term by (auto simp: HandleAppendEntries_def rejectAppend_def)
next
  case False
  then obtain r where r: "(if aea_Term args > currentTerm rn then becomeFollowerLocked clk (aea_Term args) rn else Inr rn) = Inr r"
    using assms(3) by (auto simp: HandleAppendEntries_def bind_res_Inr_iff)
  have "aer_Term reply = currentTerm r"
    using assms(3) False
    by (auto simp: HandleAppendEntries_def appendToLog_def rejectAppend_def bind_res_Inr_iff r split: if_splits option.splits)
  then show ?thesis using becomeFollower_if_term [OF assms(1,2) r(1)] by simp
qed

lemma HandleInstallSnapshot_term:
  assumes "intact rn" and "isa_Term args < u64_size" and "HandleInstallSnapshot clk args rn = Inr (reply, rn')"
  shows "isr_Term reply < u64_size"
proof (cases "stopped rn")
  case True
  then show ?thesis using assms intact_term by (auto simp: HandleInstallSnapshot_def)
next
  case False
  then obtain r where r: "(if isa_Term args > currentTerm rn then becomeFollowerLocked clk (isa_Term args) rn else Inr rn) = Inr r"
    using assms(3) by (auto simp: HandleInstallSnapshot_def bind_res_Inr_iff)
  have "isr_Term reply = currentTerm r"
    using assms(3) False by (auto simp: HandleInstallSnapshot_def bind_res_Inr_iff r split: if_splits)
  then show ?thesis using becomeFollower_if_term [OF assms(1,2) r(1)] by simp
qed

end

end
