(* ===== verification/Rpc.thy ===== *)
theory Rpc
  imports Raft_Handlers
begin

text \<open>
  Package \<open>rpc\<close>: the messages of \<^verbatim>\<open>rpc/raft.proto\<close>, the conversions between them and the types
  of package \<open>raft\<close>, the service that hands requests to a node (\<^verbatim>\<open>rpc/server.go\<close>) and the
  transport that sends a node's requests (\<^verbatim>\<open>rpc/transport.go\<close>). The generated client of a peer
  is a parameter: a function from the request to an error or the response.
\<close>

section \<open>Messages\<close>

record PbLogEntry =
  pb_Term :: nat
  pb_Index :: nat
  pb_Command :: bytes

record RequestVoteRequest =
  rvq_Term :: nat
  rvq_CandidateId :: node_id
  rvq_LastLogIndex :: nat
  rvq_LastLogTerm :: nat

record RequestVoteResponse =
  rvs_Term :: nat
  rvs_VoteGranted :: bool

record AppendEntriesRequest =
  aeq_Term :: nat
  aeq_LeaderId :: node_id
  aeq_PrevLogIndex :: nat
  aeq_PrevLogTerm :: nat
  aeq_Entries :: "PbLogEntry list"
  aeq_LeaderCommit :: nat

record AppendEntriesResponse =
  aes_Term :: nat
  aes_Success :: bool
  aes_ConflictIndex :: nat
  aes_ConflictTerm :: nat

record InstallSnapshotRequest =
  isq_Term :: nat
  isq_LeaderId :: node_id
  isq_LastIncludedIndex :: nat
  isq_LastIncludedTerm :: nat
  isq_Offset :: nat
  isq_Data :: bytes
  isq_Done :: bool

record InstallSnapshotResponse =
  iss_Term :: nat

section \<open>The service\<close>

fun entriesFromProto :: "PbLogEntry list \<Rightarrow> LogEntry list" where
  "entriesFromProto [] = []"
| "entriesFromProto (e # es) =
     \<lparr>Term = pb_Term e, Index = pb_Index e, Command = pb_Command e\<rparr> # entriesFromProto es"

fun entriesToProto :: "LogEntry list \<Rightarrow> PbLogEntry list" where
  "entriesToProto [] = []"
| "entriesToProto (e # es) =
     \<lparr>pb_Term = Term e, pb_Index = Index e, pb_Command = Command e\<rparr> # entriesToProto es"

definition serve_RequestVote ::
  "Clock \<Rightarrow> RequestVoteRequest \<Rightarrow> 'd RaftNode \<Rightarrow> ('d, RequestVoteResponse \<times> 'd RaftNode) outcome" where
  "serve_RequestVote clk req rn =
     bind_res (HandleRequestVote clk
       \<lparr>rva_Term = rvq_Term req, rva_CandidateID = rvq_CandidateId req,
        rva_LastLogIndex = rvq_LastLogIndex req, rva_LastLogTerm = rvq_LastLogTerm req\<rparr> rn) (\<lambda>(reply, rn).
     Inr (\<lparr>rvs_Term = rvr_Term reply, rvs_VoteGranted = rvr_VoteGranted reply\<rparr>, rn))"

definition serve_AppendEntries ::
  "Clock \<Rightarrow> AppendEntriesRequest \<Rightarrow> 'd RaftNode \<Rightarrow> ('d, AppendEntriesResponse \<times> 'd RaftNode) outcome" where
  "serve_AppendEntries clk req rn =
     bind_res (HandleAppendEntries clk
       \<lparr>aea_Term = aeq_Term req, aea_LeaderID = aeq_LeaderId req,
        aea_PrevLogIndex = aeq_PrevLogIndex req, aea_PrevLogTerm = aeq_PrevLogTerm req,
        aea_Entries = entriesFromProto (aeq_Entries req), aea_LeaderCommit = aeq_LeaderCommit req\<rparr> rn) (\<lambda>(reply, rn).
     Inr (\<lparr>aes_Term = aer_Term reply, aes_Success = aer_Success reply,
           aes_ConflictIndex = aer_ConflictIndex reply, aes_ConflictTerm = aer_ConflictTerm reply\<rparr>, rn))"

definition serve_InstallSnapshot ::
  "Clock \<Rightarrow> InstallSnapshotRequest \<Rightarrow> 'd RaftNode \<Rightarrow> ('d, InstallSnapshotResponse \<times> 'd RaftNode) outcome" where
  "serve_InstallSnapshot clk req rn =
     bind_res (HandleInstallSnapshot clk
       \<lparr>isa_Term = isq_Term req, isa_LeaderID = isq_LeaderId req,
        isa_LastIncludedIndex = isq_LastIncludedIndex req, isa_LastIncludedTerm = isq_LastIncludedTerm req,
        isa_Offset = isq_Offset req, isa_Data = isq_Data req, isa_Done = isq_Done req\<rparr> rn) (\<lambda>(reply, rn).
     Inr (\<lparr>iss_Term = isr_Term reply\<rparr>, rn))"

section \<open>The transport\<close>

datatype rpc_error = UnknownPeer node_id | CallFailed err

text \<open>
  What the connection to a peer does with a request. The transport has one per peer it was
  built for.
\<close>

record RaftClient =
  cl_RequestVote :: "RequestVoteRequest \<Rightarrow> err + RequestVoteResponse"
  cl_AppendEntries :: "AppendEntriesRequest \<Rightarrow> err + AppendEntriesResponse"
  cl_InstallSnapshot :: "InstallSnapshotRequest \<Rightarrow> err + InstallSnapshotResponse"

type_synonym Transport_clients = "node_id \<rightharpoonup> RaftClient"

text \<open>
  \<open>NewTransport\<close> over the peers in the order the map is iterated; \<open>dial\<close> is \<open>grpc.NewClient\<close> with
  the generated client around it. Closing what was opened before an error has no effect here.
\<close>

fun NewTransport ::
  "(string \<Rightarrow> err + RaftClient) \<Rightarrow> (node_id \<times> string) list \<Rightarrow> Transport_clients
   \<Rightarrow> (node_id \<times> string \<times> err) + Transport_clients" where
  "NewTransport dial [] t = Inr t"
| "NewTransport dial ((peer, addr) # ps) t =
     (case dial addr of
        Inl e \<Rightarrow> Inl (peer, addr, e)
      | Inr c \<Rightarrow> NewTransport dial ps (t(peer \<mapsto> c)))"

definition transport_RequestVote ::
  "Transport_clients \<Rightarrow> node_id \<Rightarrow> RequestVoteArgs \<Rightarrow> rpc_error + RequestVoteReply" where
  "transport_RequestVote t peerID args =
     (case t peerID of
        None \<Rightarrow> Inl (UnknownPeer peerID)
      | Some c \<Rightarrow>
          (case cl_RequestVote c
             \<lparr>rvq_Term = rva_Term args, rvq_CandidateId = rva_CandidateID args,
              rvq_LastLogIndex = rva_LastLogIndex args, rvq_LastLogTerm = rva_LastLogTerm args\<rparr> of
             Inl e \<Rightarrow> Inl (CallFailed e)
           | Inr resp \<Rightarrow> Inr \<lparr>rvr_Term = rvs_Term resp, rvr_VoteGranted = rvs_VoteGranted resp\<rparr>))"

definition transport_AppendEntries ::
  "Transport_clients \<Rightarrow> node_id \<Rightarrow> AppendEntriesArgs \<Rightarrow> rpc_error + AppendEntriesReply" where
  "transport_AppendEntries t peerID args =
     (case t peerID of
        None \<Rightarrow> Inl (UnknownPeer peerID)
      | Some c \<Rightarrow>
          (case cl_AppendEntries c
             \<lparr>aeq_Term = aea_Term args, aeq_LeaderId = aea_LeaderID args,
              aeq_PrevLogIndex = aea_PrevLogIndex args, aeq_PrevLogTerm = aea_PrevLogTerm args,
              aeq_Entries = entriesToProto (aea_Entries args), aeq_LeaderCommit = aea_LeaderCommit args\<rparr> of
             Inl e \<Rightarrow> Inl (CallFailed e)
           | Inr resp \<Rightarrow>
               Inr \<lparr>aer_Term = aes_Term resp, aer_Success = aes_Success resp,
                    aer_ConflictIndex = aes_ConflictIndex resp, aer_ConflictTerm = aes_ConflictTerm resp\<rparr>))"

definition transport_InstallSnapshot ::
  "Transport_clients \<Rightarrow> node_id \<Rightarrow> InstallSnapshotArgs \<Rightarrow> rpc_error + InstallSnapshotReply" where
  "transport_InstallSnapshot t peerID args =
     (case t peerID of
        None \<Rightarrow> Inl (UnknownPeer peerID)
      | Some c \<Rightarrow>
          (case cl_InstallSnapshot c
             \<lparr>isq_Term = isa_Term args, isq_LeaderId = isa_LeaderID args,
              isq_LastIncludedIndex = isa_LastIncludedIndex args,
              isq_LastIncludedTerm = isa_LastIncludedTerm args,
              isq_Offset = isa_Offset args, isq_Data = isa_Data args, isq_Done = isa_Done args\<rparr> of
             Inl e \<Rightarrow> Inl (CallFailed e)
           | Inr resp \<Rightarrow> Inr \<lparr>isr_Term = iss_Term resp\<rparr>))"

section \<open>A call reaches the handler\<close>

text \<open>
  A call of the transport (\<open>send\<close>, for given arguments) is transparent when there is one message such
  that the transport passes exactly that message to the client of the peer it is asked for, and
  returns the decoded response or the client's error; and the service makes of that message, on
  every node and at every time, exactly what the handler makes of the arguments: the same node
  afterwards and the same reply once decoded, or the same panic.
\<close>

definition transparent ::
  "(Transport_clients \<Rightarrow> node_id \<Rightarrow> rpc_error + 'r) \<Rightarrow> (RaftClient \<Rightarrow> 'q \<Rightarrow> err + 's)
   \<Rightarrow> (Clock \<Rightarrow> 'q \<Rightarrow> 'd RaftNode \<Rightarrow> ('d, 's \<times> 'd RaftNode) outcome)
   \<Rightarrow> (Clock \<Rightarrow> 'd RaftNode \<Rightarrow> ('d, 'r \<times> 'd RaftNode) outcome) \<Rightarrow> bool" where
  "transparent send client serve handle \<longleftrightarrow> (\<exists>q decode.
     (\<forall>t peer. send t peer =
        (case t peer of
           None \<Rightarrow> Inl (UnknownPeer peer)
         | Some c \<Rightarrow> map_sum CallFailed decode (client c q))) \<and>
     (\<forall>clk rn. handle clk rn = map_sum id (\<lambda>(resp, rn'). (decode resp, rn')) (serve clk q rn)))"

lemma entries_roundtrip [simp]:
  "entriesFromProto (entriesToProto es) = es" "entriesToProto (entriesFromProto ps) = ps"
  by (induction es, auto) (induction ps, auto)

lemma rebuild_args:
  "\<lparr>rva_Term = rva_Term v, rva_CandidateID = rva_CandidateID v,
    rva_LastLogIndex = rva_LastLogIndex v, rva_LastLogTerm = rva_LastLogTerm v\<rparr> = v"
  "\<lparr>aea_Term = aea_Term a, aea_LeaderID = aea_LeaderID a, aea_PrevLogIndex = aea_PrevLogIndex a,
    aea_PrevLogTerm = aea_PrevLogTerm a, aea_Entries = aea_Entries a, aea_LeaderCommit = aea_LeaderCommit a\<rparr> = a"
  "\<lparr>isa_Term = isa_Term s, isa_LeaderID = isa_LeaderID s, isa_LastIncludedIndex = isa_LastIncludedIndex s,
    isa_LastIncludedTerm = isa_LastIncludedTerm s, isa_Offset = isa_Offset s, isa_Data = isa_Data s,
    isa_Done = isa_Done s\<rparr> = s"
  by (cases v, simp, cases a, simp, cases s, simp)

lemma rebuild_replies:
  "\<lparr>rvr_Term = rvr_Term v, rvr_VoteGranted = rvr_VoteGranted v\<rparr> = v"
  "\<lparr>aer_Term = aer_Term a, aer_Success = aer_Success a, aer_ConflictIndex = aer_ConflictIndex a,
    aer_ConflictTerm = aer_ConflictTerm a\<rparr> = a"
  "\<lparr>isr_Term = isr_Term s\<rparr> = s"
  by (cases v, simp, cases a, simp, cases s, simp)

lemma transparent_RequestVote:
  "transparent (\<lambda>t peer. transport_RequestVote t peer args) cl_RequestVote serve_RequestVote
     (\<lambda>clk rn. HandleRequestVote clk args rn)"
  unfolding transparent_def
proof (intro exI conjI allI)
  let ?q = "\<lparr>rvq_Term = rva_Term args, rvq_CandidateId = rva_CandidateID args,
              rvq_LastLogIndex = rva_LastLogIndex args, rvq_LastLogTerm = rva_LastLogTerm args\<rparr>"
  let ?d = "\<lambda>resp. \<lparr>rvr_Term = rvs_Term resp, rvr_VoteGranted = rvs_VoteGranted resp\<rparr>"
  show "transport_RequestVote t peer args =
      (case t peer of None \<Rightarrow> Inl (UnknownPeer peer) | Some c \<Rightarrow> map_sum CallFailed ?d (cl_RequestVote c ?q))" for t peer
    by (auto simp: transport_RequestVote_def split: option.splits sum.splits)
  show "HandleRequestVote clk args rn = map_sum id (\<lambda>(resp, rn'). (?d resp, rn')) (serve_RequestVote clk ?q rn)" for clk rn
    by (cases "HandleRequestVote clk args rn") (auto simp: serve_RequestVote_def rebuild_args rebuild_replies)
qed

lemma transparent_AppendEntries:
  "transparent (\<lambda>t peer. transport_AppendEntries t peer args) cl_AppendEntries serve_AppendEntries
     (\<lambda>clk rn. HandleAppendEntries clk args rn)"
  unfolding transparent_def
proof (intro exI conjI allI)
  let ?q = "\<lparr>aeq_Term = aea_Term args, aeq_LeaderId = aea_LeaderID args,
              aeq_PrevLogIndex = aea_PrevLogIndex args, aeq_PrevLogTerm = aea_PrevLogTerm args,
              aeq_Entries = entriesToProto (aea_Entries args), aeq_LeaderCommit = aea_LeaderCommit args\<rparr>"
  let ?d = "\<lambda>resp. \<lparr>aer_Term = aes_Term resp, aer_Success = aes_Success resp,
                aer_ConflictIndex = aes_ConflictIndex resp, aer_ConflictTerm = aes_ConflictTerm resp\<rparr>"
  show "transport_AppendEntries t peer args =
      (case t peer of None \<Rightarrow> Inl (UnknownPeer peer) | Some c \<Rightarrow> map_sum CallFailed ?d (cl_AppendEntries c ?q))" for t peer
    by (auto simp: transport_AppendEntries_def split: option.splits sum.splits)
  show "HandleAppendEntries clk args rn = map_sum id (\<lambda>(resp, rn'). (?d resp, rn')) (serve_AppendEntries clk ?q rn)" for clk rn
    by (cases "HandleAppendEntries clk args rn") (auto simp: serve_AppendEntries_def rebuild_args rebuild_replies)
qed

lemma transparent_InstallSnapshot:
  "transparent (\<lambda>t peer. transport_InstallSnapshot t peer args) cl_InstallSnapshot serve_InstallSnapshot
     (\<lambda>clk rn. HandleInstallSnapshot clk args rn)"
  unfolding transparent_def
proof (intro exI conjI allI)
  let ?q = "\<lparr>isq_Term = isa_Term args, isq_LeaderId = isa_LeaderID args,
              isq_LastIncludedIndex = isa_LastIncludedIndex args,
              isq_LastIncludedTerm = isa_LastIncludedTerm args,
              isq_Offset = isa_Offset args, isq_Data = isa_Data args, isq_Done = isa_Done args\<rparr>"
  let ?d = "\<lambda>resp. \<lparr>isr_Term = iss_Term resp\<rparr>"
  show "transport_InstallSnapshot t peer args =
      (case t peer of None \<Rightarrow> Inl (UnknownPeer peer) | Some c \<Rightarrow> map_sum CallFailed ?d (cl_InstallSnapshot c ?q))" for t peer
    by (auto simp: transport_InstallSnapshot_def split: option.splits sum.splits)
  show "HandleInstallSnapshot clk args rn = map_sum id (\<lambda>(resp, rn'). (?d resp, rn')) (serve_InstallSnapshot clk ?q rn)" for clk rn
    by (cases "HandleInstallSnapshot clk args rn") (auto simp: serve_InstallSnapshot_def rebuild_args rebuild_replies)
qed

lemma NewTransport_clients:
  assumes "NewTransport dial ps t = Inr t'" and "distinct (map fst ps)" and "(peer, addr) \<in> set ps"
  shows "\<exists>c. dial addr = Inr c \<and> t' peer = Some c"
proof -
  have keep: "NewTransport dial ps t = Inr t' \<Longrightarrow> p \<notin> fst ` set ps \<Longrightarrow> t' p = t p" for ps t p
    by (induction ps arbitrary: t) (auto split: sum.splits)
  show ?thesis
    using assms
  proof (induction ps arbitrary: t)
    case (Cons p ps)
    obtain q a where p: "p = (q, a)" by (cases p)
    obtain c where c: "dial a = Inr c" "NewTransport dial ps (t(q \<mapsto> c)) = Inr t'"
      using Cons(2) by (auto simp: p split: sum.splits)
    then show ?case
      using Cons(1,3,4) keep [OF c(2), of q] by (auto simp: p)
  qed simp
qed

end
