(* ===== verification/Cluster_Config.thy ===== *)
theory Cluster_Config
  imports Raft_Node Go_Json
begin

text \<open>
  Package \<open>config\<close>: the static membership file, its validation and the queries on it, and that
  the majority the configuration computes is the one a node of the cluster uses.
\<close>

section \<open>The file\<close>

record Node =
  Node_ID :: string
  RaftAddr :: string
  ClientAddr :: string

record Cluster =
  Nodes :: "Node list"

datatype config_error =
    ReadingConfig err
  | ParsingConfig
  | NoNodes
  | EmptyID nat
  | EmptyRaftAddr string
  | EmptyClientAddr string
  | DuplicateID string
  | AddressTaken string string string

text \<open>
  Decoding. A slice that is decoded again keeps its backing array: element \<open>i\<close> of the later
  array is decoded over whatever slot \<open>i\<close> held, so the decoder's state is the backing array
  and the length; \<open>null\<close> and an empty array drop it.
\<close>

definition updNode :: "string \<Rightarrow> json \<Rightarrow> Node \<Rightarrow> Node option" where
  "updNode k j n =
     (let names = [''id'', ''raft_addr'', ''client_addr''] in
      if is_field names ''id'' k then map_option (\<lambda>s. n\<lparr>Node_ID := s\<rparr>) (dec_string j (Node_ID n))
      else if is_field names ''raft_addr'' k
      then map_option (\<lambda>s. n\<lparr>RaftAddr := s\<rparr>) (dec_string j (RaftAddr n))
      else if is_field names ''client_addr'' k
      then map_option (\<lambda>s. n\<lparr>ClientAddr := s\<rparr>) (dec_string j (ClientAddr n))
      else Some n)"

fun dec_nodes :: "json list \<Rightarrow> Node list \<Rightarrow> Node list option" where
  "dec_nodes [] back = Some back"
| "dec_nodes (j # js) back =
     Option.bind (dec_struct updNode j
       (case back of [] \<Rightarrow> \<lparr>Node_ID = [], RaftAddr = [], ClientAddr = []\<rparr> | b # _ \<Rightarrow> b)) (\<lambda>n.
     map_option ((#) n) (dec_nodes js (tl back)))"

definition updCluster :: "string \<Rightarrow> json \<Rightarrow> nat \<times> Node list \<Rightarrow> (nat \<times> Node list) option" where
  "updCluster k j c =
     (if is_field [''nodes''] ''nodes'' k then
        (case j of
           JNull \<Rightarrow> Some (0, [])
         | JArr [] \<Rightarrow> Some (0, [])
         | JArr js \<Rightarrow> map_option (Pair (length js)) (dec_nodes js (snd c))
         | _ \<Rightarrow> None)
      else Some c)"

definition unmarshalCluster :: "bytes \<Rightarrow> Cluster option" where
  "unmarshalCluster data =
     map_option (\<lambda>(n, back). \<lparr>Nodes = take n back\<rparr>) (unmarshal updCluster data (0, []))"

section \<open>Validation\<close>

fun claimAddrs :: "string \<Rightarrow> string list \<Rightarrow> (string \<rightharpoonup> string) \<Rightarrow> config_error + (string \<rightharpoonup> string)" where
  "claimAddrs nid [] seenAddrs = Inr seenAddrs"
| "claimAddrs nid (addr # addrs) seenAddrs =
     (case seenAddrs addr of
        Some owner \<Rightarrow> Inl (AddressTaken addr owner nid)
      | None \<Rightarrow> claimAddrs nid addrs (seenAddrs(addr \<mapsto> nid)))"

fun validateNodes ::
  "nat \<Rightarrow> Node list \<Rightarrow> string set \<Rightarrow> (string \<rightharpoonup> string) \<Rightarrow> config_error option" where
  "validateNodes i [] seenIDs seenAddrs = None"
| "validateNodes i (n # ns) seenIDs seenAddrs =
     (if Node_ID n = [] then Some (EmptyID i)
      else if RaftAddr n = [] then Some (EmptyRaftAddr (Node_ID n))
      else if ClientAddr n = [] then Some (EmptyClientAddr (Node_ID n))
      else if Node_ID n \<in> seenIDs then Some (DuplicateID (Node_ID n))
      else case claimAddrs (Node_ID n) [RaftAddr n, ClientAddr n] seenAddrs of
        Inl e \<Rightarrow> Some e
      | Inr seen \<Rightarrow> validateNodes (i + 1) ns (insert (Node_ID n) seenIDs) seen)"

definition Validate :: "Cluster \<Rightarrow> config_error option" where
  "Validate c = (if Nodes c = [] then Some NoNodes else validateNodes 0 (Nodes c) {} Map.empty)"

definition Load :: "err + bytes \<Rightarrow> config_error + Cluster" where
  "Load file =
     (case file of
        Inl e \<Rightarrow> Inl (ReadingConfig e)
      | Inr data \<Rightarrow>
          (case unmarshalCluster data of
             None \<Rightarrow> Inl ParsingConfig
           | Some c \<Rightarrow> (case Validate c of Some e \<Rightarrow> Inl e | None \<Rightarrow> Inr c)))"

section \<open>Queries\<close>

fun findNode :: "Node list \<Rightarrow> string \<Rightarrow> Node \<times> bool" where
  "findNode [] nid = (\<lparr>Node_ID = [], RaftAddr = [], ClientAddr = []\<rparr>, False)"
| "findNode (n # ns) nid = (if Node_ID n = nid then (n, True) else findNode ns nid)"

definition cluster_Node :: "Cluster \<Rightarrow> string \<Rightarrow> Node \<times> bool" where
  "cluster_Node c nid = findNode (Nodes c) nid"

text \<open>\<open>make\<close> with a negative capacity panics: a cluster without nodes has no peers to ask for.\<close>

datatype config_panic = NegativeCapacity

definition cluster_Peers :: "Cluster \<Rightarrow> string \<Rightarrow> config_panic + Node list" where
  "cluster_Peers c selfID =
     (if Nodes c = [] then Inl NegativeCapacity
      else Inr (filter (\<lambda>n. Node_ID n \<noteq> selfID) (Nodes c)))"

definition QuorumSize :: "Cluster \<Rightarrow> nat" where
  "QuorumSize c = length (Nodes c) div 2 + 1"

section \<open>What validation accepts\<close>

definition addresses :: "Node list \<Rightarrow> string list" where
  "addresses ns = concat (map (\<lambda>n. [RaftAddr n, ClientAddr n]) ns)"

definition valid_cluster :: "Cluster \<Rightarrow> bool" where
  "valid_cluster c \<longleftrightarrow> Nodes c \<noteq> [] \<and> distinct (map Node_ID (Nodes c)) \<and> distinct (addresses (Nodes c)) \<and>
     (\<forall>n \<in> set (Nodes c). Node_ID n \<noteq> [] \<and> RaftAddr n \<noteq> [] \<and> ClientAddr n \<noteq> [])"

lemma claimAddrs_ok:
  "isOk (claimAddrs nid as seen) \<longleftrightarrow> distinct as \<and> set as \<inter> dom seen = {}"
  by (induction as arbitrary: seen) (auto split: option.splits)

lemma claimAddrs_dom: "claimAddrs nid as seen = Inr seen' \<Longrightarrow> dom seen' = dom seen \<union> set as"
  by (induction as arbitrary: seen) (auto split: option.splits)

lemma validateNodes_ok:
  "validateNodes i ns ids seen = None \<longleftrightarrow>
     distinct (map Node_ID ns) \<and> Node_ID ` set ns \<inter> ids = {} \<and>
     distinct (addresses ns) \<and> set (addresses ns) \<inter> dom seen = {} \<and>
     (\<forall>n \<in> set ns. Node_ID n \<noteq> [] \<and> RaftAddr n \<noteq> [] \<and> ClientAddr n \<noteq> [])"
proof (induction ns arbitrary: i ids seen)
  case Nil
  then show ?case by (simp add: addresses_def)
next
  case (Cons n ns)
  let ?as = "[RaftAddr n, ClientAddr n]"
  have addr: "addresses (n # ns) = ?as @ addresses ns" by (simp add: addresses_def)
  show ?case
  proof (cases "claimAddrs (Node_ID n) ?as seen")
    case (Inl e)
    then have "\<not> (distinct ?as \<and> set ?as \<inter> dom seen = {})"
      using claimAddrs_ok [of "Node_ID n" ?as seen] by simp
    then have "\<not> (distinct (addresses (n # ns)) \<and> set (addresses (n # ns)) \<inter> dom seen = {})"
      unfolding addr by auto
    then show ?thesis using Inl by (auto simp del: claimAddrs.simps)
  next
    case (Inr seen')
    have "distinct ?as \<and> set ?as \<inter> dom seen = {}"
      using claimAddrs_ok [of "Node_ID n" ?as seen] Inr by simp
    moreover have "dom seen' = dom seen \<union> set ?as" by (rule claimAddrs_dom [OF Inr])
    ultimately have "distinct (addresses (n # ns)) \<and> set (addresses (n # ns)) \<inter> dom seen = {} \<longleftrightarrow>
        distinct (addresses ns) \<and> set (addresses ns) \<inter> dom seen' = {}"
      unfolding addr by auto
    then show ?thesis using Inr Cons by (auto simp del: claimAddrs.simps)
  qed
qed

lemma Validate_ok: "Validate c = None \<longleftrightarrow> valid_cluster c"
  by (simp add: Validate_def valid_cluster_def validateNodes_ok)

lemma findNode_found:
  "n \<in> set ns \<Longrightarrow> distinct (map Node_ID ns) \<Longrightarrow> findNode ns (Node_ID n) = (n, True)"
  by (induction ns) auto

lemma findNode_missing: "snd (findNode ns nid) = False \<longleftrightarrow> nid \<notin> Node_ID ` set ns"
  by (induction ns) auto

lemma length_others:
  assumes "distinct (map f ns)" and "x \<in> f ` set ns"
  shows "length (filter (\<lambda>n. f n \<noteq> x) ns) + 1 = length ns"
  using assms
proof (induction ns)
  case (Cons n ns)
  show ?case
  proof (cases "f n = x")
    case True
    then have "x \<notin> f ` set ns" using Cons(2) by simp
    then have "filter (\<lambda>n. f n \<noteq> x) ns = ns" by (auto intro: filter_True)
    then show ?thesis using True by simp
  qed (use Cons in auto)
qed simp

text \<open>
  A member of a valid cluster has all the others as peers, itself not among them, so a node
  built from them counts to the quorum of the configuration.
\<close>

lemma Peers_spec:
  assumes "valid_cluster c" and "nid \<in> Node_ID ` set (Nodes c)"
  obtains ps where "cluster_Peers c nid = Inr ps" and "distinct (map Node_ID ps)"
    and "Node_ID ` set ps = Node_ID ` set (Nodes c) - {nid}" and "length ps + 1 = length (Nodes c)"
proof -
  let ?ps = "filter (\<lambda>n. Node_ID n \<noteq> nid) (Nodes c)"
  have "cluster_Peers c nid = Inr ?ps" using assms(1) by (simp add: cluster_Peers_def valid_cluster_def)
  moreover have "distinct (map Node_ID ?ps)" using assms(1) by (simp add: valid_cluster_def distinct_map_filter)
  moreover have "Node_ID ` set ?ps = Node_ID ` set (Nodes c) - {nid}" by auto
  moreover have "length ?ps + 1 = length (Nodes c)"
    using length_others [of Node_ID "Nodes c" nid] assms by (simp add: valid_cluster_def)
  ultimately show thesis by (rule that)
qed

end
