(* ===== verification/Raftd.thy ===== *)
theory Raftd
  imports Rpc Cluster_Config Kv Storage Raft_Election Raft_Applier
begin

text \<open>
  The daemon \<^verbatim>\<open>cmd/raftd/main.go\<close>: from the configuration file and the data directory to a
  running node with its key-value server. The network is a parameter: \<open>dial\<close> makes the client of
  an address, \<open>listen\<close> says whether an address can be listened on. Flags are arguments, and so is
  the moment of the signal that ends it.
\<close>

datatype daemon_error =
    IDFlagRequired
  | ConfigFailed config_error
  | NodeNotFound string
  | PeersFailed config_panic
  | StoreFailed err
  | TransportFailed "node_id \<times> string \<times> err"
  | NodeFailed new_error
  | MachineFailed panic
  | ListenFailed string
  | StartFailed start_error

record Daemon =
  dm_applier :: "(Disk, KvServer) Applier"
  dm_clients :: Transport_clients

definition daemonConfig :: "string \<Rightarrow> string list \<Rightarrow> nat \<Rightarrow> Disk Config" where
  "daemonConfig selfID peerIDs threshold =
     \<lparr>ID = selfID, Peers = peerIDs, Store = Some fileStateStore, LogStore = Some fileLogStore,
      SnapshotStore = Some fileSnapshotStore, SnapshotThreshold = threshold, Transport = True,
      ElectionTimeoutMin = 0, ElectionTimeoutMax = 0, HeartbeatInterval = 0, RPCTimeout = 0\<rparr>"

definition addrBook :: "(Node \<Rightarrow> string) \<Rightarrow> Node list \<Rightarrow> (string \<rightharpoonup> string)" where
  "addrBook addr ns = fold (\<lambda>n m. m(Node_ID n \<mapsto> addr n)) ns Map.empty"

text \<open>From the open store on: the node is recovered, wired and started.\<close>

definition bootNode ::
  "Clock \<Rightarrow> (string \<Rightarrow> bool) \<Rightarrow> nat \<Rightarrow> Cluster \<Rightarrow> Node \<Rightarrow> Node list \<Rightarrow> Transport_clients \<Rightarrow> Disk
   \<Rightarrow> Disk \<times> (daemon_error + Daemon)" where
  "bootNode clk listen threshold cl self ps clients d =
     (case NewNode (daemonConfig (Node_ID self) (map Node_ID ps) threshold) d of
        (d, Inl e) \<Rightarrow> (d, Inl (NodeFailed e))
      | (d, Inr rn) \<Rightarrow>
          (let server = NewServer NewStore (addrBook ClientAddr (Nodes cl)) in
           case SetStateMachine rn of
             Inl (p, d) \<Rightarrow> (d, Inl (MachineFailed p))
           | Inr rn \<Rightarrow>
               if \<not> listen (RaftAddr self) then (d, Inl (ListenFailed (RaftAddr self)))
               else if \<not> listen (ClientAddr self) then (d, Inl (ListenFailed (ClientAddr self)))
               else (case Start clk kvOps server rn of
                       (server, Inl e) \<Rightarrow> (d, Inl (StartFailed e))
                     | (server, Inr rn) \<Rightarrow>
                         (d, Inr \<lparr>dm_applier = \<lparr>apc = AtLoop, machine = server, anode = rn\<rparr>,
                                  dm_clients = clients\<rparr>))))"

definition raftd_main ::
  "(string \<Rightarrow> err + RaftClient) \<Rightarrow> (string \<Rightarrow> bool) \<Rightarrow> Clock \<Rightarrow> string \<Rightarrow> nat \<Rightarrow> err + bytes \<Rightarrow> FS
   \<Rightarrow> FS \<times> (daemon_error + Daemon)" where
  "raftd_main dial listen clk nodeID threshold file f =
     (if nodeID = [] then (f, Inl IDFlagRequired)
      else case Load file of
        Inl e \<Rightarrow> (f, Inl (ConfigFailed e))
      | Inr cl \<Rightarrow>
          (case cluster_Node cl nodeID of
             (_, False) \<Rightarrow> (f, Inl (NodeNotFound nodeID))
           | (self, True) \<Rightarrow>
               (case cluster_Peers cl (Node_ID self) of
                  Inl p \<Rightarrow> (f, Inl (PeersFailed p))
                | Inr ps \<Rightarrow>
                    (case NewFileStore f of
                       (f, Inl e) \<Rightarrow> (f, Inl (StoreFailed e))
                     | (f, Inr d) \<Rightarrow>
                         (case NewTransport dial (map (\<lambda>p. (Node_ID p, RaftAddr p)) ps) Map.empty of
                            Inl e \<Rightarrow> (fs d, Inl (TransportFailed e))
                          | Inr clients \<Rightarrow>
                              (case bootNode clk listen threshold cl self ps clients d of
                                 (d, r) \<Rightarrow> (fs d, r)))))))"

text \<open>After the signal: the node is stopped; the servers then only wait for requests in progress.\<close>

definition raftd_shutdown :: "Daemon \<Rightarrow> Daemon" where
  "raftd_shutdown dm =
     dm\<lparr>dm_applier := (dm_applier dm)\<lparr>anode := Stop (anode (dm_applier dm))\<rparr>\<rparr>"

section \<open>What a running daemon is\<close>

text \<open>
  A daemon that was shut down answers requests in progress without changing anything, grants no
  vote, and its applier ends when it comes back to the head of its loop.
\<close>

lemma shutdown_inert:
  fixes dm :: Daemon
  defines "rn \<equiv> anode (dm_applier (raftd_shutdown dm))"
  shows "HandleRequestVote clk va rn = Inr (\<lparr>rvr_Term = currentTerm rn, rvr_VoteGranted = False\<rparr>, rn)"
    and "\<exists>reply. HandleAppendEntries clk aa rn = Inr (reply, rn) \<and> \<not> aer_Success reply"
    and "HandleInstallSnapshot clk sa rn = Inr (\<lparr>isr_Term = currentTerm rn\<rparr>, rn)"
    and "handleVoteReply clk t vr rn = Inr rn"
    and "applierLoop rn = Inr (Exited, rn)"
proof -
  have s: "stopped rn" by (simp add: rn_def raftd_shutdown_def Stop_def)
  show "HandleRequestVote clk va rn = Inr (\<lparr>rvr_Term = currentTerm rn, rvr_VoteGranted = False\<rparr>, rn)"
    "\<exists>reply. HandleAppendEntries clk aa rn = Inr (reply, rn) \<and> \<not> aer_Success reply"
    "HandleInstallSnapshot clk sa rn = Inr (\<lparr>isr_Term = currentTerm rn\<rparr>, rn)"
    "handleVoteReply clk t vr rn = Inr rn" "applierLoop rn = Inr (Exited, rn)"
    using s by (simp_all add: HandleRequestVote_def HandleAppendEntries_def HandleInstallSnapshot_def handleVoteReply_def
        applierLoop_def rejectAppend_def)
qed


lemma freshNode_frame:
  "bind_res (recoverHardState st (freshNode c d)) recoverSnapshot = Inr rn \<Longrightarrow>
   cfg rn = c \<and> node_id rn = ID c \<and> peers rn = Config.Peers c \<and> state rn = Follower \<and> started rn = False \<and>
   votes rn = (\<lambda>_. 0) \<and> voteCalls rn = [] \<and> replicators rn = [] \<and> stopped rn = False \<and> disk rn = d"
  by (auto simp: recoverHardState_def recoverSnapshot_def freshNode_def bind_res_Inr_iff
      split: sum.splits option.splits)

lemma NewNode_frame:
  assumes "NewNode c d = (d', Inr rn)"
  shows "cfg rn = withDefaults c \<and> node_id rn = ID c \<and> peers rn = Config.Peers c \<and> state rn = Follower \<and>
    started rn = False \<and> votes rn = (\<lambda>_. 0) \<and> voteCalls rn = [] \<and> replicators rn = [] \<and> stopped rn = False \<and>
    disk rn = d'"
proof -
  obtain st where st: "Store c = Some st" using assms by (auto simp: NewNode_def split: if_splits option.splits)
  obtain r where r: "bind_res (recoverHardState st (freshNode (withDefaults c) d)) recoverSnapshot = Inr r"
      "recoverLog r = (d', Inr rn)"
    using assms st by (auto simp: NewNode_def Let_def split: if_splits sum.splits)
  have "rn = r \<and> d' = disk r \<or> (\<exists>l. rn = r\<lparr>disk := d', log := l\<rparr>)"
    using r(2) by (auto simp: recoverLog_def Let_def bind_res_Inr_iff split: option.splits prod.splits sum.splits)
  then show ?thesis
    using freshNode_frame [OF r(1)] by (auto simp: withDefaults_def)
qed

lemma Start_frame:
  assumes "Start clk ops sm rn = (sm', Inr rn')"
  shows "cfg rn' = cfg rn \<and> node_id rn' = node_id rn \<and> peers rn' = peers rn \<and> state rn' = state rn \<and>
    currentTerm rn' = currentTerm rn \<and> votedFor rn' = votedFor rn \<and> log rn' = log rn \<and>
    commitIndex rn' = commitIndex rn \<and> lastApplied rn' = lastApplied rn \<and> votes rn' = votes rn \<and>
    voteCalls rn' = voteCalls rn \<and> replicators rn' = replicators rn \<and> stopped rn' = stopped rn \<and>
    disk rn' = disk rn \<and> stateMachine rn' = stateMachine rn \<and> pendingSnapshot rn' = pendingSnapshot rn \<and> started rn'"
  using assms
  by (auto simp: Start_def resetElectionTimerLocked_def Let_def split: if_splits option.splits prod.splits)

lemma bootNode_running:
  assumes "bootNode clk listen th cl self ps clients d = (d', Inr dm)"
  shows "\<exists>rn. NewNode (daemonConfig (Node_ID self) (map Node_ID ps) th) d = (d', Inr rn) \<and>
    dm_clients dm = clients \<and> apc (dm_applier dm) = AtLoop \<and>
    Start clk kvOps (NewServer NewStore (addrBook ClientAddr (Nodes cl))) (rn\<lparr>stateMachine := True\<rparr>) =
      (machine (dm_applier dm), Inr (anode (dm_applier dm)))"
proof -
  obtain rn where rn: "NewNode (daemonConfig (Node_ID self) (map Node_ID ps) th) d = (d', Inr rn)"
    using assms by (auto simp: bootNode_def Let_def SetStateMachine_def split: prod.splits sum.splits if_splits)
  have "SetStateMachine rn = Inr (rn\<lparr>stateMachine := True\<rparr>)"
    using NewNode_frame [OF rn] by (simp add: SetStateMachine_def)
  then show ?thesis
    using assms rn by (auto simp: bootNode_def Let_def split: prod.splits sum.splits if_splits)
qed

lemma addrBook_lookup:
  assumes "distinct (map Node_ID ns)" and "n \<in> set ns"
  shows "addrBook addr ns (Node_ID n) = Some (addr n)"
proof -
  have keep: "fold (\<lambda>n m. m(Node_ID n \<mapsto> addr n)) ns m k = m k" if "k \<notin> Node_ID ` set ns" for ns m k
    using that by (induction ns arbitrary: m) auto
  have "fold (\<lambda>n m. m(Node_ID n \<mapsto> addr n)) ns m (Node_ID n) = Some (addr n)" for m
    using assms
  proof (induction ns arbitrary: m)
    case (Cons x ns)
    then show ?case using keep [of "Node_ID n" ns] by (cases "x = n") (auto simp: fun_upd_def)
  qed simp
  then show ?thesis by (simp add: addrBook_def)
qed

end
