(* ===== verification/Raft_Durable.thy ===== *)
theory Raft_Durable
  imports Raft_Stores Storage_Disk Raftd
begin

text \<open>
  The file store under the contract of \<open>Raft_Stores\<close>: a daemon's vote and term survive whatever
  happens to its process, its calls and its power. The interpretation is on the configuration
  \<open>raftd\<close> builds; opening a store and recovering a node from it are added here.
\<close>

section \<open>Hard states on the disk\<close>

text \<open>What loading makes of the bytes of the hard state file.\<close>

definition decodes :: "bytes option \<Rightarrow> HardState option \<Rightarrow> bool" where
  "decodes b h \<longleftrightarrow> (case b of None \<Rightarrow> h = None | Some x \<Rightarrow> h \<noteq> None \<and> unmarshalHardState x = h)"

definition could_load :: "FS \<Rightarrow> HardState option \<Rightarrow> bool" where
  "could_load f h \<longleftrightarrow> (\<exists>b. could_read f hardStateFile b \<and> decodes b h)"

lemma unmarshalHardState_wf: "unmarshalHardState b = Some hs \<Longrightarrow> wf_hard_state hs"
  unfolding unmarshalHardState_def
  by (erule unmarshal_keeps)
    (auto simp: wf_hard_state_def updHardState_def Let_def split: if_splits dest: dec_string_valid dec_uint_bound)

lemma could_load_mono:
  assumes "could_load f' h" and "\<And>b. could_read f' hardStateFile b \<Longrightarrow> could_read f hardStateFile b"
  shows "could_load f h"
  using assms by (auto simp: could_load_def)

lemma preserves_could_load:
  "preserves ns d d' \<Longrightarrow> hardStateFile \<notin> ns \<Longrightarrow> could_load (fs d') h \<Longrightarrow> could_load (fs d) h"
  by (erule could_load_mono) (simp add: preserves_def)

lemma save_could_load:
  assumes wf: "wf_disk d" and hs: "wf_hard_state hs" and s: "FS_SaveHardState hs d = (d', e)" and c: "could_load (fs d') h"
  shows "could_load (fs d) h \<or> h = Some hs" and "e = None \<Longrightarrow> h = Some hs"
proof -
  have w: "write_result (fs d) hardStateFile (marshalHardState hs) (fs d', e)"
    using s atomicWrite_result [of "fs d" hardStateFile "marshalHardState hs"] wf
    by (auto simp: FS_SaveHardState_def wf_disk_def tempName_eq split: prod.splits)
  have cl: "clean_fs (fs d)" using wf by (simp add: wf_disk_def)
  obtain b where b: "could_read (fs d') hardStateFile b" "decodes b h" using c by (auto simp: could_load_def)
  have new: "b = Some (marshalHardState hs) \<Longrightarrow> h = Some hs"
    using b(2) hard_state_roundtrip [OF hs] by (simp add: decodes_def)
  show "could_load (fs d) h \<or> h = Some hs"
    using write_result_name(1) [OF w cl _ b(1)] new b(2) by (auto simp: could_load_def)
  show "e = None \<Longrightarrow> h = Some hs"
    using write_result_name(2) [OF w cl, of b] new b(1) by auto
qed

lemma load_could_load:
  assumes wf: "wf_disk d" and l: "FS_LoadHardState d = Inr h"
  shows "could_load (fs d) h \<and> wf_hard_state (hard_state h)"
proof -
  have "could_read (fs d) hardStateFile (content (fs d) hardStateFile)"
    using wf by (intro could_read_current) (simp add: wf_disk_def clean_fs_def)
  moreover have "decodes (content (fs d) hardStateFile) h"
    using l by (auto simp: FS_LoadHardState_def fs_read_def decodes_def split: option.splits sum.splits if_splits) metis
  moreover have "wf_hard_state (hard_state h)"
  proof (cases h)
    case None
    then show ?thesis by (simp add: hard_state_def wf_hard_state_def NoID_def)
  next
    case (Some x)
    then have "\<exists>b. unmarshalHardState b = Some x"
      using l by (auto simp: FS_LoadHardState_def split: option.splits sum.splits)
    then show ?thesis using unmarshalHardState_wf Some by (auto simp: hard_state_def)
  qed
  ultimately show ?thesis by (auto simp: could_load_def)
qed

abbreviation daemon_config :: "string \<Rightarrow> string list \<Rightarrow> nat \<Rightarrow> Disk Config" where
  "daemon_config i ps th \<equiv> withDefaults (daemonConfig i ps th)"

lemma daemon_config_stores:
  "Store (daemon_config i ps th) = Some fileStateStore"
  "LogStore (daemon_config i ps th) = Some fileLogStore"
  "SnapshotStore (daemon_config i ps th) = Some fileSnapshotStore"
  "LogStore (daemonConfig i ps th) = Some fileLogStore"
  "SnapshotStore (daemonConfig i ps th) = Some fileSnapshotStore"
  by (simp_all add: withDefaults_def daemonConfig_def)

text \<open>Another process on the same directory, after whatever ended the last one.\<close>

definition reopened :: "Disk \<Rightarrow> Disk \<Rightarrow> bool" where
  "reopened d d' \<longleftrightarrow> (\<exists>f f'. crashed (fs d) f \<and> NewFileStore f = (f', Inr d'))"

lemma reopened_ok:
  assumes "wf_disk d" and "reopened d d'"
  shows "wf_disk d' \<and> (could_load (fs d') h \<longrightarrow> could_load (fs d) h)"
proof -
  obtain f f' where c: "crashed (fs d) f" and n: "NewFileStore f = (f', Inr d')"
    using assms(2) by (auto simp: reopened_def)
  have cf: "clean_fs f" using crashed_clean [OF c] assms(1) by (simp add: wf_disk_def)
  have "could_read (fs d) hardStateFile b" if "could_read (fs d') hardStateFile b" for b
    using crashed_could_read [OF c] NewFileStore_ok(2) [OF cf n _ that] by simp
  then show ?thesis using NewFileStore_ok(1) [OF cf n] could_load_mono by blast
qed

lemma kept_by:
  "preserves ns d d' \<Longrightarrow> hardStateFile \<notin> ns \<Longrightarrow> wf_disk d' \<and> (could_load (fs d') h \<longrightarrow> could_load (fs d) h)"
  using preserves_wf preserves_could_load by blast

interpretation daemon: durable_votes "daemon_config i ps th" fileStateStore wf_disk "\<lambda>d. could_load (fs d)"
    wf_hard_state reopened for i ps th
proof unfold_locales
  show "Store (daemon_config i ps th) = Some fileStateStore" by (rule daemon_config_stores)
next
  fix d d' :: Disk and e hs
  assume "wf_disk d" "wf_hard_state hs" "SaveHardState fileStateStore hs d = (d', e)"
  then show "wf_disk d'" using SaveHardState_preserves preserves_wf by (fastforce simp: fileStateStore_def)
next
  fix d d' :: Disk and e h hs
  assume "wf_disk d" "wf_hard_state hs" "SaveHardState fileStateStore hs d = (d', e)" "could_load (fs d') h"
  then show "could_load (fs d) h \<or> h = Some hs" using save_could_load(1) by (simp add: fileStateStore_def)
next
  fix d d' :: Disk and h hs
  assume "wf_disk d" "wf_hard_state hs" "SaveHardState fileStateStore hs d = (d', None)" "could_load (fs d') h"
  then show "h = Some hs" using save_could_load(2) by (simp add: fileStateStore_def)
next
  fix d h
  assume "wf_disk d" "LoadHardState fileStateStore d = Inr h"
  then show "could_load (fs d) h \<and> wf_hard_state (hard_state h)" using load_could_load by (simp add: fileStateStore_def)
next
  fix d d' :: Disk and ls es e h
  assume "wf_disk d" "LogStore (daemon_config i ps th) = Some ls" "AppendEntries ls es d = (d', e)"
  then show "wf_disk d' \<and> (could_load (fs d') h \<longrightarrow> could_load (fs d) h)"
    using kept_by [OF AppendEntries_preserves] by (auto simp: daemon_config_stores fileLogStore_def)
next
  fix d d' :: Disk and ls n e h
  assume "wf_disk d" "LogStore (daemon_config i ps th) = Some ls" "TruncateSuffix ls n d = (d', e)"
  then show "wf_disk d' \<and> (could_load (fs d') h \<longrightarrow> could_load (fs d) h)"
    using kept_by [OF TruncateSuffix_preserves] by (auto simp: daemon_config_stores fileLogStore_def)
next
  fix d d' :: Disk and ls es e h
  assume "wf_disk d" "LogStore (daemon_config i ps th) = Some ls" "Compact ls es d = (d', e)"
  then show "wf_disk d' \<and> (could_load (fs d') h \<longrightarrow> could_load (fs d) h)"
    using kept_by [OF Compact_preserves] by (auto simp: daemon_config_stores fileLogStore_def)
next
  fix d d' :: Disk and ls r h
  assume "wf_disk d" "LogStore (daemon_config i ps th) = Some ls" "LoadEntries ls d = (d', r)"
  then show "wf_disk d' \<and> (could_load (fs d') h \<longrightarrow> could_load (fs d) h)"
    using kept_by [OF LoadEntries_preserves] by (auto simp: daemon_config_stores fileLogStore_def)
next
  fix d d' :: Disk and ss s e h
  assume "wf_disk d" "SnapshotStore (daemon_config i ps th) = Some ss" "SaveSnapshot ss s d = (d', e)"
  then show "wf_disk d' \<and> (could_load (fs d') h \<longrightarrow> could_load (fs d) h)"
    using kept_by [OF SaveSnapshot_preserves] by (auto simp: daemon_config_stores fileSnapshotStore_def)
next
  fix d d' h
  assume "wf_disk d" "reopened d d'"
  then show "wf_disk d' \<and> (could_load (fs d') h \<longrightarrow> could_load (fs d) h)" by (rule reopened_ok)
qed (simp_all add: wf_hard_state_def NoID_def)

end
