(* ===== verification/Storage_Properties.thy ===== *)
theory Storage_Properties
  imports Storage_Wal Raft_Durable "HOL-Library.Code_Target_Numeral"
begin

text \<open>
  Properties of package \<open>storage\<close>: the framing of records, the write-ahead log as a list of entries
  that survives failures and power cuts, the atomic files, the bounds on records, and the ways in
  which a log can lose what it was given.
\<close>

section \<open>Records\<close>

text \<open>
  C22: A framed record is read back and what follows it is left alone; a frame that is cut short at
  any byte, as an interrupted write leaves it, is never taken for a record.
\<close>

theorem record_framing:
  assumes "small_record r"
  shows "readRecord (frame r @ rest) = Some (r, rest) \<and>
    (\<forall>k < length (frame r). readRecord (take k (frame r)) = None)"
proof (intro conjI allI impI)
  show "readRecord (frame r @ rest) = Some (r, rest)" by (rule readRecord_frame [OF assms])
  fix k
  assume "k < length (frame r)"
  then have "take k (frame r) \<noteq> frame r" by (metis leD length_take min.cobounded2 nat_le_linear take_all_iff)
  then show "readRecord (take k (frame r)) = None"
    by (rule readRecord_torn [OF assms take_is_prefix])
qed

definition demoEntry :: LogEntry where
  "demoEntry = \<lparr>Term = 3, Index = 7, Command = ''set x''\<rparr>"

lemma demo_small: "small_record (appendRecord demoEntry)"
  by (rule small_append) (simp_all add: demoEntry_def u64_size_def)

theorem record_framing_witness:
  "readRecord (frame (appendRecord demoEntry) @ ''next'') = Some (appendRecord demoEntry, ''next'') \<and>
   readRecord (take 20 (frame (appendRecord demoEntry))) = None"
proof -
  have "20 < length (marshalRecord (appendRecord demoEntry))" by code_simp
  then have "20 < length (frame (appendRecord demoEntry))" by (simp add: frame_length)
  then show ?thesis using record_framing [OF demo_small, of "''next''"] by blast
qed

text \<open>
  C25: The size limit of \<open>LoadEntries\<close> in terms of commands. An entry whose command is at least 72
  bytes below 48 MiB is read back; one with a longer command than 48 MiB is written without an
  error but not read back, whatever follows it.
\<close>

theorem record_size_limit:
  assumes "Term e < u64_size" and "Index e < u64_size"
  shows "(length (Command e) \<le> 48 * 2 ^ 20 - 72 \<longrightarrow>
      readRecord (frame (appendRecord e) @ rest) = Some (appendRecord e, rest)) \<and>
    (48 * 2 ^ 20 < length (Command e) \<and> length (Command e) < 3 * 10 ^ 9 \<longrightarrow>
      readRecord (frame (appendRecord e) @ rest) = None)"
  using readRecord_frame [OF small_append [OF assms]] oversized_append [OF assms] by blast

definition hugeEntry :: LogEntry where
  "hugeEntry = \<lparr>Term = 3, Index = 7, Command = replicate (48 * 2 ^ 20 + 1) (CHR ''x'')\<rparr>"

lemma huge_entry:
  "Term hugeEntry < u64_size" "Index hugeEntry < u64_size" "length (Command hugeEntry) = 48 * 2 ^ 20 + 1"
  by (simp_all only: hugeEntry_def LogEntry.select_convs length_replicate) (simp_all add: u64_size_def)

theorem record_size_limit_witness:
  "readRecord (frame (appendRecord demoEntry)) = Some (appendRecord demoEntry, []) \<and>
   readRecord (frame (appendRecord hugeEntry)) = None"
  using record_size_limit [of demoEntry "[]"] record_size_limit [of hugeEntry "[]"]
    huge_entry by (simp add: demoEntry_def u64_size_def)

lemma LoadHardState_wf: "FS_LoadHardState d = Inr (Some hs) \<Longrightarrow> wf_hard_state hs"
  by (auto simp: FS_LoadHardState_def split: sum.splits option.splits dest: unmarshalHardState_wf)

text \<open>A store with the given records in its log.\<close>

definition walDisk :: "walRecord list \<Rightarrow> (nat \<Rightarrow> nat option) \<Rightarrow> Disk" where
  "walDisk rs orc =
     \<lparr>fs = \<lparr>inodes = [0 \<mapsto> \<lparr>cur = image_of rs, stable = image_of rs\<rparr>], dir = [walFile \<mapsto> 0], ddir = [walFile \<mapsto> 0],
            fresh = 1, faults = orc, unreadable = (\<lambda>t. if orc t = None then {} else UNIV), ticks = 0\<rparr>,
      wal = Some (0, length (image_of rs))\<rparr>"

text \<open>The same directory, for a process that meets no fault.\<close>

definition calm :: "FS \<Rightarrow> FS" where
  "calm f = f\<lparr>faults := (\<lambda>_. None), unreadable := (\<lambda>_. {})\<rparr>"

lemma calm_restart: "crashed f (calm f)" "faultless (calm f)"
  by (simp_all add: calm_def crashed_def same_files_def faultless_def)

lemma walDisk_holds:
  assumes "\<forall>r \<in> set rs. small_record r" and "replay_records rs [] = Inr l"
  shows "holds_log (walDisk rs orc) l"
proof -
  have "clean_fs (fs (walDisk rs orc))"
    by (auto simp: clean_fs_def wf_fs_def entries_of_def walDisk_def split: if_splits)
  then have "wf_disk (walDisk rs orc)"
    by (auto simp: wf_disk_def walDisk_def entries_of_def split: if_splits)
  moreover have "holds_image (walDisk rs orc) 0 rs []"
    using assms(1) by (simp add: holds_image_def walDisk_def readRecord_def)
  ultimately show ?thesis using assms(2) unfolding holds_log_def by blast
qed

lemma demo_replay: "replay_records [appendRecord demoEntry] [] = Inr [demoEntry]"
  using replay_append [of "[]" "[demoEntry]"] by (simp add: walNextIndex_def)

lemma demo_holds: "holds_log (walDisk [appendRecord demoEntry] orc) [demoEntry]"
  by (rule walDisk_holds) (simp_all only: demo_replay demo_small list.set ball_simps)

text \<open>
  C24: Whatever bytes the data directory holds and whichever reads fail, a node that \<open>raftd\<close>'s
  configuration recovers from it is well formed: its log has consecutive indices from the
  snapshot's on, its commit and apply indices are the snapshot's, its terms are 64-bit numbers and
  its vote is valid text. Decoding, the checks of the replay and the check of the recovery leave no
  other node. The one exception is a log that ends at the index \<open>2^64 - 1\<close>, after which no entry
  could be appended.
\<close>

theorem recovered_well_formed:
  assumes "NewNode (daemonConfig i ps th) d = (d', Inr rn)" and "log_last (log rn) + 1 < u64_size"
  shows "wf_node rn \<and> list_all (\<lambda>e. Term e < u64_size) (log rn) \<and>
    commitIndex rn = log_base (log rn) \<and> lastApplied rn = log_base (log rn) \<and> wf_hard_state (hs_of rn)"
proof -
  let ?c = "daemonConfig i ps th"
  have st: "Store ?c = Some fileStateStore" by (simp add: daemonConfig_def)
  have hs: "wf_hard_state (hard_state h)" if "LoadHardState fileStateStore d = Inr h" for h
    using that by (cases h)
      (auto simp: fileStateStore_def hard_state_def wf_hard_state_def NoID_def u64_size_def dest: LoadHardState_wf)
  have "wf_node rn \<and> list_all (\<lambda>e. Term e < u64_size) (log rn) \<and>
      commitIndex rn = log_base (log rn) \<and> lastApplied rn = log_base (log rn)"
  proof (rule NewNode_wf [OF assms(1) st _ _ _ assms(2)])
    show "CurrentTerm (hard_state h) < u64_size" if "LoadHardState fileStateStore d = Inr h" for h
      using hs [OF that] by (simp add: wf_hard_state_def)
    show "LastIncludedIndex s < u64_size \<and> LastIncludedTerm s < u64_size" if "load_snapshot ?c d = Inr (Some s)" for s
      using that LoadSnapshot_wf [of d s]
      by (simp add: load_snapshot_def daemonConfig_def fileSnapshotStore_def wf_snapshot_def)
    show "list_all (\<lambda>e. Term e < u64_size) l" if "load_entries ?c d = (d1, Inr l)" for d1 l
      using that LoadEntries_wf [of d d1 l]
      by (simp add: load_entries_def daemonConfig_def fileLogStore_def wf_replayed_def list_all_iff)
  qed
  moreover have "wf_hard_state (hs_of rn)"
    using assms(1) st by (rule NewNode_loads) (use hs in \<open>auto simp: hs_of_def wf_hard_state_def\<close>)
  ultimately show ?thesis by blast
qed

definition demoFirst :: LogEntry where
  "demoFirst = \<lparr>Term = 3, Index = 1, Command = ''set x''\<rparr>"

lemma demo_first:
  "small_record (appendRecord demoFirst)" "replay_records [appendRecord demoFirst] [] = Inr [demoFirst]"
  using replay_append [of "[]" "[demoFirst]"] small_append [of demoFirst]
  by (simp_all add: walNextIndex_def demoFirst_def u64_size_def)

lemma demo_first_recovered:
  "\<exists>d' rn. NewNode (daemonConfig ''n1'' [] 0) (walDisk [appendRecord demoFirst] (\<lambda>_. None)) = (d', Inr rn) \<and>
     tl (log rn) = [demoFirst]"
proof -
  let ?d = "walDisk [appendRecord demoFirst] (\<lambda>_. None)" and ?c = "daemonConfig ''n1'' [] 0"
  have "inodes (fs ?d) 0 = Some \<lparr>cur = image_of [appendRecord demoFirst], stable = image_of [appendRecord demoFirst]\<rparr>"
      "faultless (fs ?d)" "wal ?d = Some (0, length (image_of [appendRecord demoFirst]))"
    by (simp_all add: walDisk_def faultless_def)
  from LoadEntries_image [OF this(2,3,1) _ _ _ demo_first(2), of "[]"]
  obtain d' where es: "load_entries ?c ?d = (d', Inr [demoFirst])"
    using demo_first(1) by (auto simp: readRecord_def load_entries_def daemonConfig_def fileLogStore_def)
  have hs: "LoadHardState fileStateStore ?d = Inr None" and snap: "load_snapshot ?c ?d = Inr None"
    by (simp_all add: fileStateStore_def fileSnapshotStore_def load_snapshot_def daemonConfig_def FS_LoadHardState_def
        FS_LoadSnapshot_def fs_read_def content_def walDisk_def hardStateFile_def snapshotFile_def walFile_def)
  have ok: "contiguous_from (Index (boundary None) + 1) (live_entries None [demoFirst])"
      "live_entries None [demoFirst] = [demoFirst]"
    by (simp_all add: contiguous_from_def live_entries_def boundary_def demoFirst_def)
  have "NewNode ?c ?d = (d', Inr (recovered ?c None None [demoFirst] d'))"
    using NewNode_eq [of ?c fileStateStore ?d None None d' "[demoFirst]"] hs snap es ok
    by (simp add: daemonConfig_def timing_ok_def withDefaults_def Millisecond_def boundary_def u64_size_def)
  then show ?thesis using ok(2) by (auto simp: recovered_def)
qed

theorem recovered_well_formed_witness:
  "\<exists>d' rn. NewNode (daemonConfig ''n1'' [] 0) (walDisk [appendRecord demoFirst] (\<lambda>_. None)) = (d', Inr rn) \<and>
     log_last (log rn) = 1 \<and> wf_node rn \<and> wf_hard_state (hs_of rn)"
proof -
  obtain d' rn where n: "NewNode (daemonConfig ''n1'' [] 0) (walDisk [appendRecord demoFirst] (\<lambda>_. None)) = (d', Inr rn)"
      "tl (log rn) = [demoFirst]"
    using demo_first_recovered by blast
  have l: "log_last (log rn) = 1" using n(2) by (cases "log rn") (simp_all add: log_last_def demoFirst_def)
  then show ?thesis using recovered_well_formed [OF n(1)] n(1) by (simp add: u64_size_def)
qed

section \<open>The write-ahead log\<close>

text \<open>
  C3: The write-ahead log refines a list of entries. Starting from a store that holds a log, run any
  sequence of appends, truncations and compactions up to the first that fails, let the process
  die or the power go, and restart without further faults. If all succeeded the log recovered is
  exactly their effect, and the store holds it again; if one failed, it is the effect of those
  before it and a part of that one.
\<close>

theorem wal_refinement:
  assumes "holds_log d l" and "allAdmissible walAdmissible walEffect ops l"
    and "runOps walExec ops d = (d', e)" and "crashed (fs d') f" and "faultless f"
  shows "\<exists>d'' l'. reloaded f = Some (d'', Inr l') \<and>
    (if e = None then l' = fold walEffect ops l \<and> holds_log d'' l'
     else \<exists>k < length ops. l' \<in> walPartly (ops ! k) (fold walEffect (take k ops) l))"
proof (cases e)
  case None
  then have "holds_log d' (fold walEffect ops l)" using walog.run_ok [OF assms(1,2)] assms(3) by simp
  from holds_restart [OF this assms(4,5)] show ?thesis using None by auto
next
  case (Some x)
  then obtain k where k: "k < length ops" "recovers d' (walPartly (ops ! k) (fold walEffect (take k ops) l))"
    using walog.run_failed [OF assms(1,2)] assms(3) by blast
  then obtain d'' l' where "reloaded f = Some (d'', Inr l')" "l' \<in> walPartly (ops ! k) (fold walEffect (take k ops) l)"
    using assms(4,5) unfolding recovers_def by blast
  then show ?thesis using Some k(1) by auto
qed

text \<open>The fifth call, the write of the second append's record, fails after ten bytes.\<close>

definition fifthFails :: "nat \<Rightarrow> nat option" where
  "fifthFails t = (if t = 4 then Some 10 else None)"

definition demoNext :: LogEntry where
  "demoNext = \<lparr>Term = 3, Index = 8, Command = ''y''\<rparr>"

definition demoOps :: "walOp list" where
  "demoOps = [AppendOp [demoNext], TruncateOp 8, AppendOp [demoNext]]"

lemma demo_ops_admissible: "allAdmissible walAdmissible walEffect demoOps [demoEntry]"
proof -
  have "small_record (appendRecord demoNext)" by (rule small_append) (simp_all add: demoNext_def u64_size_def)
  then show ?thesis
    by (simp add: demoOps_def walAdmissible_def walEffect_def walNextIndex_def demoEntry_def demoNext_def u64_size_def
        u64_add_def dropTail_def)
qed

lemmas wal_run_defs = demoOps_def walExec_def fileLogStore_def FS_AppendEntries_def FS_TruncateSuffix_def
  writeRecord_def syncWAL_def fs_write_def fs_sync_def sys_def Let_def walDisk_def fifthFails_def put_bytes_def

lemma demo_ops_fail:
  "snd (runOps walExec demoOps (walDisk [appendRecord demoEntry] fifthFails)) = Some ''writing wal record''"
  by (simp add: wal_run_defs)

theorem wal_refinement_witness:
  "let d' = fst (runOps walExec demoOps (walDisk [appendRecord demoEntry] fifthFails)) in
   \<exists>d'' l'. reloaded (calm (fs d')) = Some (d'', Inr l') \<and>
     (\<exists>k < length demoOps. l' \<in> walPartly (demoOps ! k) (fold walEffect (take k demoOps) [demoEntry]))"
proof -
  let ?r = "runOps walExec demoOps (walDisk [appendRecord demoEntry] fifthFails)"
  let ?f = "calm (fs (fst ?r))"
  have "?r = (fst ?r, Some ''writing wal record'')" using demo_ops_fail by (metis prod.collapse)
  moreover have "crashed (fs (fst ?r)) ?f" by (rule calm_restart)
  moreover have "faultless ?f" by (rule calm_restart)
  ultimately show ?thesis
    using wal_refinement [OF demo_holds demo_ops_admissible, of fifthFails "fst ?r" "Some ''writing wal record''" ?f]
    by (simp add: Let_def)
qed

text \<open>
  C23: Loading the log ends, whatever the file holds and whichever calls fail, after a number of
  calls on the file that its length bounds: a record has at least nine bytes and costs two reads,
  the torn or corrupt one that ends the loop up to two more, however short it is, and the rest of
  the function makes three calls.
\<close>

theorem load_entries_bounded:
  assumes "wal d = Some (i, pos)" and "inodes (fs d) i = Some x"
  shows "\<exists>d' r. FS_LoadEntries d = (d', r) \<and> ticks (fs d') \<le> ticks (fs d) + 2 * (length (cur x) div 9) + 5"
  using LoadEntries_ticks [OF _ assms] by (cases "FS_LoadEntries d") blast

text \<open>A file with a header for five bytes that are not there.\<close>

definition tornDisk :: Disk where
  "tornDisk =
     \<lparr>fs = \<lparr>inodes = [0 \<mapsto> \<lparr>cur = le32 5 @ le32 0, stable = []\<rparr>], dir = [walFile \<mapsto> 0], ddir = [walFile \<mapsto> 0],
            fresh = 1, faults = (\<lambda>_. None), unreadable = (\<lambda>_. {}), ticks = 0\<rparr>, wal = Some (0, 0)\<rparr>"

theorem load_entries_bounded_witness:
  "\<exists>d' r. FS_LoadEntries tornDisk = (d', r) \<and> ticks (fs d') \<le> 5"
proof -
  have "length (le32 5 @ le32 0) = 8" by code_simp
  then show ?thesis using load_entries_bounded [of tornDisk 0 0] by (simp add: tornDisk_def)
qed

section \<open>The atomic files\<close>

lemma preserves_others:
  "preserves {n} d d' \<Longrightarrow> N \<subseteq> {hardStateFile, snapshotFile, walFile} - {n} \<Longrightarrow>
   \<forall>m \<in> N. \<forall>b. could_read (fs d') m b \<longrightarrow> could_read (fs d) m b"
  by (auto simp: preserves_def subset_iff)

text \<open>What a restart may load as its snapshot.\<close>

definition could_load_snapshot :: "FS \<Rightarrow> Snapshot option \<Rightarrow> bool" where
  "could_load_snapshot f h \<longleftrightarrow> (\<exists>b. could_read f snapshotFile b \<and>
     (case b of None \<Rightarrow> h = None | Some x \<Rightarrow> h \<noteq> None \<and> unmarshalSnapshot x = h))"

lemma save_could_read:
  assumes "wf_disk d" and "FS_SaveHardState hs d = (d', e)" and "could_read (fs d') hardStateFile b"
  shows "could_read (fs d) hardStateFile b \<or> b = Some (marshalHardState hs)"
proof -
  have w: "write_result (fs d) hardStateFile (marshalHardState hs) (fs d', e)"
    using assms(1,2) atomicWrite_result [of "fs d" hardStateFile "marshalHardState hs"]
    by (auto simp: FS_SaveHardState_def wf_disk_def tempName_eq split: prod.splits)
  have cl: "clean_fs (fs d)" using assms(1) by (simp add: wf_disk_def)
  show ?thesis using write_result_name(1) [OF w cl _ assms(3)] by auto
qed

lemma save_could_read_snapshot:
  assumes "wf_disk d" and "FS_SaveSnapshot s d = (d', e)" and "could_read (fs d') snapshotFile b"
  shows "could_read (fs d) snapshotFile b \<or> b = Some (marshalSnapshot s)"
proof -
  have w: "write_result (fs d) snapshotFile (marshalSnapshot s) (fs d', e)"
    using assms(1,2) atomicWrite_result [of "fs d" snapshotFile "marshalSnapshot s"]
    by (auto simp: FS_SaveSnapshot_def wf_disk_def tempName_eq split: prod.splits)
  have cl: "clean_fs (fs d)" using assms(1) by (simp add: wf_disk_def)
  show ?thesis using write_result_name(1) [OF w cl _ assms(3)] by auto
qed

lemma save_could_load_snapshot:
  assumes wf: "wf_disk d" and s: "wf_snapshot s" and r: "FS_SaveSnapshot s d = (d', e)"
    and c: "could_load_snapshot (fs d') h"
  shows "could_load_snapshot (fs d) h \<or> h = Some s" and "e = None \<Longrightarrow> h = Some s"
proof -
  have w: "write_result (fs d) snapshotFile (marshalSnapshot s) (fs d', e)"
    using r atomicWrite_result [of "fs d" snapshotFile "marshalSnapshot s"] wf
    by (auto simp: FS_SaveSnapshot_def wf_disk_def tempName_eq split: prod.splits)
  have cl: "clean_fs (fs d)" using wf by (simp add: wf_disk_def)
  obtain b where b: "could_read (fs d') snapshotFile b"
      "case b of None \<Rightarrow> h = None | Some x \<Rightarrow> h \<noteq> None \<and> unmarshalSnapshot x = h"
    using c by (auto simp: could_load_snapshot_def)
  have new: "b = Some (marshalSnapshot s) \<Longrightarrow> h = Some s" using b(2) snapshot_file_roundtrip [OF s] by simp
  show "could_load_snapshot (fs d) h \<or> h = Some s"
    using write_result_name(1) [OF w cl _ b(1)] new b(2) unfolding could_load_snapshot_def by auto
  show "e = None \<Longrightarrow> h = Some s"
    using write_result_name(2) [OF w cl, of b] new b(1) by auto
qed

lemma reopened_snapshot:
  assumes "wf_disk d" and "reopened d d'" and l: "FS_LoadSnapshot d' = Inr h"
  shows "could_load_snapshot (fs d) h"
proof -
  obtain f f' where c: "crashed (fs d) f" and n: "NewFileStore f = (f', Inr d')"
    using assms(2) by (auto simp: reopened_def)
  have cf: "clean_fs f" using crashed_clean [OF c] assms(1) by (simp add: wf_disk_def)
  have "could_read (fs d') snapshotFile (content (fs d') snapshotFile)"
    using NewFileStore_ok(1) [OF cf n] by (intro could_read_current) (simp add: wf_disk_def clean_fs_def)
  then have "could_read (fs d) snapshotFile (content (fs d') snapshotFile)"
    using crashed_could_read [OF c] NewFileStore_ok(2) [OF cf n] by simp
  moreover have "case content (fs d') snapshotFile of None \<Rightarrow> h = None | Some x \<Rightarrow> h \<noteq> None \<and> unmarshalSnapshot x = h"
    using l by (auto simp: FS_LoadSnapshot_def fs_read_def split: option.splits sum.splits if_splits) metis
  ultimately show ?thesis unfolding could_load_snapshot_def by blast
qed

text \<open>
  After a restart without faults the file is read and, if everything that could be read decodes,
  loaded.
\<close>

lemma restart_reads:
  assumes wf: "wf_disk d" and c: "crashed (fs d) f" and fl: "faultless f"
  obtains f' d' where "NewFileStore f = (f', Inr d')" "reopened d d'"
    "\<And>n. fs_read n (fs d') = Inr (content (fs d') n)"
    "\<And>n. n \<in> {hardStateFile, snapshotFile} \<Longrightarrow> could_read (fs d) n (content (fs d') n)"
proof -
  obtain f' i where n: "NewFileStore f = (f', Inr \<lparr>fs = f', wal = Some (i, 0)\<rparr>)" and fl': "faultless f'"
    using NewFileStore_faultless [OF fl] by blast
  have cf: "clean_fs f" using crashed_clean [OF c] wf by (simp add: wf_disk_def)
  note ok = NewFileStore_ok [OF cf n]
  have "could_read f' m (content f' m)" for m
    using ok(1) by (intro could_read_current) (simp add: wf_disk_def clean_fs_def)
  then have "could_read (fs d) m (content f' m)" if "m \<in> {hardStateFile, snapshotFile}" for m
    using crashed_could_read [OF c] ok(2) [OF that] by simp
  moreover have "fs_read m f' = Inr (content f' m)" for m
    using fl' by (simp add: fs_read_def faultless_def)
  moreover have "reopened d \<lparr>fs = f', wal = Some (i, 0)\<rparr>" using c n unfolding reopened_def by blast
  ultimately show thesis using that n by simp
qed

text \<open>
  C20: Saving the hard state is atomic and durable. Whatever call of the save fails, and however the
  process or the power ends afterwards, the next process to open the directory without a further
  fault does load a hard state: the new one, or, only if the save reported an error, one it could
  have loaded before. The file is never torn: it is enough that what could be read before the save
  decodes. The snapshot and the log are not touched.
\<close>

theorem hard_state_save_atomic:
  assumes wf: "wf_disk d" and hs: "wf_hard_state hs" and s: "FS_SaveHardState hs d = (d', e)"
    and old: "\<And>b. could_read (fs d) hardStateFile (Some b) \<Longrightarrow> unmarshalHardState b \<noteq> None"
    and c: "crashed (fs d') f" and fl: "faultless f"
  shows "(\<exists>f' d'' h. NewFileStore f = (f', Inr d'') \<and> FS_LoadHardState d'' = Inr h \<and>
      (h = Some hs \<or> e \<noteq> None \<and> could_load (fs d) h)) \<and>
    (\<forall>n \<in> {snapshotFile, walFile}. \<forall>b. could_read (fs d') n b \<longrightarrow> could_read (fs d) n b)"
proof
  have p: "preserves {hardStateFile} d d'" by (rule SaveHardState_preserves [OF wf s])
  note wf' = preserves_wf [OF p]
  show "\<exists>f' d'' h. NewFileStore f = (f', Inr d'') \<and> FS_LoadHardState d'' = Inr h \<and>
      (h = Some hs \<or> e \<noteq> None \<and> could_load (fs d) h)"
    using wf' c fl
  proof (rule restart_reads)
    fix f' d''
    assume n: "NewFileStore f = (f', Inr d'')" "reopened d' d''" "\<And>n. fs_read n (fs d'') = Inr (content (fs d'') n)"
      and rd: "\<And>n. n \<in> {hardStateFile, snapshotFile} \<Longrightarrow> could_read (fs d') n (content (fs d'') n)"
    have "unmarshalHardState b \<noteq> None" if "content (fs d'') hardStateFile = Some b" for b
      using save_could_read [OF wf s, of "Some b"] rd [of hardStateFile] that old [of b] hard_state_roundtrip [OF hs]
      by auto
    then obtain h where h: "FS_LoadHardState d'' = Inr h"
      using n(3) by (cases "content (fs d'') hardStateFile") (auto simp: FS_LoadHardState_def)
    have "could_load (fs d') h"
      using reopened_ok [OF wf' n(2), of h] load_could_load [OF _ h] by blast
    then have "h = Some hs \<or> e \<noteq> None \<and> could_load (fs d) h" using save_could_load [OF wf hs s] by blast
    then show ?thesis using n(1) h by blast
  qed
  show "\<forall>n \<in> {snapshotFile, walFile}. \<forall>b. could_read (fs d') n b \<longrightarrow> could_read (fs d) n b"
    using p by (rule preserves_others) auto
qed

text \<open>The calls of a save: the third one, the sync of the temporary file, fails.\<close>

definition syncFails :: "nat \<Rightarrow> nat option" where
  "syncFails t = (if t = 2 then Some 0 else None)"

definition demoHS :: HardState where
  "demoHS = \<lparr>CurrentTerm = 4, VotedFor = ''n2''\<rparr>"

lemma demo_store: "wf_disk (walDisk [] orc)"
  using walDisk_holds [of "[]" "[]"] by (simp add: holds_log_def)

lemma demo_store_empty:
  "\<not> could_read (fs (walDisk [] orc)) hardStateFile (Some b)" "\<not> could_read (fs (walDisk [] orc)) snapshotFile (Some b)"
  by (simp_all add: could_read_def could_find_def walDisk_def hardStateFile_def snapshotFile_def walFile_def)

theorem hard_state_save_atomic_witness:
  "let d = walDisk [] syncFails; r = FS_SaveHardState demoHS d in
   snd r = Some ''syncing temp file'' \<and>
   (\<exists>f' d'' h. NewFileStore (calm (fs (fst r))) = (f', Inr d'') \<and> FS_LoadHardState d'' = Inr h \<and>
      (h = Some demoHS \<or> could_load (fs d) h))"
proof -
  let ?d = "walDisk [] syncFails"
  let ?r = "FS_SaveHardState demoHS ?d"
  have e: "snd ?r = Some ''syncing temp file''" by code_simp
  have hs: "wf_hard_state demoHS" by (simp add: wf_hard_state_def demoHS_def u64_size_def valid_utf8_ascii)
  have "?r = (fst ?r, snd ?r)" by simp
  from hard_state_save_atomic [OF demo_store hs this _ calm_restart] show ?thesis
    using e demo_store_empty(1) unfolding Let_def by blast
qed

text \<open>
  C21: Saving a snapshot is atomic and durable in the same way: the next process to open the
  directory without a further fault loads the new snapshot or, only if the save reported an error,
  one it could have loaded before, provided what could be read before decodes; the hard state and
  the log are not touched.
\<close>

theorem snapshot_save_atomic:
  assumes wf: "wf_disk d" and ws: "wf_snapshot s" and s: "FS_SaveSnapshot s d = (d', e)"
    and old: "\<And>b. could_read (fs d) snapshotFile (Some b) \<Longrightarrow> unmarshalSnapshot b \<noteq> None"
    and c: "crashed (fs d') f" and fl: "faultless f"
  shows "(\<exists>f' d'' h. NewFileStore f = (f', Inr d'') \<and> FS_LoadSnapshot d'' = Inr h \<and>
      (h = Some s \<or> e \<noteq> None \<and> could_load_snapshot (fs d) h)) \<and>
    (\<forall>n \<in> {hardStateFile, walFile}. \<forall>b. could_read (fs d') n b \<longrightarrow> could_read (fs d) n b)"
proof
  have p: "preserves {snapshotFile} d d'" by (rule SaveSnapshot_preserves [OF wf s])
  note wf' = preserves_wf [OF p]
  show "\<exists>f' d'' h. NewFileStore f = (f', Inr d'') \<and> FS_LoadSnapshot d'' = Inr h \<and>
      (h = Some s \<or> e \<noteq> None \<and> could_load_snapshot (fs d) h)"
    using wf' c fl
  proof (rule restart_reads)
    fix f' d''
    assume n: "NewFileStore f = (f', Inr d'')" "reopened d' d''" "\<And>n. fs_read n (fs d'') = Inr (content (fs d'') n)"
      and rd: "\<And>n. n \<in> {hardStateFile, snapshotFile} \<Longrightarrow> could_read (fs d') n (content (fs d'') n)"
    have "unmarshalSnapshot b \<noteq> None" if "content (fs d'') snapshotFile = Some b" for b
      using save_could_read_snapshot [OF wf s, of "Some b"] rd [of snapshotFile] that old [of b]
        snapshot_file_roundtrip [OF ws] by auto
    then obtain h where h: "FS_LoadSnapshot d'' = Inr h"
      using n(3) by (cases "content (fs d'') snapshotFile") (auto simp: FS_LoadSnapshot_def)
    have "could_load_snapshot (fs d') h" by (rule reopened_snapshot [OF wf' n(2) h])
    then have "h = Some s \<or> e \<noteq> None \<and> could_load_snapshot (fs d) h"
      using save_could_load_snapshot [OF wf ws s] by blast
    then show ?thesis using n(1) h by blast
  qed
  show "\<forall>n \<in> {hardStateFile, walFile}. \<forall>b. could_read (fs d') n b \<longrightarrow> could_read (fs d) n b"
    using p by (rule preserves_others) auto
qed

definition demoSnapshot :: Snapshot where
  "demoSnapshot = \<lparr>LastIncludedIndex = 9, LastIncludedTerm = 3, Data = ''{}''\<rparr>"

theorem snapshot_save_atomic_witness:
  "let d = walDisk [] (\<lambda>_. None); r = FS_SaveSnapshot demoSnapshot d in
   snd r = None \<and> (\<exists>f' d''. NewFileStore (calm (fs (fst r))) = (f', Inr d'') \<and>
     FS_LoadSnapshot d'' = Inr (Some demoSnapshot))"
proof -
  let ?d = "walDisk [] (\<lambda>_. None)"
  let ?r = "FS_SaveSnapshot demoSnapshot ?d"
  have e: "snd ?r = None" by code_simp
  have s: "wf_snapshot demoSnapshot" by (simp add: wf_snapshot_def demoSnapshot_def u64_size_def)
  have "?r = (fst ?r, snd ?r)" by simp
  from snapshot_save_atomic [OF demo_store s this _ calm_restart] show ?thesis
    using e demo_store_empty(2) unfolding Let_def by blast
qed

section \<open>What the log can lose\<close>

text \<open>
  C37: \<open>writeRecord\<close> has no size check. An append of an entry with a command of more than 48 MiB
  succeeds and is synced, and yet every restart drops that entry and all that follow it.
\<close>

theorem oversized_entry_lost:
  assumes "holds_log d l" and "Term e < u64_size" and "Index e < u64_size"
    and "48 * 2 ^ 20 < length (Command e)" and "length (Command e) < 3 * 10 ^ 9"
    and "FS_AppendEntries (e # es) d = (d', None)" and "crashed (fs d') f" and "faultless f"
  shows "\<exists>d''. reloaded f = Some (d'', Inr l)"
proof -
  obtain i rs p where a: "appending d i (image_of rs) (image_of rs @ p)" "wal d = Some (i, length (image_of rs))"
      and rs: "\<forall>r \<in> set rs. small_record r" "replay_records rs [] = Inr l" and wf: "wf_disk d"
    using assms(1) by (rule holds_appending)
  let ?b = "image_of rs @ image_of (map appendRecord (e # es))"
  have "appending d' i ?b ?b" using append_synced [OF assms(6) _ a] by blast
  moreover have "readRecord (image_of (map appendRecord (e # es))) = None"
    using oversized_append [OF assms(2-5)] by simp
  then have "reads_as ?b l" using rs unfolding reads_as_def by blast
  ultimately have "recovers d' {l}"
    using synced_recovers preserves_wf [OF AppendEntries_preserves [OF wf assms(6)]] by blast
  then show ?thesis using assms(7,8) unfolding recovers_def by blast
qed

theorem oversized_entry_lost_witness:
  "let r = FS_AppendEntries [hugeEntry] (walDisk [] (\<lambda>_. None)) in
   snd r = None \<and> (\<exists>d''. reloaded (calm (fs (fst r))) = Some (d'', Inr []))"
proof -
  let ?r = "FS_AppendEntries [hugeEntry] (walDisk [] (\<lambda>_. None))"
  let ?f = "calm (fs (fst ?r))"
  have e: "snd ?r = None" by (simp add: wal_run_defs)
  then have r: "?r = (fst ?r, None)" by (metis prod.collapse)
  have h: "holds_log (walDisk [] (\<lambda>_. None)) []" by (rule walDisk_holds) simp_all
  have "crashed (fs (fst ?r)) ?f" "faultless ?f" by (rule calm_restart)+
  from oversized_entry_lost [OF h huge_entry(1,2) _ _ r this] show ?thesis
    using e huge_entry(3) by (simp add: Let_def)
qed

text \<open>
  C38: \<open>LoadEntries\<close> takes a read that fails for the end of the log and truncates the file there. If
  the first read of a restart fails and nothing else does, the log comes back empty, and the
  next append that succeeds replaces the durable log by what it appends.
\<close>

theorem read_error_loses_log:
  assumes "holds_log d l" and "faults (fs d) = (\<lambda>t. if t = Suc (ticks (fs d)) then Some k else None)"
    and "FS_LoadEntries d = (d1, r)" and "es \<noteq> []" and "walAdmissible (AppendOp es) []"
    and "FS_AppendEntries es d1 = (d2, e)"
  shows "r = Inr [] \<and> (e = None \<longrightarrow> holds_log d2 es)"
proof -
  obtain i rs p where a: "appending d i (image_of rs) (image_of rs @ p)" "wal d = Some (i, length (image_of rs))"
      and wf: "wf_disk d"
    using assms(1) by (rule holds_appending)
  have d1: "appending d1 i [] (image_of rs @ p)" "wal d1 = Some (i, length ([] :: bytes))" "r = Inr []"
    using assms(3) a by (auto simp: FS_LoadEntries_def fs_noop_def fs_truncate_def sys_def Let_def assms(2)
        replayLoop.simps appending_def)
  have wf2: "wf_disk d2"
    using wf assms(3,6) preserves_wf [OF AppendEntries_preserves] preserves_wf [OF LoadEntries_preserves] by metis
  have "holds_log d2 es" if "e = None"
  proof -
    have "appending d2 i (image_of (map appendRecord es)) (image_of (map appendRecord es)) \<and>
        wal d2 = Some (i, length (image_of (map appendRecord es)))"
      using append_synced [OF _ assms(4) d1(1,2)] assms(6) that by simp
    then have "holds_image d2 i (map appendRecord es) []"
      using assms(5) by (auto simp: holds_image_def appending_def walAdmissible_def readRecord_def)
    then show ?thesis
      using wf2 replay_append [of "[]" es] assms(5) unfolding holds_log_def by (auto simp: walAdmissible_def)
  qed
  then show ?thesis using d1(3) by blast
qed

definition readFails :: "nat \<Rightarrow> nat option" where
  "readFails t = (if t = 1 then Some 0 else None)"

theorem read_error_loses_log_witness:
  "let d = walDisk [appendRecord demoEntry] readFails; r = FS_LoadEntries d; r2 = FS_AppendEntries [demoNext] (fst r) in
   holds_log d [demoEntry] \<and> snd r = Inr [] \<and> holds_log (fst r2) [demoNext]"
proof -
  let ?d = "walDisk [appendRecord demoEntry] readFails"
  let ?r = "FS_LoadEntries ?d"
  let ?r2 = "FS_AppendEntries [demoNext] (fst ?r)"
  have o: "faults (fs ?d) = (\<lambda>t. if t = Suc (ticks (fs ?d)) then Some 0 else None)"
    by (simp add: walDisk_def readFails_def fun_eq_iff)
  have a: "walAdmissible (AppendOp [demoNext]) []"
    using small_append [of demoNext] by (simp add: walAdmissible_def walNextIndex_def demoNext_def u64_size_def)
  have e: "snd ?r2 = None"
    by (simp add: wal_run_defs FS_LoadEntries_def fs_noop_def fs_truncate_def replayLoop.simps readFails_def)
  have "?r = (fst ?r, snd ?r)" "?r2 = (fst ?r2, snd ?r2)" by simp_all
  from read_error_loses_log [OF demo_holds o this(1) _ a this(2)] show ?thesis
    using e demo_holds by (simp add: Let_def)
qed

text \<open>
  C39: \<open>openWAL\<close> creates the log file but does not sync the directory. Entries appended to a log in
  a new directory can be lost after they were synced: a power cut may leave no log file at all,
  and then a restart finds an empty log.
\<close>

theorem new_log_unlinked:
  assumes "NewFileStore (emptyFS orc) = (f, Inr d)" and "FS_AppendEntries es d = (d', None)"
  shows "\<exists>f'. power_loss (fs d') f' \<and> content f' walFile = None"
proof -
  have "ddir (fs d) = Map.empty"
    using assms(1) by (auto simp: NewFileStore_def fs_noop_def fs_open_def sys_def Let_def emptyFS_def add_file_def
        split: option.splits if_splits)
  then have "content (only_synced (fs d')) walFile = None"
    using AppendEntries_ddir [OF assms(2)] by (simp add: content_def only_synced_def)
  then show ?thesis using only_synced_loss by blast
qed

theorem new_log_unlinked_witness:
  "let d = projr (snd (NewFileStore (emptyFS (\<lambda>_. None)))); r = FS_AppendEntries [demoEntry] d in
   snd r = None \<and> (\<exists>f'. power_loss (fs (fst r)) f' \<and> content f' walFile = None)"
proof -
  let ?f = "NewFileStore (emptyFS (\<lambda>_. None))"
  let ?r = "FS_AppendEntries [demoEntry] (projr (snd ?f))"
  have "isOk (snd ?f)" by code_simp
  then have f: "?f = (fst ?f, Inr (projr (snd ?f)))" by (cases ?f) (auto simp: isOk_iff)
  have e: "snd ?r = None"
    by (simp add: wal_run_defs NewFileStore_def fs_noop_def fs_open_def emptyFS_def add_file_def)
  then have "?r = (fst ?r, None)" by (metis prod.collapse)
  from new_log_unlinked [OF f this] show ?thesis using e by (simp add: Let_def)
qed

end
