(* ===== verification/Raftctl.thy ===== *)
theory Raftctl
  imports Kv Cluster_Config
begin

text \<open>
  The command line client \<^verbatim>\<open>cmd/raftctl/main.go\<close>: the dispatch of a command, the loop that
  follows redirects and rotates over the nodes, the rows of the status table, and the exit
  status. The network is an input: one \<open>attempt\<close> per iteration says how dialling and calling
  each address would end, and the context is done when the attempts are used up. What goes to
  the error output is left out.
\<close>

section \<open>The client\<close>

record ctl_client =
  ct_cluster :: Cluster
  ct_conns :: "string set"
  ct_leader :: string
  ct_rr :: int

record 'r attempt =
  at_dial :: "string \<Rightarrow> err option"
  at_call :: "string \<Rightarrow> err + 'r"

datatype ctl_panic = DivideByZero | NodesIndex

datatype ctl_error = CallError err | NoLeaderYet | DeadlineExceeded

text \<open>Go's \<open>int\<close> increment and remainder; the sign of the remainder is the dividend's.\<close>

definition int64_inc :: "int \<Rightarrow> int" where
  "int64_inc i = (if i = 2 ^ 63 - 1 then - (2 ^ 63) else i + 1)"

definition go_rem :: "int \<Rightarrow> int \<Rightarrow> int" where
  "go_rem a b = (if a \<ge> 0 then a mod b else - ((- a) mod b))"

definition nextAddr :: "ctl_client \<Rightarrow> ctl_panic + string \<times> ctl_client" where
  "nextAddr c =
     (let rr = int64_inc (ct_rr c); ns = Nodes (ct_cluster c) in
      if ns = [] then Inl DivideByZero
      else let i = go_rem rr (int (length ns)) in
        if i < 0 then Inl NodesIndex
        else Inr (ClientAddr (ns ! nat i), c\<lparr>ct_rr := rr\<rparr>))"

definition ctl_kv :: "'r attempt \<Rightarrow> string \<Rightarrow> ctl_client \<Rightarrow> err + ctl_client" where
  "ctl_kv a addr c =
     (if addr \<in> ct_conns c then Inr c
      else case at_dial a addr of
        Some e \<Rightarrow> Inl e
      | None \<Rightarrow> Inr (c\<lparr>ct_conns := insert addr (ct_conns c)\<rparr>))"

text \<open>
  The loop of \<open>do\<close>. \<open>redirect_of\<close> reads the redirect out of a response. The result carries the
  response that ended the loop, and the address each iteration tried, in order.
\<close>

fun doLoop ::
  "('r \<Rightarrow> Redirect option) \<Rightarrow> 'r attempt list \<Rightarrow> string \<Rightarrow> ctl_error option \<Rightarrow> ctl_client
   \<Rightarrow> ctl_panic + ctl_client \<times> (ctl_error + 'r) \<times> string list" where
  "doLoop redirect_of [] addr lastErr c =
     Inr (c, Inl (case lastErr of None \<Rightarrow> DeadlineExceeded | Some e \<Rightarrow> e), [])"
| "doLoop redirect_of (a # as) addr lastErr c =
     bind_res (if addr = [] then nextAddr c else Inr (addr, c)) (\<lambda>(addr, c).
     case ctl_kv a addr c of
       Inl e \<Rightarrow>
         bind_res (doLoop redirect_of as [] (Some (CallError e)) c) (\<lambda>(c, r, tr). Inr (c, r, addr # tr))
     | Inr c \<Rightarrow>
         (case at_call a addr of
            Inl e \<Rightarrow>
              bind_res (doLoop redirect_of as [] (Some (CallError e)) c)
                (\<lambda>(c, r, tr). Inr (c, r, addr # tr))
          | Inr resp \<Rightarrow>
              (case redirect_of resp of
                 Some rd \<Rightarrow>
                   bind_res (doLoop redirect_of as (LeaderAddr rd) (Some NoLeaderYet) c)
                     (\<lambda>(c, r, tr). Inr (c, r, addr # tr))
               | None \<Rightarrow> Inr (c\<lparr>ct_leader := addr\<rparr>, Inr resp, [addr]))))"

definition ctl_do ::
  "('r \<Rightarrow> Redirect option) \<Rightarrow> 'r attempt list \<Rightarrow> ctl_client
   \<Rightarrow> ctl_panic + ctl_client \<times> (ctl_error + 'r) \<times> string list" where
  "ctl_do redirect_of as c = doLoop redirect_of as (ct_leader c) None c"

text \<open>\<open>put\<close> and \<open>delete\<close> see a response as its redirect; \<open>get\<close> also takes the value out of it.\<close>

definition ctl_mutate ::
  "Redirect option attempt list \<Rightarrow> ctl_client \<Rightarrow> ctl_panic + ctl_client \<times> ctl_error option" where
  "ctl_mutate as c =
     bind_res (ctl_do id as c) (\<lambda>(c, r, tr). Inr (c, case r of Inl e \<Rightarrow> Some e | Inr _ \<Rightarrow> None))"

definition ctl_get ::
  "GetResponse attempt list \<Rightarrow> ctl_client \<Rightarrow> ctl_panic + ctl_client \<times> (ctl_error + string \<times> bool)" where
  "ctl_get as c =
     bind_res (ctl_do g_Redirect as c) (\<lambda>(c, r, tr).
     Inr (c, case r of Inl e \<Rightarrow> Inl e | Inr resp \<Rightarrow> Inr (g_Value resp, g_Found resp)))"

section \<open>Commands\<close>

datatype ctl_command = CtlPut string string | CtlGet string | CtlDelete string | CtlStatus bool | CtlUsage

definition ctl_parse :: "string list \<Rightarrow> ctl_command" where
  "ctl_parse argv =
     (case argv of
        [] \<Rightarrow> CtlUsage
      | cmd # args \<Rightarrow>
          if cmd = ''put'' then (case args of [k, v] \<Rightarrow> CtlPut k v | _ \<Rightarrow> CtlUsage)
          else if cmd = ''get'' then (case args of [k] \<Rightarrow> CtlGet k | _ \<Rightarrow> CtlUsage)
          else if cmd = ''delete'' then (case args of [k] \<Rightarrow> CtlDelete k | _ \<Rightarrow> CtlUsage)
          else if cmd = ''status'' then
            (case args of [] \<Rightarrow> CtlStatus False
             | [w] \<Rightarrow> if w = ''-watch'' then CtlStatus True else CtlUsage
             | _ \<Rightarrow> CtlUsage)
          else CtlUsage)"

section \<open>The status table\<close>

datatype status_row = Down string | Up StatusResponse string string

definition logSpan :: "StatusResponse \<Rightarrow> string" where
  "logSpan s =
     (if sr_LastLogIndex s < sr_FirstLogIndex s then ''(snap@'' @ show_nat (sr_LastLogIndex s) @ '')''
      else ''['' @ show_nat (sr_FirstLogIndex s) @ ''..'' @ show_nat (sr_LastLogIndex s) @ '']'')"

definition statusRow :: "Node \<Rightarrow> err + StatusResponse \<Rightarrow> status_row" where
  "statusRow n r =
     (case r of
        Inl _ \<Rightarrow> Down (Node_ID n)
      | Inr s \<Rightarrow> Up s (if sr_LeaderId s = [] then ''-'' else sr_LeaderId s) (logSpan s))"

definition printStatus :: "(string \<Rightarrow> err + StatusResponse) \<Rightarrow> Cluster \<Rightarrow> status_row list" where
  "printStatus ask c =
     map (\<lambda>(n, r). statusRow n r)
       (sort_key (\<lambda>(n, r). Node_ID n) (map (\<lambda>n. (n, ask (ClientAddr n))) (Nodes c)))"

section \<open>The program\<close>

text \<open>
  How a run ends: with an exit status, the lines it printed and the connections it did not close;
  with the status table; or not at all, printing a table every second. \<open>os.Exit\<close> in \<open>usage\<close> and
  \<open>fatal\<close> skips the deferred \<open>close\<close>.
\<close>

datatype ctl_result =
    Exits nat "string list" "string set"
  | Table "status_row list"
  | Watching "nat \<Rightarrow> status_row list"

definition ctl_usage :: "string set \<Rightarrow> ctl_result" where
  "ctl_usage conns = Exits 2 [] conns"

definition ctl_fatal :: "string set \<Rightarrow> ctl_result" where
  "ctl_fatal conns = Exits 1 [] conns"

definition ctl_close :: "ctl_client \<Rightarrow> ctl_client" where
  "ctl_close c = c\<lparr>ct_conns := {}\<rparr>"

definition ctl_done :: "string list \<Rightarrow> ctl_client \<Rightarrow> ctl_result" where
  "ctl_done lines c = Exits 0 lines (ct_conns (ctl_close c))"

text \<open>The network, as the commands meet it: the attempts of each request, the answers to each round of status calls.\<close>

record ctl_network =
  net_put :: "string \<Rightarrow> string \<Rightarrow> Redirect option attempt list"
  net_get :: "string \<Rightarrow> GetResponse attempt list"
  net_delete :: "string \<Rightarrow> Redirect option attempt list"
  net_status :: "nat \<Rightarrow> string \<Rightarrow> err + StatusResponse"

definition ctl_main :: "ctl_network \<Rightarrow> err + bytes \<Rightarrow> string list \<Rightarrow> ctl_panic + ctl_result" where
  "ctl_main net file argv =
     (if argv = [] then Inr (ctl_usage {})
      else case Load file of
        Inl e \<Rightarrow> Inr (ctl_fatal {})
      | Inr cluster \<Rightarrow>
          (let cli = \<lparr>ct_cluster = cluster, ct_conns = {}, ct_leader = [], ct_rr = 0\<rparr>;
               mutation = (\<lambda>as. bind_res (ctl_mutate as cli) (\<lambda>(cli, e).
                 Inr (case e of Some _ \<Rightarrow> ctl_fatal (ct_conns cli) | None \<Rightarrow> ctl_done [''OK''] cli)))
           in case ctl_parse argv of
                CtlPut k v \<Rightarrow> mutation (net_put net k v)
              | CtlDelete k \<Rightarrow> mutation (net_delete net k)
              | CtlGet k \<Rightarrow>
                  bind_res (ctl_get (net_get net k) cli) (\<lambda>(cli, r).
                  Inr (case r of
                         Inl _ \<Rightarrow> ctl_fatal (ct_conns cli)
                       | Inr (value, found) \<Rightarrow>
                           if found then ctl_done [value] cli else ctl_fatal (ct_conns cli)))
              | CtlStatus watch \<Rightarrow>
                  Inr (if watch then Watching (\<lambda>i. printStatus (net_status net i) cluster)
                       else Table (printStatus (net_status net 0) cluster))
              | CtlUsage \<Rightarrow> Inr (ctl_usage {})))"

section \<open>Laws of the loop\<close>

text \<open>What the loop does to the client: it never touches the configuration.\<close>

definition node_at :: "Cluster \<Rightarrow> int \<Rightarrow> string" where
  "node_at cl i = ClientAddr (Nodes cl ! (nat i mod length (Nodes cl)))"

fun rotation :: "Cluster \<Rightarrow> int \<Rightarrow> nat \<Rightarrow> string list" where
  "rotation cl rr 0 = []"
| "rotation cl rr (Suc k) = node_at cl (rr + 1) # rotation cl (rr + 1) k"

lemma nextAddr_ok:
  assumes "Nodes (ct_cluster c) \<noteq> []" and "0 \<le> ct_rr c" and "ct_rr c + 1 < 2 ^ 63"
  shows "nextAddr c = Inr (node_at (ct_cluster c) (ct_rr c + 1), c\<lparr>ct_rr := ct_rr c + 1\<rparr>)"
proof -
  let ?n = "int (length (Nodes (ct_cluster c)))"
  have "int64_inc (ct_rr c) = ct_rr c + 1" using assms(3) by (simp add: int64_inc_def)
  moreover have "go_rem (ct_rr c + 1) ?n = (ct_rr c + 1) mod ?n" using assms(2) by (simp add: go_rem_def)
  moreover have "\<not> (ct_rr c + 1) mod ?n < 0" using assms(1) by (simp add: not_less)
  moreover have "nat ((ct_rr c + 1) mod ?n) = nat (ct_rr c + 1) mod length (Nodes (ct_cluster c))"
    using assms(2) by (simp add: nat_mod_distrib)
  ultimately show ?thesis using assms(1) by (simp add: nextAddr_def Let_def node_at_def)
qed

definition ctl_ok :: "nat \<Rightarrow> ctl_client \<Rightarrow> bool" where
  "ctl_ok k c \<longleftrightarrow> Nodes (ct_cluster c) \<noteq> [] \<and> 0 \<le> ct_rr c \<and> ct_rr c + int k < 2 ^ 63"

lemma ctl_kv_frame:
  "ctl_kv a addr c = Inr c' \<Longrightarrow> ct_cluster c' = ct_cluster c \<and> ct_rr c' = ct_rr c \<and> ct_leader c' = ct_leader c \<and>
     ct_conns c \<subseteq> ct_conns c'"
  by (auto simp: ctl_kv_def split: if_splits option.splits)

lemma ctl_kv_dialled:
  "at_dial a addr = None \<Longrightarrow> \<exists>c'. ctl_kv a addr c = Inr c' \<and> ct_cluster c' = ct_cluster c \<and> ct_rr c' = ct_rr c"
  by (simp add: ctl_kv_def)

definition client_addrs :: "ctl_client \<Rightarrow> string set" where
  "client_addrs c = ClientAddr ` set (Nodes (ct_cluster c))"

lemma target_ok:
  assumes "ctl_ok (Suc k) c"
  obtains addr' c' where "(if addr = [] then nextAddr c else Inr (addr, c)) = Inr (addr', c')"
    and "ctl_ok k c'" and "if addr = [] then addr' \<in> client_addrs c else addr' = addr"
    and "ct_cluster c' = ct_cluster c" and "ct_leader c' = ct_leader c" and "ct_conns c' = ct_conns c"
proof (cases "addr = []")
  case True
  have "ctl_ok k (c\<lparr>ct_rr := ct_rr c + 1\<rparr>)" using assms by (simp add: ctl_ok_def)
  moreover have "nextAddr c = Inr (node_at (ct_cluster c) (ct_rr c + 1), c\<lparr>ct_rr := ct_rr c + 1\<rparr>)"
    using assms by (intro nextAddr_ok) (simp_all add: ctl_ok_def)
  moreover have "node_at (ct_cluster c) (ct_rr c + 1) \<in> client_addrs c"
    using assms by (simp add: node_at_def client_addrs_def ctl_ok_def)
  ultimately show thesis
    using True by (intro that [of "node_at (ct_cluster c) (ct_rr c + 1)" "c\<lparr>ct_rr := ct_rr c + 1\<rparr>"]) simp_all
next
  case False
  moreover have "ctl_ok k c" using assms by (simp add: ctl_ok_def)
  ultimately show thesis by (intro that) simp_all
qed

text \<open>
  An iteration that tried \<open>x\<close> got no final answer: dialling it failed, the call failed, or the node
  redirected. \<open>c\<close> is the client at the start, with the connections it had.
\<close>

definition no_answer :: "('r \<Rightarrow> Redirect option) \<Rightarrow> ctl_client \<Rightarrow> 'r attempt \<Rightarrow> string \<Rightarrow> bool" where
  "no_answer rd c a x \<longleftrightarrow> x \<notin> ct_conns c \<and> at_dial a x \<noteq> None \<or> isl (at_call a x) \<or>
     (\<exists>resp. at_call a x = Inr resp \<and> rd resp \<noteq> None)"

text \<open>Where the iteration after one that tried \<open>x\<close> goes: to the address a redirect names, if any.\<close>

definition goes_on :: "('r \<Rightarrow> Redirect option) \<Rightarrow> ctl_client \<Rightarrow> 'r attempt \<Rightarrow> string \<Rightarrow> string \<Rightarrow> bool" where
  "goes_on rd c a x y \<longleftrightarrow>
     (\<forall>resp r. at_call a x = Inr resp \<and> rd resp = Some r \<and> LeaderAddr r \<noteq> [] \<and>
        (x \<in> ct_conns c \<or> at_dial a x = None) \<longrightarrow> y = LeaderAddr r) \<and>
     (y \<in> client_addrs c \<or> (\<exists>resp r. at_call a x = Inr resp \<and> rd resp = Some r \<and> y = LeaderAddr r))"

text \<open>What a run of the loop comes to: \<open>r\<close> its result and \<open>tr\<close> the addresses tried.\<close>

definition do_post ::
  "('r \<Rightarrow> Redirect option) \<Rightarrow> 'r attempt list \<Rightarrow> string \<Rightarrow> ctl_client \<Rightarrow> ctl_client \<Rightarrow> ctl_error + 'r \<Rightarrow> string list \<Rightarrow> bool" where
  "do_post rd as addr c c' r tr \<longleftrightarrow> ct_cluster c' = ct_cluster c \<and>
     (tr \<noteq> [] \<longrightarrow> (if addr = [] then hd tr \<in> client_addrs c else hd tr = addr)) \<and>
     (\<forall>i. Suc i < length tr \<longrightarrow> goes_on rd c (as ! i) (tr ! i) (tr ! Suc i)) \<and>
     (case r of
        Inl e \<Rightarrow> length tr = length as \<and> (\<forall>i < length as. no_answer rd c (as ! i) (tr ! i)) \<and>
          ct_leader c' = ct_leader c
      | Inr resp \<Rightarrow> \<exists>k < length as. length tr = Suc k \<and> (\<forall>i < k. no_answer rd c (as ! i) (tr ! i)) \<and>
          at_call (as ! k) (tr ! k) = Inr resp \<and> rd resp = None \<and> ct_leader c' = tr ! k)"

lemma do_post_later:
  assumes post: "do_post rd as y c2 c' r tr" and c2: "ct_cluster c2 = ct_cluster c" "ct_leader c2 = ct_leader c"
      "ct_conns c \<subseteq> ct_conns c2"
    and x: "if addr = [] then x \<in> client_addrs c else x = addr" and na: "no_answer rd c a x"
    and y: "y = [] \<and> \<not> (x \<in> ct_conns c \<or> at_dial a x = None) \<or> y = [] \<and> isl (at_call a x) \<or>
      (\<exists>resp rdir. at_call a x = Inr resp \<and> rd resp = Some rdir \<and> y = LeaderAddr rdir)"
  shows "do_post rd (a # as) addr c c' r (x # tr)"
proof -
  have same: "client_addrs c2 = client_addrs c" using c2(1) by (simp add: client_addrs_def)
  have na': "no_answer rd c b z" if "no_answer rd c2 b z" for b z
    using that c2(3) by (auto simp: no_answer_def)
  have go: "goes_on rd c b z w" if "goes_on rd c2 b z w" for b z w
    using that c2(3) same by (auto simp: goes_on_def)
  have "goes_on rd c a x (hd tr)" if "tr \<noteq> []"
    using y post that same by (cases "y = []") (auto simp: do_post_def goes_on_def isl_def)
  then have "goes_on rd c ((a # as) ! i) ((x # tr) ! i) ((x # tr) ! Suc i)" if "Suc i < length (x # tr)" for i
    using that post go by (cases i) (auto simp: do_post_def hd_conv_nth)
  moreover have "case r of
        Inl e \<Rightarrow> length (x # tr) = length (a # as) \<and> (\<forall>i < length (a # as). no_answer rd c ((a # as) ! i) ((x # tr) ! i)) \<and>
          ct_leader c' = ct_leader c
      | Inr resp \<Rightarrow> \<exists>k < length (a # as). length (x # tr) = Suc k \<and>
          (\<forall>i < k. no_answer rd c ((a # as) ! i) ((x # tr) ! i)) \<and>
          at_call ((a # as) ! k) ((x # tr) ! k) = Inr resp \<and> rd resp = None \<and> ct_leader c' = (x # tr) ! k"
  proof (cases r)
    case (Inl e)
    then show ?thesis using post na na' c2(2) by (auto simp: do_post_def nth_Cons split: nat.split)
  next
    case (Inr resp)
    then obtain k where "k < length as" "length tr = Suc k" "\<forall>i < k. no_answer rd c2 (as ! i) (tr ! i)"
        "at_call (as ! k) (tr ! k) = Inr resp" "rd resp = None" "ct_leader c' = tr ! k"
      using post by (auto simp: do_post_def)
    then show ?thesis
      using Inr na na' by (auto simp: nth_Cons split: nat.split intro!: exI [of _ "Suc k"])
  qed
  ultimately show ?thesis using post c2(1) x by (simp add: do_post_def)
qed

lemma doLoop_spec:
  assumes "ctl_ok (length as) c"
  shows "\<exists>c' r tr. doLoop rd as addr le c = Inr (c', r, tr) \<and> do_post rd as addr c c' r tr"
  using assms
proof (induction as arbitrary: addr le c)
  case Nil
  then show ?case by (simp add: do_post_def)
next
  case (Cons a as)
  have "ctl_ok (Suc (length as)) c" using Cons(2) by simp
  then obtain x c1 where x: "(if addr = [] then nextAddr c else Inr (addr, c)) = Inr (x, c1)"
      "ctl_ok (length as) c1" "if addr = [] then x \<in> client_addrs c else x = addr"
      "ct_cluster c1 = ct_cluster c" "ct_leader c1 = ct_leader c" "ct_conns c1 = ct_conns c"
    by (rule target_ok)
  have on: ?case
    if loop: "doLoop rd (a # as) addr le c = bind_res (doLoop rd as y le' c2) (\<lambda>(c, r, tr). Inr (c, r, x # tr))"
      and c2: "ctl_ok (length as) c2" "ct_cluster c2 = ct_cluster c" "ct_leader c2 = ct_leader c"
        "ct_conns c \<subseteq> ct_conns c2"
      and na: "no_answer rd c a x"
      and y: "y = [] \<and> \<not> (x \<in> ct_conns c \<or> at_dial a x = None) \<or> y = [] \<and> isl (at_call a x) \<or>
        (\<exists>resp rdir. at_call a x = Inr resp \<and> rd resp = Some rdir \<and> y = LeaderAddr rdir)" for y le' c2
  proof -
    obtain c' r tr where l: "doLoop rd as y le' c2 = Inr (c', r, tr)" "do_post rd as y c2 c' r tr"
      using Cons(1) [OF c2(1)] by blast
    then show ?thesis
      using loop do_post_later [OF l(2) c2(2-4) x(3) na y] by (auto simp del: doLoop.simps)
  qed
  show ?case
  proof (cases "ctl_kv a x c1")
    case (Inl e)
    then have dial: "x \<notin> ct_conns c" "at_dial a x \<noteq> None"
      using x(6) by (auto simp: ctl_kv_def split: if_splits option.splits)
    have "doLoop rd (a # as) addr le c =
        bind_res (doLoop rd as [] (Some (CallError e)) c1) (\<lambda>(c, r, tr). Inr (c, r, x # tr))"
      using x(1) Inl by simp
    then show ?thesis by (rule on) (use x dial in \<open>simp_all add: no_answer_def\<close>)
  next
    case (Inr c2)
    have c2: "ctl_ok (length as) c2" "ct_cluster c2 = ct_cluster c" "ct_leader c2 = ct_leader c"
        "ct_conns c \<subseteq> ct_conns c2"
      using ctl_kv_frame [OF Inr] x(2,4-6) by (auto simp: ctl_ok_def)
    consider (done_) resp where "at_call a x = Inr resp" "rd resp = None"
      | (down) e where "at_call a x = Inl e"
      | (elsewhere) resp rdir where "at_call a x = Inr resp" "rd resp = Some rdir"
      by (cases "at_call a x") auto
    then show ?thesis
    proof cases
      case done_
      then have "doLoop rd (a # as) addr le c = Inr (c2\<lparr>ct_leader := x\<rparr>, Inr resp, [x])"
        using x(1) Inr by simp
      then show ?thesis using done_ c2(2) x(3) by (simp add: do_post_def)
    next
      case down
      have "doLoop rd (a # as) addr le c =
          bind_res (doLoop rd as [] (Some (CallError e)) c2) (\<lambda>(c, r, tr). Inr (c, r, x # tr))"
        using x(1) Inr down by simp
      then show ?thesis by (rule on) (use c2 down in \<open>simp_all add: no_answer_def\<close>)
    next
      case elsewhere
      have "doLoop rd (a # as) addr le c =
          bind_res (doLoop rd as (LeaderAddr rdir) (Some NoLeaderYet) c2) (\<lambda>(c, r, tr). Inr (c, r, x # tr))"
        using x(1) Inr elsewhere by simp
      then show ?thesis by (rule on) (use c2 elsewhere in \<open>simp_all add: no_answer_def\<close>)
    qed
  qed
qed

text \<open>Attempts that all fail at the call walk over the nodes in turn.\<close>

lemma doLoop_rotates:
  assumes "ctl_ok (length as) c"
    and "\<forall>a \<in> set as. \<forall>x. at_dial a x = None \<and> isl (at_call a x)"
  shows "\<exists>c' e. doLoop rd as [] le c = Inr (c', Inl e, rotation (ct_cluster c) (ct_rr c) (length as))"
  using assms
proof (induction as arbitrary: le c)
  case (Cons a as)
  have ok: "Nodes (ct_cluster c) \<noteq> []" "0 \<le> ct_rr c" "ct_rr c + 1 < 2 ^ 63"
    using Cons(2) by (auto simp: ctl_ok_def)
  let ?x = "node_at (ct_cluster c) (ct_rr c + 1)"
  obtain e where e: "at_call a ?x = Inl e" "at_dial a ?x = None"
    using Cons(3) unfolding isl_def by force
  obtain c2 where c2: "ctl_kv a ?x (c\<lparr>ct_rr := ct_rr c + 1\<rparr>) = Inr c2"
      "ct_cluster c2 = ct_cluster c" "ct_rr c2 = ct_rr c + 1"
    using ctl_kv_dialled [OF e(2), of "c\<lparr>ct_rr := ct_rr c + 1\<rparr>"] by auto
  have "ctl_ok (length as) c2" using Cons(2) c2(2,3) by (simp add: ctl_ok_def)
  moreover have "\<forall>a \<in> set as. \<forall>x. at_dial a x = None \<and> isl (at_call a x)" using Cons(3) by simp
  ultimately obtain c' e' where "doLoop rd as [] (Some (CallError e)) c2 =
      Inr (c', Inl e', rotation (ct_cluster c) (ct_rr c + 1) (length as))"
    using Cons(1) [of c2 "Some (CallError e)"] c2(2,3) by metis
  then show ?case
    using nextAddr_ok [OF ok] c2(1) e(1) by simp
qed simp

lemma rotation_nth: "i < k \<Longrightarrow> rotation cl rr k ! i = node_at cl (rr + 1 + int i)"
  by (induction k arbitrary: rr i) (auto simp: nth_Cons algebra_simps split: nat.split)

lemma rotation_length [simp]: "length (rotation cl rr k) = k"
  by (induction k arbitrary: rr) auto

text \<open>As many steps as there are nodes reach every one of them.\<close>

lemma rotation_covers:
  assumes "n \<in> set (Nodes cl)" and "0 \<le> rr"
  shows "ClientAddr n \<in> set (rotation cl rr (length (Nodes cl)))"
proof -
  let ?N = "length (Nodes cl)"
  obtain j where j: "j < ?N" "Nodes cl ! j = n" using assms(1) by (auto simp: in_set_conv_nth)
  define r where "r = nat (rr + 1)"
  define i where "i = (j + ?N - r mod ?N) mod ?N"
  have pos: "0 < ?N" using j(1) by linarith
  then have i: "i < ?N" unfolding i_def by (rule mod_less_divisor)
  have le: "r mod ?N \<le> j + ?N" using mod_less_divisor [OF pos, of r] by linarith
  have "(r + i) mod ?N = (r mod ?N + (j + ?N - r mod ?N)) mod ?N"
    unfolding i_def by (simp add: mod_add_right_eq mod_add_left_eq)
  also have "\<dots> = (j + ?N) mod ?N" using le by simp
  also have "\<dots> = j" using j(1) by simp
  finally have "(r + i) mod ?N = j" .
  moreover have "nat (rr + 1 + int i) = r + i" using assms(2) by (simp add: r_def nat_add_distrib)
  ultimately have "rotation cl rr ?N ! i = ClientAddr n"
    using i j(2) by (simp add: rotation_nth node_at_def)
  then show ?thesis using i by (metis nth_mem rotation_length)
qed

end
