(* ===== verification/System_Properties.thy ===== *)
theory System_Properties
  imports Raft_Recovery Raftd Raftctl Raft_Properties Raft_Applier_Laws
begin

text \<open>
  Properties of the parts around the protocol: recovery of a node, the cluster configuration, the
  RPC boundary, and the command line client.
\<close>

section \<open>Recovery\<close>

text \<open>
  C19: \<open>NewNode\<close> rebuilds the node from its stores. It takes term and vote from the hard state,
  the boundary, the commit index and the applied index from the snapshot, and the entries beyond
  the boundary from the log; entries the snapshot covers are skipped. If those entries continue
  the boundary without a gap it returns exactly this node, a follower that satisfies the node
  invariant; if not, it refuses with the index it found and the one it wanted.
\<close>

theorem recovery_correct:
  assumes "ID c \<noteq> []" and "Store c = Some st" and "timing_ok (withDefaults c)"
    and "LoadHardState st d = Inr hs" and "load_snapshot c d = Inr snap" and "load_entries c d = (d', Inr es)"
    and "Index (boundary snap) + length es + 1 < u64_size" and "CurrentTerm (hard_state hs) < u64_size"
  shows "if contiguous_from (Index (boundary snap) + 1) (live_entries snap es)
    then NewNode c d = (d', Inr (recovered c hs snap es d')) \<and> wf_node (recovered c hs snap es d')
    else \<exists>i w. NewNode c d = (d', Inl (NotContiguous i w)) \<and> i \<noteq> w \<and> i \<in> Index ` set es"
proof (cases "contiguous_from (Index (boundary snap) + 1) (live_entries snap es)")
  case True
  then show ?thesis
    using NewNode_eq [OF assms(1-7)] recovered_wf [OF _ assms(8) True assms(7), of c d'] assms(2) by simp
next
  case False
  let ?r = "recoverEntries (Index (boundary snap)) (Index (boundary snap) + 1) [boundary snap] es"
  have "\<not> isOk ?r"
    using False recoverEntries_iff [of "Index (boundary snap)" "Index (boundary snap) + 1" es "[boundary snap]"] assms(7)
    by (auto simp: isOk_iff live_entries_def)
  then obtain x where x: "?r = Inl x" by (cases ?r) auto
  then obtain i w where "x = NotContiguous i w" "i \<noteq> w" "i \<in> Index ` set es"
    using recoverEntries_gap by metis
  then show ?thesis
    using NewNode_eq [OF assms(1-7)] False x by auto
qed

definition demoLogStore :: "LogEntry list \<Rightarrow> HardState LogStoreOps" where
  "demoLogStore es = \<lparr>AppendEntries = (\<lambda>_ d. (d, None)), TruncateSuffix = (\<lambda>_ d. (d, None)),
     LoadEntries = (\<lambda>d. (d, Inr es)), Compact = (\<lambda>_ d. (d, None))\<rparr>"

definition demoSnap :: Snapshot where
  "demoSnap = \<lparr>LastIncludedIndex = 1, LastIncludedTerm = 1, Data = ''x''\<rparr>"

definition demoHardState :: HardState where
  "demoHardState = \<lparr>CurrentTerm = 2, VotedFor = ''n3''\<rparr>"

definition demoGap :: "LogEntry list" where
  "demoGap = [\<lparr>Term = 2, Index = 3, Command = []\<rparr>]"

definition recoveryConfig :: "LogEntry list \<Rightarrow> HardState Config" where
  "recoveryConfig es = demoConfig\<lparr>LogStore := Some (demoLogStore es),
     SnapshotStore := Some \<lparr>SaveSnapshot = (\<lambda>_ d. (d, None)), LoadSnapshot = (\<lambda>d. Inr (Some demoSnap))\<rparr>\<rparr>"

lemma recovery_inputs:
  "ID (recoveryConfig es) \<noteq> []" "Store (recoveryConfig es) = Some memStore" "timing_ok (withDefaults (recoveryConfig es))"
  "LoadHardState memStore demoHardState = Inr (Some demoHardState)"
  "load_snapshot (recoveryConfig es) demoHardState = Inr (Some demoSnap)"
  "load_entries (recoveryConfig es) demoHardState = (demoHardState, Inr es)"
  by (simp_all add: recoveryConfig_def demoConfig_def timing_ok_def withDefaults_def memStore_def load_snapshot_def
      load_entries_def demoLogStore_def)

lemma recovery_shapes:
  "contiguous_from (Index (boundary (Some demoSnap)) + 1) (live_entries (Some demoSnap) (tl demoLog))"
  "\<not> contiguous_from (Index (boundary (Some demoSnap)) + 1) (live_entries (Some demoSnap) demoGap)"
  "Index (boundary (Some demoSnap)) + length (tl demoLog) + 1 < u64_size"
  "Index (boundary (Some demoSnap)) + length demoGap + 1 < u64_size"
  "CurrentTerm (hard_state (Some demoHardState)) < u64_size"
  by (simp_all add: live_entries_def boundary_def demoSnap_def demoLog_def demoGap_def u64_size_def hard_state_def demoHardState_def)

theorem recovery_correct_witness:
  "(\<exists>rn. NewNode (recoveryConfig (tl demoLog)) demoHardState = (demoHardState, Inr rn) \<and> wf_node rn \<and>
      votedFor rn = ''n3'' \<and> commitIndex rn = 1 \<and> map Index (log rn) = [1, 2]) \<and>
   (\<exists>i w. NewNode (recoveryConfig demoGap) demoHardState = (demoHardState, Inl (NotContiguous i w)))"
proof
  note r = recovery_correct [OF recovery_inputs recovery_shapes(3,5)]
  then show "\<exists>rn. NewNode (recoveryConfig (tl demoLog)) demoHardState = (demoHardState, Inr rn) \<and> wf_node rn \<and>
      votedFor rn = ''n3'' \<and> commitIndex rn = 1 \<and> map Index (log rn) = [1, 2]"
    unfolding if_P [OF recovery_shapes(1)]
    by (auto simp: recovered_def hard_state_def boundary_def demoLog_def demoHardState_def demoSnap_def live_entries_def)
  show "\<exists>i w. NewNode (recoveryConfig demoGap) demoHardState = (demoHardState, Inl (NotContiguous i w))"
    using recovery_correct [OF recovery_inputs recovery_shapes(4,5)]
    unfolding if_not_P [OF recovery_shapes(2)] by blast
qed

section \<open>The election timer\<close>

text \<open>
  C28: On a node \<open>NewNode\<close> accepts, every reset of the election timer draws a timeout between the
  configured bounds, the upper one excluded unless they are equal, and above the heartbeat
  interval: whoever resets the timer, the ticker starts no election before the timeout is over,
  hence none within a heartbeat interval.
\<close>

theorem election_timeout_bounds:
  assumes "NewNode c d = (d', Inr rn)" and "cfg rn' = cfg rn"
  shows "let r = resetElectionTimerLocked clk rn'; lo = ElectionTimeoutMin (cfg rn); hi = ElectionTimeoutMax (cfg rn) in
    lo \<le> electionTimeout r \<and> (electionTimeout r < hi \<or> electionTimeout r = lo \<and> lo = hi) \<and>
    HeartbeatInterval (cfg rn) < electionTimeout r \<and>
    (\<forall>clk'. now clk' - now clk < electionTimeout r \<longrightarrow> runElectionTicker clk' r = Inr r)"
proof -
  let ?r = "resetElectionTimerLocked clk rn'"
  let ?lo = "ElectionTimeoutMin (cfg rn)" and ?hi = "ElectionTimeoutMax (cfg rn)"
  have t: "?lo \<le> ?hi" "HeartbeatInterval (cfg rn) < ?lo"
    using assms(1) NewNode_frame [OF assms(1)]
    by (auto simp: NewNode_def Let_def split: if_splits option.splits)
  have "?lo \<le> electionTimeout ?r \<and> (electionTimeout ?r < ?hi \<or> electionTimeout ?r = ?lo \<and> ?lo = ?hi)"
  proof (cases "?lo < ?hi")
    case True
    then have "0 \<le> draw clk mod (?hi - ?lo)" "draw clk mod (?hi - ?lo) < ?hi - ?lo" by simp_all
    moreover have "electionTimeout ?r = ?lo + draw clk mod (?hi - ?lo)"
      using True assms(2) by (simp add: resetElectionTimerLocked_def Let_def)
    ultimately show ?thesis by linarith
  next
    case False
    then show ?thesis using t(1) assms(2) by (simp add: resetElectionTimerLocked_def Let_def)
  qed
  moreover have "runElectionTicker clk' ?r = Inr ?r" if "now clk' - now clk < electionTimeout ?r" for clk'
    using that by (simp add: runElectionTicker_def resetElectionTimerLocked_def Let_def)
  ultimately show ?thesis using t unfolding Let_def by (intro conjI) (linarith | blast)+
qed

theorem election_timeout_bounds_witness:
  "\<exists>rn. NewNode (recoveryConfig (tl demoLog)) demoHardState = (demoHardState, Inr rn) \<and>
     150 \<le> electionTimeout (resetElectionTimerLocked demoClock rn) \<and>
     electionTimeout (resetElectionTimerLocked demoClock rn) < 300 \<and>
     runElectionTicker \<lparr>now = 50, draw = 0\<rparr> (resetElectionTimerLocked demoClock rn) = Inr (resetElectionTimerLocked demoClock rn)"
proof -
  let ?c = "recoveryConfig (tl demoLog)"
  obtain rn where rn: "NewNode ?c demoHardState = (demoHardState, Inr rn)"
    using NewNode_eq [OF recovery_inputs recovery_shapes(3)] recovery_shapes(1) by simp
  have c: "ElectionTimeoutMin (cfg rn) = 150" "ElectionTimeoutMax (cfg rn) = 300"
    using NewNode_frame [OF rn] by (simp_all add: recoveryConfig_def demoConfig_def withDefaults_def)
  show ?thesis
    using rn election_timeout_bounds [OF rn refl, of demoClock] c unfolding Let_def
    by (intro exI [of _ rn]) (auto simp: demoClock_def)
qed

section \<open>Snapshots that arrive while a batch is applied\<close>

text \<open>
  C40: The applier works on a batch without the lock. If a snapshot beyond the commit index is
  installed meanwhile, the base of the log moves above \<open>lastApplied\<close>; the unsigned difference in
  \<open>maybeSnapshotLocked\<close> wraps, passes every threshold that is not astronomically large, and the
  access to the log that follows is out of range: the node panics.
\<close>

theorem snapshot_install_race:
  assumes "applier_ok a" and "apc a = Applying batch" and "wf_isa args" and "\<not> stopped (anode a)"
    and "currentTerm (anode a) \<le> isa_Term args" and "commitIndex (anode a) < isa_LastIncludedIndex args"
    and "stateMachine (anode a)" and "SnapshotStore (cfg (anode a)) \<noteq> None" and "0 < SnapshotThreshold (cfg (anode a))"
    and "SnapshotThreshold (cfg (anode a)) + isa_LastIncludedIndex args \<le> u64_size"
    and "HandleInstallSnapshot clk args (anode a) = Inr (reply, rn)"
  shows "applierStep ops (a\<lparr>anode := rn\<rparr>) = Inl (RunTime IndexOutOfRange, disk rn)"
proof -
  let ?i = "isa_LastIncludedIndex args"
  have wf: "wf_node (anode a)" and le: "lastApplied (anode a) + length batch \<le> commitIndex (anode a)"
    using assms(1,2) by (simp_all add: applier_ok_def reaching_def)
  have post: "his_post args (anode a) reply rn" "wf_node rn"
    using HandleInstallSnapshot_spec [OF wf assms(3), of clk] his_post_wf [OF wf assms(3)] assms(11) by auto
  obtain m where m: "contacted (isa_Term args) (isa_LeaderID args) (anode a) m" "install_post args m rn"
    using post(1) assms(4,5) by (auto simp: his_post_def)
  have rn: "log rn = install_log args (log m)" "lastApplied rn = lastApplied (anode a)" "cfg rn = cfg (anode a)"
      "stateMachine rn" "log_base (log rn) = ?i"
    using m assms(6,7)
    by (auto simp: install_post_def contacted_def same_log_def same_ident_def install_log_def log_base_def sentinel_def)
  let ?l = "lastApplied (anode a) + length batch"
  have add: "u64_add (lastApplied (anode a)) (length batch) = ?l" by (rule applying_step(1) [OF assms(1,2)])
  have wl: "wf_log (log rn)" using wf_node_ids(2) [OF post(2)] .
  have below: "?l < ?i" using le assms(6) by simp
  have "\<not> u64_sub ?l ?i < SnapshotThreshold (cfg (anode a))"
    using u64_sub_wrap [OF below] below assms(10) by simp
  moreover have "termAt (rn\<lparr>lastApplied := ?l\<rparr>) ?l = Inl (RunTime IndexOutOfRange, disk rn)"
    using termAt_below_base [of "rn\<lparr>lastApplied := ?l\<rparr>" ?l] wl rn(5) below by simp
  moreover have "baseIndex (rn\<lparr>lastApplied := ?l\<rparr>) = Inr ?i"
    using baseIndex_wf [of "rn\<lparr>lastApplied := ?l\<rparr>"] wl rn(5) by simp
  ultimately have "maybeSnapshot_begin (rn\<lparr>lastApplied := ?l\<rparr>) = Inl (RunTime IndexOutOfRange, disk rn)"
    using assms(8,9) rn(3,4) by (simp add: maybeSnapshot_begin_def)
  then show ?thesis using assms(2) rn(2) add by (simp add: applierStep_def Let_def)
qed

definition raceNode :: "HardState RaftNode" where
  "raceNode = demoNode\<lparr>cfg := demoConfig\<lparr>SnapshotStore := Some \<lparr>SaveSnapshot = (\<lambda>_ d. (d, None)),
     LoadSnapshot = (\<lambda>_. Inr None)\<rparr>, SnapshotThreshold := 1000\<rparr>, stateMachine := True, commitIndex := 1\<rparr>"

definition raceInstall :: InstallSnapshotArgs where
  "raceInstall = demoInstall\<lparr>isa_LastIncludedIndex := 5\<rparr>"

definition raceApplier :: "(HardState, unit) Applier" where
  "raceApplier = \<lparr>apc = Applying [demoLog ! 1], machine = (), anode = raceNode\<rparr>"

definition unitOps :: "unit StateMachineOps" where
  "unitOps = \<lparr>sm_Apply = (\<lambda>_ u. u), sm_Snapshot = (\<lambda>_. Inr []), sm_Restore = (\<lambda>_ u. (u, None))\<rparr>"

lemma race_ok: "applier_ok raceApplier"
proof -
  have "lastApplied raceNode = 0" "commitIndex raceNode = 1" "log raceNode = demoLog" "pendingSnapshot raceNode = None"
    by (simp_all add: raceNode_def demo_defs)
  moreover have "wf_node raceNode"
    using demo_wf(1) demo_log calculation by (auto simp: wf_node_def progress_ok_def raceNode_def demoConfig_def)
  ultimately show ?thesis
    using demo_log by (simp add: applier_ok_def raceApplier_def reaching_def covered_def pc_ok_def)
qed

theorem snapshot_install_race_witness:
  "\<exists>reply rn. HandleInstallSnapshot demoClock raceInstall raceNode = Inr (reply, rn) \<and>
     applierStep unitOps (raceApplier\<lparr>anode := rn\<rparr>) = Inl (RunTime IndexOutOfRange, disk rn)"
proof -
  have "isOk (HandleInstallSnapshot demoClock raceInstall raceNode)"
    by (simp add: HandleInstallSnapshot_def installSnapshot_def retainedSuffix_def raceInstall_def demoInstall_def
        raceNode_def demo_defs demo_run_defs saveInstalledSnapshot_def compactForSnapshot_def)
  then obtain reply rn where h: "HandleInstallSnapshot demoClock raceInstall raceNode = Inr (reply, rn)"
    by (auto simp: isOk_iff)
  have "apc raceApplier = Applying [demoLog ! 1]" "wf_isa raceInstall" "\<not> stopped (anode raceApplier)"
    "currentTerm (anode raceApplier) \<le> isa_Term raceInstall"
    "commitIndex (anode raceApplier) < isa_LastIncludedIndex raceInstall" "stateMachine (anode raceApplier)"
    "SnapshotStore (cfg (anode raceApplier)) \<noteq> None" "0 < SnapshotThreshold (cfg (anode raceApplier))"
    "SnapshotThreshold (cfg (anode raceApplier)) + isa_LastIncludedIndex raceInstall \<le> u64_size"
    "HandleInstallSnapshot demoClock raceInstall (anode raceApplier) = Inr (reply, rn)"
    using h by (simp_all add: raceApplier_def raceNode_def raceInstall_def demoInstall_def demo_defs wf_isa_def u64_size_def)
  from snapshot_install_race [OF race_ok this] show ?thesis using h by blast
qed

section \<open>The configuration\<close>

text \<open>
  C27: \<open>Load\<close> accepts exactly the files that parse to a cluster with at least one node, with
  identifiers that are present and distinct, and with addresses that are present and all
  distinct, be they for peers or for clients.
\<close>

theorem config_validation:
  "Load file = Inr c \<longleftrightarrow> (\<exists>b. file = Inr b \<and> unmarshalCluster b = Some c) \<and> Nodes c \<noteq> [] \<and>
     distinct (map Node_ID (Nodes c)) \<and> distinct (addresses (Nodes c)) \<and>
     [] \<notin> set (map Node_ID (Nodes c) @ addresses (Nodes c))"
proof -
  have "valid_cluster c \<longleftrightarrow> Nodes c \<noteq> [] \<and> distinct (map Node_ID (Nodes c)) \<and> distinct (addresses (Nodes c)) \<and>
      [] \<notin> set (map Node_ID (Nodes c) @ addresses (Nodes c))"
    unfolding valid_cluster_def addresses_def by (auto simp: image_iff)
  then show ?thesis
    using Validate_ok [of c] by (auto simp: Load_def split: sum.splits option.splits)
qed

section \<open>The RPC boundary\<close>

text \<open>
  C31: The RPC layer is transparent for each of the three calls. For given arguments there is one
  message that the transport passes to the client of the named peer, whichever it is, and that the
  peer's service, in every state and at every time, turns into exactly what the handler does with
  the caller's arguments: the same state of the peer, the same reply after decoding, or the same
  panic. So neither conversion loses or changes a field of the arguments, the entries included, or
  of the reply. A failed call is reported as such, and a call to a peer the transport does not know
  fails without being sent.
\<close>

theorem rpc_transparent:
  "transparent (\<lambda>t peer. transport_RequestVote t peer va) cl_RequestVote serve_RequestVote
     (\<lambda>clk (rn :: 'd RaftNode). HandleRequestVote clk va rn) \<and>
   transparent (\<lambda>t peer. transport_AppendEntries t peer aa) cl_AppendEntries serve_AppendEntries
     (\<lambda>clk (rn :: 'd RaftNode). HandleAppendEntries clk aa rn) \<and>
   transparent (\<lambda>t peer. transport_InstallSnapshot t peer sa) cl_InstallSnapshot serve_InstallSnapshot
     (\<lambda>clk (rn :: 'd RaftNode). HandleInstallSnapshot clk sa rn)"
  by (intro conjI transparent_RequestVote transparent_AppendEntries transparent_InstallSnapshot)

section \<open>The client\<close>


text \<open>
  C33: When no leader is remembered and every call fails, the client goes round: within as many
  attempts as the cluster has nodes it has contacted every one of them.
\<close>

theorem client_tries_every_node:
  assumes "valid_cluster (ct_cluster c)" and "ct_leader c = []" and "0 \<le> ct_rr c"
    and "ct_rr c + int (length as) < 2 ^ 63" and "length as = length (Nodes (ct_cluster c))"
    and "\<forall>a \<in> set as. \<forall>x. at_dial a x = None \<and> isl (at_call a x)"
  shows "\<exists>c' e tr. ctl_do rd as c = Inr (c', Inl e, tr) \<and> (\<forall>n \<in> set (Nodes (ct_cluster c)). ClientAddr n \<in> set tr)"
proof -
  have ok: "ctl_ok (length as) c" using assms(1,3,4) by (simp add: ctl_ok_def valid_cluster_def)
  obtain c' e where "doLoop rd as [] None c = Inr (c', Inl e, rotation (ct_cluster c) (ct_rr c) (length as))"
    using doLoop_rotates [OF ok assms(6)] by blast
  then show ?thesis
    using rotation_covers [OF _ assms(3)] by (auto simp: ctl_do_def assms(2,5))
qed

definition demoCluster :: Cluster where
  "demoCluster = \<lparr>Nodes = [\<lparr>Node_ID = ''n1'', RaftAddr = ''r1'', ClientAddr = ''c1''\<rparr>,
     \<lparr>Node_ID = ''n2'', RaftAddr = ''r2'', ClientAddr = ''c2''\<rparr>]\<rparr>"

definition demoClient :: ctl_client where
  "demoClient = \<lparr>ct_cluster = demoCluster, ct_conns = {}, ct_leader = [], ct_rr = 0\<rparr>"

definition downAttempt :: "Redirect option attempt" where
  "downAttempt = \<lparr>at_dial = (\<lambda>_. None), at_call = (\<lambda>_. Inl ''down'')\<rparr>"

text \<open>Node \<open>c2\<close> points at \<open>c1\<close>, which leads.\<close>

definition leaderAttempt :: "Redirect option attempt" where
  "leaderAttempt = \<lparr>at_dial = (\<lambda>_. None),
     at_call = (\<lambda>a. Inr (if a = ''c1'' then None else Some \<lparr>LeaderId = ''n1'', LeaderAddr = ''c1''\<rparr>))\<rparr>"

lemma demo_cluster: "valid_cluster demoCluster"
  by (simp add: valid_cluster_def demoCluster_def addresses_def)



theorem client_tries_every_node_witness:
  "\<exists>c' e tr. ctl_do id [downAttempt, downAttempt] demoClient = Inr (c', Inl e, tr) \<and>
     (\<forall>n \<in> set (Nodes demoCluster). ClientAddr n \<in> set tr)"
  using client_tries_every_node [of demoClient "[downAttempt, downAttempt]" id] demo_cluster
  by (simp add: demoClient_def downAttempt_def demoCluster_def)

text \<open>A node has given this answer.\<close>

definition replied :: "'r attempt list \<Rightarrow> 'r \<Rightarrow> bool" where
  "replied as resp \<longleftrightarrow> (\<exists>a \<in> set as. \<exists>addr. at_call a addr = Inr resp)"

lemma ctl_do_answered:
  assumes "valid_cluster (ct_cluster c)" and "ct_rr c = 0" and "int (length as) < 2 ^ 63"
  shows "\<exists>c' r tr. ctl_do rd as c = Inr (c', r, tr) \<and> (\<forall>resp. r = Inr resp \<longrightarrow> rd resp = None \<and> replied as resp)"
proof -
  have "ctl_ok (length as) c" using assms by (simp add: ctl_ok_def valid_cluster_def)
  from doLoop_spec [OF this, of rd "ct_leader c" None] show ?thesis
    by (fastforce simp: ctl_do_def do_post_def replied_def)
qed

text \<open>
  C34: The exit status of \<open>raftctl\<close> can be trusted. With a valid configuration \<open>put\<close> and \<open>delete\<close>
  print \<open>OK\<close> and exit with 0 only if a node answered the request without a redirect, \<open>get\<close> prints a
  value and exits with 0 only if a node answered with that value; in every other case the status
  is 1, and no run panics.
\<close>

theorem ctl_exit_status:
  assumes "Load file = Inr cl" and "int (length (net_put net k v)) < 2 ^ 63"
    and "int (length (net_delete net k)) < 2 ^ 63" and "int (length (net_get net k)) < 2 ^ 63"
  shows "(\<exists>r. ctl_main net file [''put'', k, v] = Inr r \<and>
      (r = Exits 0 [''OK''] {} \<and> replied (net_put net k v) None \<or> (\<exists>conns. r = Exits 1 [] conns))) \<and>
    (\<exists>r. ctl_main net file [''delete'', k] = Inr r \<and>
      (r = Exits 0 [''OK''] {} \<and> replied (net_delete net k) None \<or> (\<exists>conns. r = Exits 1 [] conns))) \<and>
    (\<exists>r. ctl_main net file [''get'', k] = Inr r \<and>
      ((\<exists>resp. r = Exits 0 [g_Value resp] {} \<and> g_Found resp \<and> g_Redirect resp = None \<and> replied (net_get net k) resp) \<or>
       (\<exists>conns. r = Exits 1 [] conns)))"
proof -
  let ?c = "\<lparr>ct_cluster = cl, ct_conns = {}, ct_leader = [], ct_rr = 0\<rparr>"
  have v: "valid_cluster (ct_cluster ?c)"
    using assms(1) Validate_ok by (auto simp: Load_def split: sum.splits option.splits)
  note run = ctl_do_answered [OF v]
  have mut: "\<exists>r. bind_res (ctl_mutate as ?c) (\<lambda>(cli, e).
        Inr (case e of Some _ \<Rightarrow> ctl_fatal (ct_conns cli) | None \<Rightarrow> ctl_done [''OK''] cli)) = Inr r \<and>
      (r = Exits 0 [''OK''] {} \<and> replied as None \<or> (\<exists>conns. r = Exits 1 [] conns))"
    if "int (length as) < 2 ^ 63" for as :: "Redirect option attempt list"
    using run [of as id] that
    by (auto simp: ctl_mutate_def ctl_fatal_def ctl_done_def ctl_close_def split: sum.splits)
  have got: "\<exists>r. bind_res (ctl_get as ?c) (\<lambda>(cli, r).
        Inr (case r of Inl _ \<Rightarrow> ctl_fatal (ct_conns cli)
             | Inr (value, found) \<Rightarrow> if found then ctl_done [value] cli else ctl_fatal (ct_conns cli))) = Inr r \<and>
      ((\<exists>resp. r = Exits 0 [g_Value resp] {} \<and> g_Found resp \<and> g_Redirect resp = None \<and> replied as resp) \<or>
       (\<exists>conns. r = Exits 1 [] conns))"
    if "int (length as) < 2 ^ 63" for as
    using run [of as g_Redirect] that
    by (auto simp: ctl_get_def ctl_fatal_def ctl_done_def ctl_close_def split: sum.splits) blast
  show ?thesis
    using mut [OF assms(2)] mut [OF assms(3)] got [OF assms(4)] assms(1)
    by (simp add: ctl_main_def ctl_parse_def Let_def)
qed

definition demoFile :: "err + bytes" where
  "demoFile = Inr (render (JObj [(''nodes'', JArr [JObj [(''id'', JStr ''n1''), (''raft_addr'', JStr ''r1''),
     (''client_addr'', JStr ''c1'')]])]))"

definition demoNetwork :: ctl_network where
  "demoNetwork = \<lparr>net_put = (\<lambda>_ _. [leaderAttempt]), net_get = (\<lambda>_. []), net_delete = (\<lambda>_. [downAttempt]),
     net_status = (\<lambda>_ _. Inl ''down'')\<rparr>"

definition exit_status :: "ctl_panic + ctl_result \<Rightarrow> nat option" where
  "exit_status r = (case r of Inr (Exits n lines conns) \<Rightarrow> Some n | _ \<Rightarrow> None)"

theorem ctl_exit_status_witness:
  "ctl_main demoNetwork demoFile [''put'', ''k'', ''v''] = Inr (Exits 0 [''OK''] {}) \<and>
   replied (net_put demoNetwork ''k'' ''v'') None \<and>
   (\<exists>conns. ctl_main demoNetwork demoFile [''delete'', ''k''] = Inr (Exits 1 [] conns))"
proof -
  have "isOk (Load demoFile)" by code_simp
  then obtain cl where cl: "Load demoFile = Inr cl" by (auto simp: isOk_iff)
  have "exit_status (ctl_main demoNetwork demoFile [''put'', ''k'', ''v'']) = Some 0"
    "exit_status (ctl_main demoNetwork demoFile [''delete'', ''k'']) = Some 1" by code_simp+
  note ends = this
  have "int (length (net_put demoNetwork ''k'' ''v'')) < 2 ^ 63" "int (length (net_delete demoNetwork ''k'')) < 2 ^ 63"
    "int (length (net_get demoNetwork ''k'')) < 2 ^ 63"
    by (simp_all add: demoNetwork_def)
  from ctl_exit_status [OF cl this] show ?thesis using ends by (auto simp: exit_status_def)
qed

end
