(* ===== verification/Raft_Cluster.thy ===== *)
theory Raft_Cluster
  imports Raft_Durable
begin

text \<open>
  A cluster of daemons: one process per node identifier, each a running \<open>raftd\<close> or a directory
  that waits for one, and the messages between them. A step is one critical section of one
  process, a message going astray, a crash, a power cut or a restart through \<open>raftd_main\<close>.
  The network delivers a request any number of times, in any order, or never; messages are never
  taken out of the sets. A reply reaches the goroutine that waits for it at most once.
\<close>

datatype process = Running "(Disk, KvServer) Applier" | Down FS

text \<open>
  The messages are addressed: the receiver with a request, the sender and the request with a
  reply. \<open>snapTasks\<close> and \<open>snapCalls\<close> are the goroutines of \<open>sendSnapshot\<close> before and during the
  call, \<open>proposals\<close> the requests between \<open>Propose\<close> and the registration of their waiter. The two
  last fields are history: the votes cast, as voter, term and candidate, and the terms led.
\<close>

record System =
  procs :: "node_id \<Rightarrow> process"
  voteReqs :: "(node_id \<times> RequestVoteArgs) set"
  voteReps :: "(node_id \<times> RequestVoteArgs \<times> RequestVoteReply) set"
  appendReqs :: "(node_id \<times> AppendEntriesArgs) set"
  appendReps :: "(node_id \<times> AppendEntriesArgs \<times> AppendEntriesReply) set"
  installReqs :: "(node_id \<times> InstallSnapshotArgs) set"
  installReps :: "(node_id \<times> InstallSnapshotArgs \<times> InstallSnapshotReply) set"
  snapTasks :: "(node_id \<times> node_id \<times> nat) set"
  snapCalls :: "(node_id \<times> node_id \<times> nat \<times> Snapshot) set"
  proposals :: "(node_id \<times> nat \<times> nat) set"
  ballots :: "(node_id \<times> nat \<times> node_id) set"
  leaders :: "(nat \<times> node_id) set"

definition initSystem :: "(node_id \<Rightarrow> nat \<Rightarrow> nat option) \<Rightarrow> System" where
  "initSystem orc =
     \<lparr>procs = (\<lambda>n. Down (emptyFS (orc n))), voteReqs = {}, voteReps = {}, appendReqs = {}, appendReps = {},
      installReqs = {}, installReps = {}, snapTasks = {}, snapCalls = {}, proposals = {}, ballots = {}, leaders = {}\<rparr>"

section \<open>Effects of a critical section\<close>

text \<open>A panic leaves the process down; a node that leads is recorded.\<close>

definition after :: "(Disk, KvServer) Applier \<Rightarrow> (Disk, Disk RaftNode) outcome \<Rightarrow> process" where
  "after a m = (case m of Inl (p, d) \<Rightarrow> Down (fs d) | Inr rn \<Rightarrow> Running (a\<lparr>anode := rn\<rparr>))"

definition leading :: "node_id \<Rightarrow> process \<Rightarrow> (nat \<times> node_id) set" where
  "leading n p = (case p of Down f \<Rightarrow> {} | Running a \<Rightarrow> if state (anode a) = Leader then {(currentTerm (anode a), n)} else {})"

definition turns :: "node_id \<Rightarrow> process \<Rightarrow> System \<Rightarrow> System" where
  "turns n p s = s\<lparr>procs := (procs s)(n := p), leaders := leaders s \<union> leading n p\<rparr>"

text \<open>The result of an operation, if it returned.\<close>

definition result_of :: "('d, 'x \<times> 'd RaftNode) outcome \<Rightarrow> 'x set" where
  "result_of m = (case m of Inl _ \<Rightarrow> {} | Inr (x, rn) \<Rightarrow> {x})"

text \<open>What an election puts on the network and in the history.\<close>

definition asked :: "(Disk, Disk RaftNode) outcome \<Rightarrow> (node_id \<times> RequestVoteArgs) set" where
  "asked m = (case m of Inl _ \<Rightarrow> {} | Inr rn \<Rightarrow> (\<lambda>v. (vc_peer v, vc_args v)) ` set (voteCalls rn))"

definition own_vote :: "node_id \<Rightarrow> Disk RaftNode \<Rightarrow> (Disk, Disk RaftNode) outcome \<Rightarrow> (node_id \<times> nat \<times> node_id) set" where
  "own_vote n rn m =
     (case m of Inl _ \<Rightarrow> {} | Inr rn' \<Rightarrow> if currentTerm rn' = currentTerm rn then {} else {(n, currentTerm rn', n)})"

definition cast_vote :: "node_id \<Rightarrow> RequestVoteArgs \<Rightarrow> RequestVoteReply set \<Rightarrow> (node_id \<times> nat \<times> node_id) set" where
  "cast_vote n args rs = (if \<exists>r \<in> rs. rvr_VoteGranted r then {(n, rva_Term args, rva_CandidateID args)} else {})"

text \<open>What a replication round sends, the snapshots it decides to send, and an accepted proposal.\<close>

definition entries_sent :: "outbound list set \<Rightarrow> (node_id \<times> AppendEntriesArgs) set" where
  "entries_sent R = (\<Union>ms \<in> R. \<Union>m \<in> set ms. case m of SendEntries p args \<Rightarrow> {(p, args)} | SendSnapshot p \<Rightarrow> {})"

definition snapshots_due :: "node_id \<Rightarrow> nat \<Rightarrow> outbound list set \<Rightarrow> (node_id \<times> node_id \<times> nat) set" where
  "snapshots_due n t R = (\<Union>ms \<in> R. \<Union>m \<in> set ms. case m of SendEntries p args \<Rightarrow> {} | SendSnapshot p \<Rightarrow> {(n, p, t)})"

definition accepted :: "node_id \<Rightarrow> (kv_error + nat \<times> nat) set \<Rightarrow> (node_id \<times> nat \<times> nat) set" where
  "accepted n R = (\<Union>r \<in> R. case r of Inl e \<Rightarrow> {} | Inr (i, t) \<Rightarrow> {(n, i, t)})"

text \<open>One step of the applier goroutine; a panic inside the state machine takes the process down.\<close>

definition applied :: "(Disk, KvServer) Applier \<Rightarrow> process" where
  "applied a =
     (case applierStep kvOps a of
        Inl (p, d) \<Rightarrow> Down (fs d)
      | Inr a' \<Rightarrow> if dead (machine a') then Down (fs (disk (anode a'))) else Running a')"

text \<open>The process \<open>raftd\<close> leaves: running, or down with its directory.\<close>

definition booted :: "FS \<times> (daemon_error + Daemon) \<Rightarrow> process" where
  "booted r = (case r of (f, Inl e) \<Rightarrow> Down f | (f, Inr dm) \<Rightarrow> Running (dm_applier dm))"

section \<open>Steps\<close>

text \<open>
  \<open>cfile\<close> is the cluster file, the same on every machine, \<open>th\<close> the snapshot threshold. The election
  timer does not fire in term \<open>2 ^ 64 - 1\<close>, where the term would wrap around.
\<close>

inductive system_step :: "err + bytes \<Rightarrow> nat \<Rightarrow> System \<Rightarrow> System \<Rightarrow> bool" for cfile th where
  tick: "procs s n = Running a \<Longrightarrow> currentTerm (anode a) + 1 < u64_size \<Longrightarrow> m = runElectionTicker clk (anode a) \<Longrightarrow>
    system_step cfile th s ((turns n (after a m) s)
      \<lparr>voteReqs := voteReqs s \<union> asked m, ballots := ballots s \<union> own_vote n (anode a) m\<rparr>)"
| vote: "procs s n = Running a \<Longrightarrow> (n, args) \<in> voteReqs s \<Longrightarrow> m = HandleRequestVote clk args (anode a) \<Longrightarrow>
    system_step cfile th s ((turns n (after a (node_after m)) s)
      \<lparr>voteReps := voteReps s \<union> (\<lambda>r. (n, args, r)) ` result_of m,
       ballots := ballots s \<union> cast_vote n args (result_of m)\<rparr>)"
| vote_reply: "procs s n = Running a \<Longrightarrow> v \<in> set (voteCalls (anode a)) \<Longrightarrow> (vc_peer v, vc_args v, reply) \<in> voteReps s \<Longrightarrow>
    rn = (anode a)\<lparr>voteCalls := remove1 v (voteCalls (anode a))\<rparr> \<Longrightarrow>
    system_step cfile th s (turns n (after a (handleVoteReply clk (vc_term v) reply rn)) s)"
| vote_lost: "procs s n = Running a \<Longrightarrow> v \<in> set (voteCalls (anode a)) \<Longrightarrow>
    rn = (anode a)\<lparr>voteCalls := remove1 v (voteCalls (anode a))\<rparr> \<Longrightarrow>
    system_step cfile th s (turns n (Running (a\<lparr>anode := rn\<rparr>)) s)"
| replicate_round: "procs s n = Running a \<Longrightarrow> t \<in> set (replicators (anode a)) \<Longrightarrow> m = runReplication t w (anode a) \<Longrightarrow>
    system_step cfile th s ((turns n (after a (node_after m)) s)
      \<lparr>appendReqs := appendReqs s \<union> entries_sent (result_of m),
       snapTasks := snapTasks s \<union> snapshots_due n t (result_of m)\<rparr>)"
| append: "procs s n = Running a \<Longrightarrow> (n, args) \<in> appendReqs s \<Longrightarrow> m = HandleAppendEntries clk args (anode a) \<Longrightarrow>
    system_step cfile th s ((turns n (after a (node_after m)) s)
      \<lparr>appendReps := appendReps s \<union> (\<lambda>r. (n, args, r)) ` result_of m\<rparr>)"
| append_reply: "procs s n = Running a \<Longrightarrow> (peer, args, reply) \<in> appendReps s \<Longrightarrow> aea_LeaderID args = n \<Longrightarrow>
    system_step cfile th s
      (turns n (after a (handleAppendEntriesReply clk peer (aea_Term args) args reply (anode a))) s)"
| snapshot_none: "procs s n = Running a \<Longrightarrow> (n, peer, t) \<in> snapTasks s \<Longrightarrow> sendSnapshot_args t (anode a) = Inl (p, d) \<Longrightarrow>
    system_step cfile th s (turns n (Down (fs d)) s)"
| snapshot_send: "procs s n = Running a \<Longrightarrow> (n, peer, t) \<in> snapTasks s \<Longrightarrow>
    sendSnapshot_args t (anode a) = Inr (Some (snap, args)) \<Longrightarrow>
    system_step cfile th s (s\<lparr>installReqs := insert (peer, args) (installReqs s),
                             snapCalls := insert (n, peer, t, snap) (snapCalls s)\<rparr>)"
| install: "procs s n = Running a \<Longrightarrow> (n, args) \<in> installReqs s \<Longrightarrow> m = HandleInstallSnapshot clk args (anode a) \<Longrightarrow>
    system_step cfile th s ((turns n (after a (node_after m)) s)
      \<lparr>installReps := installReps s \<union> (\<lambda>r. (n, args, r)) ` result_of m\<rparr>)"
| install_reply: "procs s n = Running a \<Longrightarrow> (n, peer, t, snap) \<in> snapCalls s \<Longrightarrow> (peer, args, reply) \<in> installReps s \<Longrightarrow>
    isa_LeaderID args = n \<Longrightarrow> isa_Term args = t \<Longrightarrow> isa_LastIncludedIndex args = LastIncludedIndex snap \<Longrightarrow>
    system_step cfile th s (turns n (after a (sendSnapshot_reply clk peer t snap reply (anode a))) s)"
| propose: "procs s n = Running a \<Longrightarrow> m = propose_begin cmd (anode a) \<Longrightarrow>
    system_step cfile th s ((turns n (after a (node_after m)) s)
      \<lparr>proposals := proposals s \<union> accepted n (result_of m)\<rparr>)"
| await: "procs s n = Running a \<Longrightarrow> (n, i, t) \<in> proposals s \<Longrightarrow>
    system_step cfile th s (turns n (Running (a\<lparr>machine := registerWaiter i t ch (machine a)\<rparr>)) s)"
| cancel: "procs s n = Running a \<Longrightarrow> (n, i, t) \<in> proposals s \<Longrightarrow>
    system_step cfile th s (turns n (Running (a\<lparr>machine := snd (propose_cancel i (machine a))\<rparr>)) s)"
| apply_step: "procs s n = Running a \<Longrightarrow> system_step cfile th s (turns n (applied a) s)"
| stop: "procs s n = Running a \<Longrightarrow> system_step cfile th s (turns n (Running (a\<lparr>anode := Stop (anode a)\<rparr>)) s)"
| crash: "procs s n = Running a \<Longrightarrow> crashed (fs (disk (anode a))) f \<Longrightarrow> system_step cfile th s (turns n (Down f) s)"
| outage: "procs s n = Down f \<Longrightarrow> crashed f f' \<Longrightarrow> system_step cfile th s (turns n (Down f') s)"
| boot: "procs s n = Down f \<Longrightarrow>
    system_step cfile th s (turns n (booted (raftd_main dial listen clk n th cfile f)) s)"

inductive reachable :: "err + bytes \<Rightarrow> nat \<Rightarrow> System \<Rightarrow> bool" for cfile th where
  start: "reachable cfile th (initSystem orc)"
| step: "reachable cfile th s \<Longrightarrow> system_step cfile th s s' \<Longrightarrow> reachable cfile th s'"

lemma entries_sent_iff: "(p, args) \<in> entries_sent R \<longleftrightarrow> (\<exists>ms \<in> R. SendEntries p args \<in> set ms)"
proof -
  have "(p, args) \<in> (case m of SendEntries p args \<Rightarrow> {(p, args)} | SendSnapshot p \<Rightarrow> {}) \<longleftrightarrow> m = SendEntries p args" for m
    by (cases m) auto
  then show ?thesis by (simp add: entries_sent_def)
qed

lemma snapshots_due_iff:
  "(n', p, t') \<in> snapshots_due n t R \<longleftrightarrow> n' = n \<and> t' = t \<and> (\<exists>ms \<in> R. SendSnapshot p \<in> set ms)"
proof -
  have "(n', p, t') \<in> (case m of SendEntries p args \<Rightarrow> {} | SendSnapshot p \<Rightarrow> {(n, p, t)}) \<longleftrightarrow>
      n' = n \<and> t' = t \<and> m = SendSnapshot p" for m
    by (cases m) auto
  then show ?thesis by (auto simp: snapshots_due_def)
qed

end
