(* ===== verification/Raft_Election_Safety.thy ===== *)
theory Raft_Election_Safety
  imports Raft_Cluster
begin

text \<open>
  Election safety of the cluster: no term has two leaders, through any loss, duplication and
  delay of messages, failing disks, panics, power cuts and restarts. The invariant relates the
  history of votes to what each node remembers, in memory and in whatever its disk could be
  found to hold.
\<close>

section \<open>Membership\<close>

definition members :: "err + bytes \<Rightarrow> node_id list" where
  "members cfile = (case Load cfile of Inl e \<Rightarrow> [] | Inr cl \<Rightarrow> map Node_ID (Nodes cl))"

definition others :: "err + bytes \<Rightarrow> node_id \<Rightarrow> node_id list" where
  "others cfile n = filter (\<lambda>x. x \<noteq> n) (members cfile)"

lemma Load_valid: "Load cfile = Inr cl \<Longrightarrow> valid_cluster cl"
  by (auto simp: Load_def Validate_ok split: sum.splits option.splits)

lemma dec_nodes_valid:
  "dec_nodes js bk = Some ns \<Longrightarrow> list_all valid_json js \<Longrightarrow> \<forall>n \<in> set bk. valid_utf8 (Node_ID n) \<Longrightarrow>
   \<forall>n \<in> set ns. valid_utf8 (Node_ID n)"
proof (induction js bk arbitrary: ns rule: dec_nodes.induct)
  case (2 j js bk)
  let ?x = "case bk of [] \<Rightarrow> \<lparr>Node_ID = [], RaftAddr = [], ClientAddr = []\<rparr> | b # _ \<Rightarrow> b"
  obtain n ns' where n: "dec_struct updNode j ?x = Some n" "dec_nodes js (tl bk) = Some ns'" "ns = n # ns'"
    using 2(2) by (auto simp: bind_eq_Some_conv)
  have "valid_utf8 (Node_ID n)"
    by (rule dec_struct_keeps [OF n(1)])
      (use 2(3,4) in \<open>auto simp: updNode_def Let_def split: if_splits list.splits dest: dec_string_valid\<close>)
  moreover have "\<forall>n \<in> set ns'. valid_utf8 (Node_ID n)"
    using 2(1) [OF _ n(2)] 2(3,4) n(1) by (cases bk) (auto simp: list.set_sel(2))
  ultimately show ?case using n(3) by simp
qed simp

lemma Load_utf8:
  assumes "Load cfile = Inr cl" and "n \<in> set (Nodes cl)"
  shows "valid_utf8 (Node_ID n)"
proof -
  obtain data k bk where u: "unmarshal updCluster data (0, []) = Some (k, bk)" "Nodes cl = take k bk"
    using assms(1) by (auto simp: Load_def unmarshalCluster_def split: sum.splits option.splits)
  have "\<forall>n \<in> set (snd (k, bk)). valid_utf8 (Node_ID n)"
    by (rule unmarshal_keeps [OF u(1)])
      (auto simp: updCluster_def split: if_splits json.splits list.splits
        simp del: dec_nodes.simps dest!: dec_nodes_valid)
  then show ?thesis using assms(2) u(2) by (auto dest: in_set_takeD)
qed

lemma members_ok:
  shows "distinct (members cfile)" and "x \<in> set (members cfile) \<Longrightarrow> x \<noteq> NoID \<and> valid_utf8 x"
proof -
  have "distinct (members cfile) \<and> (x \<in> set (members cfile) \<longrightarrow> x \<noteq> NoID \<and> valid_utf8 x)"
  proof (cases "Load cfile")
    case (Inr cl)
    then show ?thesis
      using Load_valid [OF Inr] Load_utf8 [OF Inr] by (auto simp: members_def valid_cluster_def NoID_def)
  qed (simp add: members_def)
  then show "distinct (members cfile)" and "x \<in> set (members cfile) \<Longrightarrow> x \<noteq> NoID \<and> valid_utf8 x" by auto
qed

lemma others_ok:
  "distinct (others cfile n)" "set (others cfile n) = set (members cfile) - {n}"
  "n \<in> set (members cfile) \<Longrightarrow> length (others cfile n) + 1 = length (members cfile)"
  using members_ok(1) [of cfile] length_others [of "\<lambda>x. x" "members cfile" n] by (auto simp: others_def)

abbreviation majority_size :: "err + bytes \<Rightarrow> nat" where
  "majority_size cfile \<equiv> length (members cfile) div 2 + 1"

lemma quorum_majority:
  "n \<in> set (members cfile) \<Longrightarrow> peers rn = others cfile n \<Longrightarrow> quorum rn = majority_size cfile"
  using others_ok(3) by (simp add: quorum_def)

lemma votable_member: "x \<in> set (members cfile) \<Longrightarrow> daemon.votable x"
  using members_ok(2) by (simp add: daemon.votable_def wf_hard_state_def)

section \<open>The invariant\<close>

text \<open>What a process is and remembers, given the votes \<open>B\<close> cast so far.\<close>

fun files :: "process \<Rightarrow> FS" where
  "files (Running a) = fs (disk (anode a))"
| "files (Down f) = f"

definition member_node :: "err + bytes \<Rightarrow> nat \<Rightarrow> node_id \<Rightarrow> Disk RaftNode \<Rightarrow> bool" where
  "member_node cfile th n rn \<longleftrightarrow> n \<in> set (members cfile) \<and> daemon.intact n (others cfile n) th rn \<and>
     node_id rn = n \<and> peers rn = others cfile n"

definition calls_ok :: "err + bytes \<Rightarrow> node_id \<Rightarrow> Disk RaftNode \<Rightarrow> bool" where
  "calls_ok cfile n rn \<longleftrightarrow> (\<forall>v \<in> set (voteCalls rn). rva_Term (vc_args v) = vc_term v \<and>
     rva_CandidateID (vc_args v) = n \<and> vc_term v \<le> currentTerm rn \<and> vc_peer v \<in> set (others cfile n))"

text \<open>The peers whose answer to the current election is still awaited.\<close>

definition awaited :: "Disk RaftNode \<Rightarrow> node_id list" where
  "awaited rn = map vc_peer (filter (\<lambda>v. vc_term v = currentTerm rn) (voteCalls rn))"

text \<open>A candidate's count is backed by its own vote and votes of peers it is not waiting for.\<close>

definition backed :: "(node_id \<times> nat \<times> node_id) set \<Rightarrow> err + bytes \<Rightarrow> node_id \<Rightarrow> Disk RaftNode \<Rightarrow> bool" where
  "backed B cfile n rn \<longleftrightarrow> (n, currentTerm rn, n) \<in> B \<and> distinct (awaited rn) \<and>
     (\<exists>G. G \<subseteq> set (others cfile n) \<and> votes rn (currentTerm rn) = 1 + card G \<and>
        (\<forall>p \<in> G. (p, currentTerm rn, n) \<in> B) \<and> G \<inter> set (awaited rn) = {})"

definition recalls :: "(node_id \<times> nat \<times> node_id) set \<Rightarrow> node_id \<Rightarrow> HardState \<Rightarrow> bool" where
  "recalls B n h \<longleftrightarrow> (\<forall>t c. (n, t, c) \<in> B \<longrightarrow> remembers h t c)"

definition node_ok :: "(node_id \<times> nat \<times> node_id) set \<Rightarrow> err + bytes \<Rightarrow> nat \<Rightarrow> node_id \<Rightarrow> Disk RaftNode \<Rightarrow> bool" where
  "node_ok B cfile th n rn \<longleftrightarrow> member_node cfile th n rn \<and> calls_ok cfile n rn \<and> recalls B n (hs_of rn) \<and>
     (state rn = Candidate \<longrightarrow> backed B cfile n rn)"

definition proc_ok :: "(node_id \<times> nat \<times> node_id) set \<Rightarrow> err + bytes \<Rightarrow> nat \<Rightarrow> node_id \<Rightarrow> process \<Rightarrow> bool" where
  "proc_ok B cfile th n p \<longleftrightarrow> (\<forall>h. could_load (files p) h \<longrightarrow> recalls B n (hard_state h)) \<and>
     (case p of Down f \<Rightarrow> clean_fs f | Running a \<Rightarrow> node_ok B cfile th n (anode a))"

definition ballots_ok :: "(node_id \<times> nat \<times> node_id) set \<Rightarrow> err + bytes \<Rightarrow> bool" where
  "ballots_ok B cfile \<longleftrightarrow> (\<forall>v t c. (v, t, c) \<in> B \<longrightarrow> c \<in> set (members cfile)) \<and>
     (\<forall>v t c c'. (v, t, c) \<in> B \<and> (v, t, c') \<in> B \<longrightarrow> c = c')"

definition leaders_ok :: "(node_id \<times> nat \<times> node_id) set \<Rightarrow> err + bytes \<Rightarrow> (nat \<times> node_id) set \<Rightarrow> bool" where
  "leaders_ok B cfile L \<longleftrightarrow> (\<forall>t n. (t, n) \<in> L \<longrightarrow> (\<exists>Q. Q \<subseteq> set (members cfile) \<and> majority_size cfile \<le> card Q \<and>
     (\<forall>v \<in> Q. (v, t, n) \<in> B)))"

definition messages_ok :: "err + bytes \<Rightarrow> System \<Rightarrow> bool" where
  "messages_ok cfile s \<longleftrightarrow>
     (\<forall>(p, args) \<in> voteReqs s. rva_Term args < u64_size \<and> rva_CandidateID args \<in> set (members cfile)) \<and>
     (\<forall>(v, args, r) \<in> voteReps s. rvr_Term r < u64_size \<and>
        (rvr_VoteGranted r \<longrightarrow> (v, rva_Term args, rva_CandidateID args) \<in> ballots s)) \<and>
     (\<forall>(p, args) \<in> appendReqs s. aea_Term args < u64_size) \<and>
     (\<forall>(p, args, r) \<in> appendReps s. aer_Term r < u64_size) \<and>
     (\<forall>(n, p, t) \<in> snapTasks s. t < u64_size) \<and>
     (\<forall>(p, args) \<in> installReqs s. isa_Term args < u64_size) \<and>
     (\<forall>(p, args, r) \<in> installReps s. isr_Term r < u64_size)"

definition system_ok :: "err + bytes \<Rightarrow> nat \<Rightarrow> System \<Rightarrow> bool" where
  "system_ok cfile th s \<longleftrightarrow> (\<forall>n. proc_ok (ballots s) cfile th n (procs s n) \<and> leading n (procs s n) \<subseteq> leaders s) \<and>
     ballots_ok (ballots s) cfile \<and> leaders_ok (ballots s) cfile (leaders s) \<and> messages_ok cfile s"

section \<open>One process\<close>

lemma recalls_mono: "recalls B n h \<Longrightarrow> hs_le h h' \<Longrightarrow> ballots_ok B cfile \<Longrightarrow> recalls B n h'"
  unfolding recalls_def ballots_ok_def using remembers_mono members_ok(2) by metis

lemma left_recalls:
  assumes "daemon.left_by rn d" and "ballots_ok B cfile" and "recalls B n (hs_of rn)"
    and "\<And>h. could_load (fs (disk rn)) h \<Longrightarrow> recalls B n (hard_state h)"
  shows "clean_fs (fs d)" and "could_load (fs d) h \<Longrightarrow> recalls B n (hard_state h)"
  using assms recalls_mono [OF assms(3) _ assms(2)] by (auto simp: daemon.left_by_def wf_disk_def)

lemma hs_le_term: "hs_le (hs_of rn) (hs_of rn') \<Longrightarrow> currentTerm rn \<le> currentTerm rn'"
  by (auto simp: hs_le_def hs_of_def)

lemma node_ok_quiet:
  assumes ok: "node_ok B cfile th n rn" and b: "ballots_ok B cfile"
    and f: "daemon.follows n (others cfile n) th rn rn'" and q: "quiet rn rn'"
  shows "node_ok B cfile th n rn'"
proof -
  have i: "daemon.intact n (others cfile n) th rn'" and le: "hs_le (hs_of rn) (hs_of rn')"
    using f by (simp_all add: daemon.follows_def)
  have "member_node cfile th n rn'" using ok q i by (auto simp: node_ok_def member_node_def quiet_def)
  moreover have "calls_ok cfile n rn'"
    using ok q hs_le_term [OF le] by (fastforce simp: node_ok_def calls_ok_def quiet_def)
  moreover have "recalls B n (hs_of rn')" using recalls_mono [OF _ le b] ok by (simp add: node_ok_def)
  moreover have "backed B cfile n rn'" if "state rn' = Candidate"
  proof -
    have s: "state rn = Candidate" "currentTerm rn' = currentTerm rn" "votes rn' = votes rn" "voteCalls rn' = voteCalls rn"
      using q that by (auto simp: quiet_def)
    then have "awaited rn' = awaited rn" by (simp add: awaited_def)
    then show ?thesis using ok s by (simp add: node_ok_def backed_def)
  qed
  ultimately show ?thesis by (simp add: node_ok_def)
qed

text \<open>A running process and the disk under it.\<close>

lemma proc_okD:
  assumes "proc_ok B cfile th n (Running a)"
  shows "node_ok B cfile th n (anode a)" and "could_load (fs (disk (anode a))) h \<Longrightarrow> recalls B n (hard_state h)"
    and "daemon.intact n (others cfile n) th (anode a)" and "recalls B n (hs_of (anode a))"
  using assms by (auto simp: proc_ok_def node_ok_def member_node_def)

lemma left_proc_ok:
  assumes "proc_ok B cfile th n (Running a)" and "ballots_ok B cfile" and "daemon.left_by (anode a) d"
  shows "proc_ok B cfile th n (Down (fs d))"
  using left_recalls [OF assms(3,2) proc_okD(4,2) [OF assms(1)]] by (simp add: proc_ok_def)

lemma running_proc_ok:
  assumes p: "proc_ok B cfile th n (Running a)" and b: "ballots_ok B cfile"
    and l: "daemon.left_by (anode a) (disk (anode a'))" and k: "node_ok B cfile th n (anode a')"
  shows "proc_ok B cfile th n (Running a')"
  using left_recalls(2) [OF l b proc_okD(4,2) [OF p]] k by (simp add: proc_ok_def)

lemma follows_proc_ok:
  assumes p: "proc_ok B cfile th n (Running a)" and b: "ballots_ok B cfile"
    and f: "daemon.follows n (others cfile n) th (anode a) (anode a')" and q: "quiet (anode a) (anode a')"
  shows "proc_ok B cfile th n (Running a')"
  using running_proc_ok [OF p b _ node_ok_quiet [OF proc_okD(1) [OF p] b f q]] f by (simp add: daemon.follows_def)

lemma keeps_proc_ok:
  assumes "proc_ok B cfile th n (Running a)" and "ballots_ok B cfile"
    and "daemon.keeps n (others cfile n) th (anode a) m"
  shows "proc_ok B cfile th n (after a m)"
proof (cases m)
  case (Inl x)
  then show ?thesis using assms(3) left_proc_ok [OF assms(1,2)] by (cases x) (auto simp: after_def daemon.keeps_def)
next
  case (Inr rn)
  then show ?thesis
    using assms(3) follows_proc_ok [OF assms(1,2), of "a\<lparr>anode := rn\<rparr>"] by (auto simp: after_def daemon.keeps_def)
qed

lemma backed_more: "backed B cfile n rn \<Longrightarrow> B \<subseteq> B' \<Longrightarrow> backed B' cfile n rn"
  unfolding backed_def by blast

lemma ballots_other:
  assumes "proc_ok B cfile th n p" and "B \<subseteq> B'" and "\<And>t c. (n, t, c) \<in> B' \<Longrightarrow> (n, t, c) \<in> B"
  shows "proc_ok B' cfile th n p"
proof -
  have "recalls B' n h = recalls B n h" for h using assms(2,3) unfolding recalls_def by blast
  then show ?thesis
    using assms(1) backed_more [OF _ assms(2)] by (auto simp: proc_ok_def node_ok_def split: process.splits)
qed

text \<open>A vote for \<open>c\<close> in the current term that the disk holds for certain.\<close>

lemma ballots_new:
  assumes b: "ballots_ok B cfile" and k: "member_node cfile th n (anode a)" "calls_ok cfile n (anode a)" "recalls B n (hs_of (anode a))"
    and m: "daemon.only_memory (anode a)" and v: "votedFor (anode a) = c" and c: "c \<in> set (members cfile)"
  defines "B' \<equiv> insert (n, currentTerm (anode a), c) B"
  assumes cand: "state (anode a) = Candidate \<Longrightarrow> backed B' cfile n (anode a)"
  shows "ballots_ok B' cfile" and "proc_ok B' cfile th n (Running a)"
proof -
  have mem: "remembers (hs_of (anode a)) (currentTerm (anode a)) x \<longleftrightarrow> x = c" for x
    using v by (auto simp: remembers_def hs_of_def)
  have u: "x = c" if "(n, currentTerm (anode a), x) \<in> B" for x using k(3) that mem by (auto simp: recalls_def)
  show "ballots_ok B' cfile" using b c u by (auto simp: ballots_ok_def B'_def)
  have r': "recalls B' n (hs_of (anode a))" using k(3) mem by (auto simp: recalls_def B'_def)
  moreover have "recalls B' n (hard_state h)" if "could_load (fs (disk (anode a))) h" for h
    using m that r' by (auto simp: daemon.only_memory_def hard_state_def)
  ultimately show "proc_ok B' cfile th n (Running a)" using k cand by (simp add: proc_ok_def node_ok_def)
qed

lemma campaign_ok:
  assumes k: "node_ok B cfile th n rn" and b: "ballots_ok B cfile"
    and f: "daemon.follows n (others cfile n) th rn rn'" and c: "campaigns rn rn'"
  shows "member_node cfile th n rn'" and "calls_ok cfile n rn'" and "recalls B n (hs_of rn')"
    and "state rn' = Candidate \<Longrightarrow> backed (insert (n, currentTerm rn', n) B) cfile n rn'"
proof -
  have i: "daemon.intact n (others cfile n) th rn'" and le: "hs_le (hs_of rn) (hs_of rn')"
    using f by (simp_all add: daemon.follows_def)
  have m: "peers rn = others cfile n" "node_id rn = n" "calls_ok cfile n rn"
    using k by (simp_all add: node_ok_def member_node_def)
  show "member_node cfile th n rn'" using k c i by (simp add: node_ok_def member_node_def campaigns_def)
  show "recalls B n (hs_of rn')" using recalls_mono [OF _ le b] k by (simp add: node_ok_def)
  show "calls_ok cfile n rn'" using c m by (fastforce simp: calls_ok_def campaigns_def)
  show "backed (insert (n, currentTerm rn', n) B) cfile n rn'" if cand: "state rn' = Candidate"
  proof -
    obtain args where v: "voteCalls rn' =
        map (\<lambda>p. \<lparr>vc_term = Suc (currentTerm rn), vc_peer = p, vc_args = args\<rparr>) (peers rn) @ voteCalls rn"
      using c cand by (auto simp: campaigns_def)
    have "filter (\<lambda>v. vc_term v = Suc (currentTerm rn)) (voteCalls rn) = []"
      using m(3) by (auto simp: calls_ok_def filter_empty_conv)
    then have "awaited rn' = peers rn" using c v by (simp add: awaited_def campaigns_def filter_map comp_def)
    then show ?thesis
      using m(1) c others_ok(1) [of cfile n] by (auto simp: backed_def campaigns_def intro!: exI [of _ "{}"])
  qed
qed

text \<open>A call that is answered or given up leaves the others awaited.\<close>

lemma awaited_drop:
  fixes rn :: "Disk RaftNode"
  defines "dropped v \<equiv> rn\<lparr>voteCalls := remove1 v (voteCalls rn)\<rparr>"
  assumes "distinct (awaited rn)" and "v \<in> set (voteCalls rn)"
  shows "distinct (awaited (dropped v))" and "set (awaited (dropped v)) \<subseteq> set (awaited rn)"
    and "vc_term v = currentTerm rn \<Longrightarrow> vc_peer v \<in> set (awaited rn) \<and> vc_peer v \<notin> set (awaited (dropped v))"
proof -
  let ?P = "\<lambda>v. vc_term v = currentTerm rn"
  let ?ys = "filter ?P (voteCalls rn)"
  have a: "awaited (dropped v) = map vc_peer (remove1 v ?ys)" by (simp add: awaited_def dropped_def filter_remove1)
  have d: "distinct (map vc_peer ?ys)" using assms(2) by (simp add: awaited_def)
  have s: "set (remove1 v ?ys) = set ?ys - {v}" using d by (simp add: distinct_map set_remove1_eq)
  show "distinct (awaited (dropped v))"
    unfolding a using d s by (auto simp: distinct_map distinct_remove1 inj_on_def)
  show "set (awaited (dropped v)) \<subseteq> set (awaited rn)" unfolding a using s by (auto simp: awaited_def)
  show "vc_peer v \<in> set (awaited rn) \<and> vc_peer v \<notin> set (awaited (dropped v))" if "?P v"
    unfolding a set_map s using d assms(3) that by (auto simp: awaited_def distinct_map inj_on_def)
qed

lemma drop_ok:
  assumes k: "node_ok B cfile th n rn" and v: "v \<in> set (voteCalls rn)"
  shows "node_ok B cfile th n (rn\<lparr>voteCalls := remove1 v (voteCalls rn)\<rparr>)"
proof -
  let ?r = "rn\<lparr>voteCalls := remove1 v (voteCalls rn)\<rparr>"
  have "hs_of ?r = hs_of rn" by (simp add: hs_of_def)
  moreover have "backed B cfile n ?r" if bk: "backed B cfile n rn"
  proof -
    obtain G where "G \<subseteq> set (others cfile n)" "votes rn (currentTerm rn) = 1 + card G"
        "\<forall>p \<in> G. (p, currentTerm rn, n) \<in> B" "G \<inter> set (awaited rn) = {}" and d: "distinct (awaited rn)"
      using bk by (auto simp: backed_def)
    then show ?thesis
      using bk awaited_drop(1,2) [OF d v] unfolding backed_def by (intro conjI exI [of _ G]) auto
  qed
  moreover have "calls_ok cfile n ?r" using k set_remove1_subset [of v "voteCalls rn"] by (auto simp: node_ok_def calls_ok_def)
  ultimately show ?thesis using k by (auto simp: node_ok_def member_node_def daemon.intact_def)
qed

text \<open>Counting a vote that was cast.\<close>

lemma count_ok:
  assumes k: "node_ok B cfile th n rn" and b: "ballots_ok B cfile" and v: "v \<in> set (voteCalls rn)"
    and bal: "(vc_peer v, vc_term v, n) \<in> B"
    and f: "daemon.follows n (others cfile n) th (rn\<lparr>voteCalls := remove1 v (voteCalls rn)\<rparr>) rn'"
    and c: "counts (vc_term v) (rn\<lparr>voteCalls := remove1 v (voteCalls rn)\<rparr>) rn'"
  shows "member_node cfile th n rn' \<and> calls_ok cfile n rn' \<and> recalls B n (hs_of rn') \<and> backed B cfile n rn'"
proof -
  let ?r = "rn\<lparr>voteCalls := remove1 v (voteCalls rn)\<rparr>"
  note kr = drop_ok [OF k v]
  have i: "daemon.intact n (others cfile n) th rn'" and le: "hs_le (hs_of ?r) (hs_of rn')"
    using f by (simp_all add: daemon.follows_def)
  have t: "vc_term v = currentTerm rn" "state rn = Candidate" "currentTerm rn' = currentTerm rn"
      "voteCalls rn' = voteCalls ?r" "votes rn' (currentTerm rn) = Suc (votes rn (currentTerm rn))"
    using c by (auto simp: counts_def)
  have bk: "backed B cfile n rn" using k t by (simp add: node_ok_def)
  then obtain G where G: "G \<subseteq> set (others cfile n)" "votes rn (currentTerm rn) = 1 + card G"
      "\<forall>p \<in> G. (p, currentTerm rn, n) \<in> B" "G \<inter> set (awaited rn) = {}" and d: "distinct (awaited rn)"
    by (auto simp: backed_def)
  have aw: "awaited rn' = awaited ?r" using t by (simp add: awaited_def)
  note dr = awaited_drop [OF d v] and peer = awaited_drop(3) [OF d v t(1)]
  have p: "vc_peer v \<in> set (others cfile n)" using k v by (auto simp: node_ok_def calls_ok_def)
  have fin: "finite G" using G(1) finite_subset by blast
  have "backed B cfile n rn'"
    unfolding backed_def aw t(3)
  proof (intro conjI exI [of _ "insert (vc_peer v) G"])
    show "(n, currentTerm rn, n) \<in> B" using bk by (simp add: backed_def)
    have "vc_peer v \<notin> G" using G(4) peer by blast
    then show "votes rn' (currentTerm rn) = 1 + card (insert (vc_peer v) G)" using G(2) t(5) fin by simp
    show "insert (vc_peer v) G \<inter> set (awaited ?r) = {}" using G(4) dr(2) peer by auto
    show "\<forall>p \<in> insert (vc_peer v) G. (p, currentTerm rn, n) \<in> B" using G(3) bal t(1) by simp
  qed (use dr(1) G(1) p in simp_all)
  moreover have "member_node cfile th n rn'" using kr i c by (simp add: node_ok_def member_node_def counts_def)
  moreover have "calls_ok cfile n rn'" using kr t by (simp add: node_ok_def calls_ok_def)
  moreover have "recalls B n (hs_of rn')" using recalls_mono [OF _ le b] kr by (simp add: node_ok_def)
  ultimately show ?thesis by blast
qed

section \<open>Restarts\<close>

lemma NewFileStore_fails: "NewFileStore f = (f', Inl e) \<Longrightarrow> same_files f f'"
  unfolding NewFileStore_def openWAL_def fs_open_def
  by (auto split: prod.splits bool.splits option.splits if_splits elim!: sys_cases dest!: fs_noop_files
      intro: same_files_trans simp: add_file_def)

lemma findNode_ID: "findNode ns i = (self, True) \<Longrightarrow> Node_ID self = i \<and> self \<in> set ns"
  by (induction ns) (auto split: if_splits)

lemma bootNode_disk:
  assumes "bootNode clk listen th cl self ps clients d = (d', r)"
  shows "\<exists>r0. NewNode (daemonConfig (Node_ID self) (map Node_ID ps) th) d = (d', r0)"
proof -
  obtain d1 r0 where n: "NewNode (daemonConfig (Node_ID self) (map Node_ID ps) th) d = (d1, r0)" by fastforce
  have "\<not> started rn" if "r0 = Inr rn" for rn using NewNode_frame [OF n [unfolded that]] by simp
  then have "d' = d1"
    using assms n by (auto simp: bootNode_def Let_def SetStateMachine_def split: sum.splits if_splits prod.splits)
  then show ?thesis using n by blast
qed

text \<open>A failed start leaves a disk with nothing new on it.\<close>

lemma down_ok:
  assumes "proc_ok B cfile th n (Down f)" and "clean_fs f'" and "\<And>h. could_load f' h \<Longrightarrow> could_load f h"
  shows "proc_ok B cfile th n (Down f')"
  using assms by (simp add: proc_ok_def)

lemma crashed_ok:
  assumes "proc_ok B cfile th n (Down f)" and "crashed f f'"
  shows "proc_ok B cfile th n (Down f')"
  using assms(1)
proof (rule down_ok)
  show "clean_fs f'" using crashed_clean [OF assms(2)] assms(1) by (simp add: proc_ok_def)
  show "could_load f' h \<Longrightarrow> could_load f h" for h
    by (erule could_load_mono) (rule crashed_could_read [OF assms(2)])
qed

lemma boot_ok:
  assumes p: "proc_ok B cfile th n (Down f)"
  shows "proc_ok B cfile th n (booted (raftd_main dial listen clk n th cfile f)) \<and>
    leading n (booted (raftd_main dial listen clk n th cfile f)) = {}"
proof (cases "\<exists>cl self ps. n \<noteq> [] \<and> Load cfile = Inr cl \<and> cluster_Node cl n = (self, True) \<and> cluster_Peers cl (Node_ID self) = Inr ps")
  case False
  then have "\<exists>e. raftd_main dial listen clk n th cfile f = (f, Inl e)"
    by (auto simp: raftd_main_def split: sum.splits prod.splits bool.splits)
  then show ?thesis using p by (auto simp: booted_def leading_def)
next
  case True
  then obtain cl self ps where c: "n \<noteq> []" "Load cfile = Inr cl" "cluster_Node cl n = (self, True)"
      "cluster_Peers cl (Node_ID self) = Inr ps" by blast
  have self: "Node_ID self = n" "n \<in> set (members cfile)"
    using findNode_ID [of "Nodes cl" n self] c(2,3) by (auto simp: cluster_Node_def members_def)
  have ps: "map Node_ID ps = others cfile n"
    using c(2,4) self(1) by (auto simp: cluster_Peers_def others_def members_def filter_map comp_def split: if_splits)
  obtain f1 r1 where f1: "NewFileStore f = (f1, r1)" by fastforce
  show ?thesis
  proof (cases r1)
    case (Inl e)
    then have "booted (raftd_main dial listen clk n th cfile f) = Down f1"
      using c f1 by (simp add: raftd_main_def booted_def)
    then show ?thesis
      using crashed_ok [OF p, of f1] NewFileStore_fails f1 Inl by (auto simp: crashed_def leading_def)
  next
    case (Inr d)
    have cf: "clean_fs f" and rec: "\<And>h. could_load f h \<Longrightarrow> recalls B n (hard_state h)" using p by (simp_all add: proc_ok_def)
    have wd: "wf_disk d" using NewFileStore_ok(1) [OF cf f1 [unfolded Inr]] .
    have cd: "could_load f h" if "could_load (fs d) h" for h
      using that by (rule could_load_mono) (use NewFileStore_ok(2) [OF cf f1 [unfolded Inr]] in simp)
    have dd: "proc_ok B cfile th n (Down (fs d))" using down_ok [OF p _ cd] wd by (simp add: wf_disk_def)
    show ?thesis
    proof (cases "NewTransport dial (map (\<lambda>p. (Node_ID p, RaftAddr p)) ps) Map.empty")
      case (Inl e)
      then have "booted (raftd_main dial listen clk n th cfile f) = Down (fs d)"
        using c f1 \<open>r1 = Inr d\<close> by (simp add: raftd_main_def booted_def)
      then show ?thesis using dd by (simp add: leading_def)
    next
      case (Inr clients)
      obtain d' r where b: "bootNode clk listen th cl self ps clients d = (d', r)" by fastforce
      have e: "raftd_main dial listen clk n th cfile f = (fs d', r)"
        using c f1 \<open>r1 = Inr d\<close> Inr b by (simp add: raftd_main_def)
      obtain r0 where n: "NewNode (daemonConfig n (others cfile n) th) d = (d', r0)"
        using bootNode_disk [OF b] self ps by auto
      note k = daemon.NewNode_keeps [OF wd refl n]
      have d': "wf_disk d'" "\<And>h. could_load (fs d') h \<Longrightarrow> could_load (fs d) h" using k by blast+
      show ?thesis
      proof (cases r)
        case (Inl x)
        then show ?thesis
          using down_ok [OF dd _ d'(2)] d'(1) by (simp add: e booted_def leading_def wf_disk_def)
      next
        case (Inr dm)
        let ?rn = "anode (dm_applier dm)"
        obtain rn where rn: "NewNode (daemonConfig n (others cfile n) th) d = (d', Inr rn)"
            and st: "Start clk kvOps (NewServer NewStore (addrBook ClientAddr (Nodes cl))) (rn\<lparr>stateMachine := True\<rparr>) =
              (machine (dm_applier dm), Inr ?rn)"
          using bootNode_running [OF b [unfolded Inr]] self ps by auto
        note fr = NewNode_frame [OF rn] and fs = Start_frame [OF st]
        obtain h0 where i: "daemon.intact n (others cfile n) th rn" and h0: "could_load (fs d) h0" "hs_of rn = hard_state h0"
          using daemon.NewNode_keeps [OF wd refl rn, of None rn] by blast
        have h: "hs_of ?rn = hs_of rn" using fs by (simp add: hs_of_def)
        then have "daemon.intact n (others cfile n) th ?rn" using i fs by (simp add: daemon.intact_def)
        moreover have "node_id ?rn = n" "peers ?rn = others cfile n" "calls_ok cfile n ?rn" "state ?rn = Follower"
          using fr fs by (simp_all add: daemonConfig_def calls_ok_def)
        ultimately have "node_ok B cfile th n ?rn"
          using self(2) rec [OF cd [OF h0(1)]] h0(2) h by (simp add: node_ok_def member_node_def)
        moreover have "recalls B n (hard_state h)" if "could_load (fs (disk ?rn)) h" for h
          using that fr fs rec [OF cd [OF d'(2)]] by simp
        ultimately show ?thesis using Inr fr fs by (simp add: e booted_def proc_ok_def leading_def)
      qed
    qed
  qed
qed

section \<open>Terms on the network\<close>

lemma buildAll_terms: "buildAll t rn ps = Inr ms \<Longrightarrow> SendEntries p args \<in> set ms \<Longrightarrow> aea_Term args = t"
  by (induction ps arbitrary: ms)
    (auto simp: bind_res_Inr_iff buildOutbound_def Let_def split: if_splits)

lemma runReplication_terms:
  assumes "runReplication t w rn = Inr (ms, rn')" and "ms \<noteq> []"
  shows "currentTerm rn = t" and "SendEntries p args \<in> set ms \<Longrightarrow> aea_Term args = t"
  using assms buildAll_terms [of t rn "peers rn" ms p args]
  by (auto simp: runReplication_def replicationRound_def bind_res_Inr_iff split: if_splits option.splits)

section \<open>Steps\<close>

lemma system_okD:
  assumes "system_ok cfile th s" and "procs s n = Running a"
  shows "proc_ok (ballots s) cfile th n (Running a)" and "ballots_ok (ballots s) cfile"
    and "daemon.intact n (others cfile n) th (anode a)" and "node_ok (ballots s) cfile th n (anode a)"
    and "n \<in> set (members cfile)" and "node_id (anode a) = n"
proof -
  show p: "proc_ok (ballots s) cfile th n (Running a)" using assms by (metis system_ok_def)
  show "ballots_ok (ballots s) cfile" using assms(1) by (simp add: system_ok_def)
  show k: "node_ok (ballots s) cfile th n (anode a)" using proc_okD(1) [OF p] .
  show "daemon.intact n (others cfile n) th (anode a)" using proc_okD(3) [OF p] .
  show "n \<in> set (members cfile)" "node_id (anode a) = n" using k by (simp_all add: node_ok_def member_node_def)
qed

lemma messages_turns [simp]: "messages_ok cfile (turns n p s) = messages_ok cfile s"
  by (simp add: messages_ok_def turns_def)

lemma leaders_mono: "leaders_ok B cfile L \<Longrightarrow> L' \<subseteq> L \<Longrightarrow> B \<subseteq> B' \<Longrightarrow> leaders_ok B' cfile L'"
  unfolding leaders_ok_def by (meson subset_iff)

text \<open>A step of \<open>n\<close>, which may add votes of \<open>n\<close>, terms led by \<open>n\<close> and messages.\<close>

lemma step_okI:
  assumes ok: "system_ok cfile th s" and s': "procs s' = (procs s)(n := p)" "leaders s' = leaders s \<union> leading n p"
    and B: "ballots s \<subseteq> ballots s'" "\<And>m t c. m \<noteq> n \<Longrightarrow> (m, t, c) \<in> ballots s' \<Longrightarrow> (m, t, c) \<in> ballots s"
    and p: "proc_ok (ballots s') cfile th n p" and b: "ballots_ok (ballots s') cfile"
    and l: "leaders_ok (ballots s') cfile (leading n p)" and m: "messages_ok cfile s'"
  shows "system_ok cfile th s'"
proof -
  have "proc_ok (ballots s') cfile th k (procs s' k) \<and> leading k (procs s' k) \<subseteq> leaders s'" for k
  proof (cases "k = n")
    case False
    then have "proc_ok (ballots s) cfile th k (procs s k)" "leading k (procs s k) \<subseteq> leaders s"
      using ok by (simp_all add: system_ok_def)
    then show ?thesis using ballots_other [OF _ B(1) B(2) [OF False]] False s' by auto
  qed (use p s' in simp)
  moreover have "leaders_ok (ballots s) cfile (leaders s)" using ok by (simp add: system_ok_def)
  then have "leaders_ok (ballots s') cfile (leaders s)" using B(1) leaders_mono by blast
  then have "leaders_ok (ballots s') cfile (leaders s')" using l s'(2) by (simp add: leaders_ok_def)
  ultimately show ?thesis using b m by (simp add: system_ok_def)
qed

lemma leaders_old: "system_ok cfile th s \<Longrightarrow> L \<subseteq> leaders s \<Longrightarrow> ballots s \<subseteq> B \<Longrightarrow> leaders_ok B cfile L"
  by (auto simp: system_ok_def intro: leaders_mono)

lemma turns_ok:
  assumes ok: "system_ok cfile th s" and p: "proc_ok (ballots s) cfile th n p" and l: "leading n p \<subseteq> leaders s"
  shows "system_ok cfile th (turns n p s)"
  by (rule step_okI [OF ok, of _ n p])
    (use ok p leaders_old [OF ok l] in \<open>auto simp: turns_def system_ok_def messages_ok_def\<close>)

lemma quiet_leading:
  assumes "system_ok cfile th s" and "procs s n = Running a" and "quiet (anode a) (anode a')"
  shows "leading n (Running a') \<subseteq> leaders s"
proof -
  have "leading n (Running a) \<subseteq> leaders s" using assms(1,2) by (metis system_ok_def)
  then show ?thesis using assms(3) by (auto simp: leading_def quiet_def split: if_splits)
qed

lemma keeps_step:
  assumes ok: "system_ok cfile th s" and r: "procs s n = Running a"
    and k: "daemon.keeps n (others cfile n) th (anode a) m"
  shows "system_ok cfile th (turns n (after a m) s)"
proof (rule turns_ok [OF ok])
  show "proc_ok (ballots s) cfile th n (after a m)" by (rule keeps_proc_ok [OF system_okD(1,2) [OF ok r] k])
  show "leading n (after a m) \<subseteq> leaders s"
  proof (cases m)
    case (Inr rn)
    then show ?thesis using quiet_leading [OF ok r, of "a\<lparr>anode := rn\<rparr>"] k by (simp add: after_def daemon.keeps_def)
  qed (auto simp: after_def leading_def split: prod.splits)
qed

lemma follows_step:
  assumes ok: "system_ok cfile th s" and r: "procs s n = Running a"
    and f: "daemon.follows n (others cfile n) th (anode a) (anode a')" and q: "quiet (anode a) (anode a')"
  shows "system_ok cfile th (turns n (Running a') s)"
  using turns_ok [OF ok follows_proc_ok [OF system_okD(1,2) [OF ok r] f q] quiet_leading [OF ok r q]] .

lemma left_step:
  assumes ok: "system_ok cfile th s" and r: "procs s n = Running a" and l: "daemon.left_by (anode a) d"
  shows "system_ok cfile th (turns n (Down (fs d)) s)"
  by (rule turns_ok [OF ok left_proc_ok [OF system_okD(1,2) [OF ok r] l]]) (simp add: leading_def)

lemma vote_step_ok:
  assumes ok: "system_ok cfile th s" and r: "procs s n = Running a" and q: "(n, args) \<in> voteReqs s"
    and m: "m = HandleRequestVote clk args (anode a)"
  shows "system_ok cfile th ((turns n (after a (node_after m)) s)
      \<lparr>voteReps := voteReps s \<union> (\<lambda>r. (n, args, r)) ` result_of m,
       ballots := ballots s \<union> cast_vote n args (result_of m)\<rparr>)" (is "system_ok cfile th ?s'")
proof -
  note d = system_okD [OF ok r]
  have q': "rva_Term args < u64_size" "rva_CandidateID args \<in> set (members cfile)"
    using ok q by (auto simp: system_ok_def messages_ok_def)
  note h = daemon.HandleRequestVote_keeps [OF d(3) q'(1) votable_member [OF q'(2)], of clk, folded m]
  have t: "rvr_Term x < u64_size" if "x \<in> result_of m" for x
    using that daemon.HandleRequestVote_term [OF d(3) q'(1), of clk] by (auto simp: result_of_def m split: sum.splits)
  have "messages_ok cfile s" using ok by (simp add: system_ok_def)
  then have mo: "messages_ok cfile ?s'" using t by (fastforce simp: messages_ok_def turns_def cast_vote_def)
  show ?thesis
  proof (cases m)
    case (Inl x)
    obtain p0 d0 where x: "x = (p0, d0)" by (cases x)
    have l: "daemon.left_by (anode a) d0" using h Inl x by simp
    show ?thesis
      by (rule step_okI [OF ok, of _ n "Down (fs d0)"])
        (use mo d(2) left_proc_ok [OF d(1,2) l] in
          \<open>simp_all add: Inl x turns_def after_def result_of_def cast_vote_def leaders_ok_def leading_def\<close>)
  next
    case (Inr y)
    obtain reply rn' where y: "y = (reply, rn')" by (cases y)
    let ?a = "a\<lparr>anode := rn'\<rparr>"
    have f: "daemon.follows n (others cfile n) th (anode a) (anode ?a)" "quiet (anode a) (anode ?a)" "daemon.granted args reply rn'"
      using h Inr y by simp_all
    note p = follows_proc_ok [OF d(1,2) f(1,2)]
    have L: "leading n (Running ?a) \<subseteq> leaders s" by (rule quiet_leading [OF ok r f(2)])
    show ?thesis
    proof (cases "rvr_VoteGranted reply")
      case False
      then show ?thesis
        by (intro step_okI [OF ok, of _ n "Running ?a"])
          (use mo d(2) p leaders_old [OF ok L] in \<open>simp_all add: Inr y turns_def after_def result_of_def cast_vote_def\<close>)
    next
      case True
      have g: "daemon.only_memory rn'" "currentTerm rn' = rva_Term args" "votedFor rn' = rva_CandidateID args"
        using f(3) True by (simp_all add: daemon.granted_def)
      let ?B = "insert (n, rva_Term args, rva_CandidateID args) (ballots s)"
      have k: "node_ok (ballots s) cfile th n rn'" using proc_okD(1) [OF p] by simp
      have new: "ballots_ok ?B cfile" "proc_ok ?B cfile th n (Running ?a)"
        using ballots_new [of "ballots s" cfile th n ?a "rva_CandidateID args"] d(2) k g q'(2)
          backed_more [of "ballots s" cfile n rn', OF _ subset_insertI]
        by (simp_all add: node_ok_def)
      show ?thesis
        by (rule step_okI [OF ok, of _ n "Running ?a"])
          (use mo new leaders_old [OF ok L] True in
            \<open>auto simp: Inr y turns_def after_def result_of_def cast_vote_def\<close>)
    qed
  qed
qed

text \<open>Winning: the votes counted are the votes of a majority.\<close>

lemma backed_majority:
  assumes "backed B cfile n rn" and "n \<in> set (members cfile)" and "majority_size cfile \<le> votes rn (currentTerm rn)"
  shows "leaders_ok B cfile {(currentTerm rn, n)}"
proof -
  obtain G where G: "G \<subseteq> set (others cfile n)" "votes rn (currentTerm rn) = 1 + card G"
      "\<forall>p \<in> G. (p, currentTerm rn, n) \<in> B" and own: "(n, currentTerm rn, n) \<in> B"
    using assms(1) by (auto simp: backed_def)
  have n: "n \<notin> G" "finite G" using G(1) others_ok(2) [of cfile n] finite_subset [OF G(1)] by auto
  have "insert n G \<subseteq> set (members cfile)" using G(1) others_ok(2) [of cfile n] assms(2) by auto
  moreover have "majority_size cfile \<le> card (insert n G)" using n G(2) assms(3) by simp
  ultimately show ?thesis using G(3) own unfolding leaders_ok_def by (intro allI impI exI [of _ "insert n G"]) auto
qed

lemma tick_step_ok:
  assumes ok: "system_ok cfile th s" and r: "procs s n = Running a" and t: "currentTerm (anode a) + 1 < u64_size"
    and m: "m = runElectionTicker clk (anode a)"
  shows "system_ok cfile th ((turns n (after a m) s)
      \<lparr>voteReqs := voteReqs s \<union> asked m, ballots := ballots s \<union> own_vote n (anode a) m\<rparr>)" (is "system_ok cfile th ?s'")
proof -
  note d = system_okD [OF ok r]
  have mok: "messages_ok cfile s" using ok by (simp add: system_ok_def)
  note h = daemon.runElectionTicker_keeps [OF d(3) t votable_member, of cfile clk, folded m]
  have calls: "calls_ok cfile n rn' \<Longrightarrow> daemon.intact n (others cfile n) th rn' \<Longrightarrow> m = Inr rn' \<Longrightarrow> messages_ok cfile ?s'" for rn'
    using mok daemon.intact_term [of n "others cfile n" th rn'] d(5)
    by (fastforce simp: messages_ok_def turns_def asked_def calls_ok_def)
  show ?thesis
  proof (cases m)
    case (Inl x)
    obtain p0 d0 where x: "x = (p0, d0)" by (cases x)
    have l: "daemon.left_by (anode a) d0" using h Inl x d(5,6) by simp
    have "messages_ok cfile ?s'" using mok by (simp add: Inl asked_def own_vote_def messages_ok_def turns_def)
    then show ?thesis
      by (intro step_okI [OF ok, of _ n "Down (fs d0)"])
        (use d(2) left_proc_ok [OF d(1,2) l] in
          \<open>simp_all add: Inl x turns_def after_def own_vote_def leaders_ok_def leading_def\<close>)
  next
    case (Inr rn')
    let ?a = "a\<lparr>anode := rn'\<rparr>"
    have alt: "rn' = anode a \<or>
        daemon.follows n (others cfile n) th (anode a) rn' \<and> daemon.only_memory rn' \<and> campaigns (anode a) rn'"
      using h Inr d(5,6) by simp
    show ?thesis
    proof (cases "rn' = anode a")
      case True
      have "leading n (Running a) \<subseteq> leaders s" using ok r by (metis system_ok_def)
      moreover have "messages_ok cfile ?s'" using calls [OF _ _ Inr] d(3,4) True by (simp add: node_ok_def)
      ultimately show ?thesis
        using leaders_old [OF ok] d(1,2) True
        by (intro step_okI [OF ok, of _ n "Running a"]) (simp_all add: Inr turns_def after_def own_vote_def)
    next
      case False
      then have f: "daemon.follows n (others cfile n) th (anode a) rn'" "daemon.only_memory rn'" "campaigns (anode a) rn'"
        using alt by blast+
      let ?B = "insert (n, currentTerm rn', n) (ballots s)"
      note c = campaign_ok [OF d(4,2) f(1,3)]
      have v: "votedFor rn' = n" "currentTerm rn' \<noteq> currentTerm (anode a)" using f(3) d(6) by (auto simp: campaigns_def)
      have new: "ballots_ok ?B cfile" "proc_ok ?B cfile th n (Running ?a)"
        using ballots_new [of "ballots s" cfile th n ?a n] d(2,5) c f(2) v(1) by simp_all
      have "leaders_ok ?B cfile (leading n (Running ?a))"
      proof (cases "state rn' = Leader")
        case True
        then have "majority_size cfile \<le> 1"
          using f(3) quorum_majority [of n cfile "anode a"] d(4,5) by (simp add: campaigns_def node_ok_def member_node_def)
        then show ?thesis
          using d(5) True by (auto simp: leaders_ok_def leading_def intro!: exI [of _ "{n}"])
      qed (simp add: leaders_ok_def leading_def)
      moreover have "messages_ok cfile ?s'" using calls [OF c(2) _ Inr] f(1) by (simp add: daemon.follows_def)
      ultimately show ?thesis
        using new v(2)
        by (intro step_okI [OF ok, of _ n "Running ?a"]) (auto simp: Inr turns_def after_def own_vote_def)
    qed
  qed
qed

lemma vote_reply_step_ok:
  assumes ok: "system_ok cfile th s" and r: "procs s n = Running a" and v: "v \<in> set (voteCalls (anode a))"
    and q: "(vc_peer v, vc_args v, reply) \<in> voteReps s"
    and rn: "rn = (anode a)\<lparr>voteCalls := remove1 v (voteCalls (anode a))\<rparr>"
  shows "system_ok cfile th (turns n (after a (handleVoteReply clk (vc_term v) reply rn)) s)" (is "system_ok cfile th (turns n (after a ?m) s)")
proof -
  note d = system_okD [OF ok r]
  let ?a0 = "a\<lparr>anode := rn\<rparr>"
  have t: "rvr_Term reply < u64_size"
      "rvr_VoteGranted reply \<Longrightarrow> (vc_peer v, rva_Term (vc_args v), rva_CandidateID (vc_args v)) \<in> ballots s"
    using ok q by (auto simp: system_ok_def messages_ok_def)
  have cv: "rva_Term (vc_args v) = vc_term v" "rva_CandidateID (vc_args v) = n"
    using d(4) v by (auto simp: node_ok_def calls_ok_def)
  have k0: "node_ok (ballots s) cfile th n rn" using drop_ok [OF d(4) v] rn by simp
  have p0: "proc_ok (ballots s) cfile th n (Running ?a0)"
    using d(1) k0 by (simp add: proc_ok_def rn)
  have i0: "daemon.intact n (others cfile n) th rn" using proc_okD(3) [OF p0] by simp
  note h = daemon.handleVoteReply_keeps [OF i0 t(1), of "vc_term v" clk]
  have L: "leading n (Running a') \<subseteq> leaders s" if "quiet rn (anode a')" for a'
  proof -
    have "leading n (Running a) \<subseteq> leaders s" using ok r by (metis system_ok_def)
    then show ?thesis using that by (auto simp: leading_def quiet_def rn split: if_splits)
  qed
  show ?thesis
  proof (cases ?m)
    case (Inl x)
    then show ?thesis
      using turns_ok [OF ok left_proc_ok [OF p0 d(2)]] h by (cases x) (simp add: after_def leading_def)
  next
    case (Inr rn')
    let ?a = "a\<lparr>anode := rn'\<rparr>"
    have f: "daemon.follows n (others cfile n) th rn rn'"
      and alt: "quiet rn rn' \<or> rvr_VoteGranted reply \<and> counts (vc_term v) rn rn'"
      using h Inr by simp_all
    show ?thesis
    proof (cases "quiet rn rn'")
      case True
      then have "proc_ok (ballots s) cfile th n (Running ?a)"
        using follows_proc_ok [OF p0 d(2), of ?a] f by simp
      then show ?thesis using turns_ok [OF ok _ L [of ?a]] True Inr by (simp add: after_def)
    next
      case False
      then have c: "rvr_VoteGranted reply" "counts (vc_term v) rn rn'" using alt by blast+
      have bal: "(vc_peer v, vc_term v, n) \<in> ballots s" using t(2) c(1) cv by simp
      note k = count_ok [OF d(4,2) v bal f [unfolded rn] c(2) [unfolded rn]]
      have p: "proc_ok (ballots s) cfile th n (Running ?a)"
        using running_proc_ok [OF p0 d(2), of ?a] k f by (simp add: node_ok_def daemon.follows_def)
      have "leaders_ok (ballots s) cfile (leading n (Running ?a))"
      proof (cases "state rn' = Leader")
        case True
        then have "majority_size cfile \<le> votes rn' (currentTerm rn')"
          using c(2) quorum_majority [of n cfile rn] k0 d(5) by (auto simp: counts_def node_ok_def member_node_def)
        then show ?thesis using backed_majority [of "ballots s" cfile n rn'] k d(5) True by (simp add: leading_def)
      qed (simp add: leaders_ok_def leading_def)
      then show ?thesis
        using p d(2) ok
        by (intro step_okI [OF ok, of _ n "Running ?a"]) (simp_all add: Inr turns_def after_def system_ok_def messages_ok_def)
    qed
  qed
qed

lemma lost_step_ok:
  assumes ok: "system_ok cfile th s" and r: "procs s n = Running a" and v: "v \<in> set (voteCalls (anode a))"
    and rn: "rn = (anode a)\<lparr>voteCalls := remove1 v (voteCalls (anode a))\<rparr>"
  shows "system_ok cfile th (turns n (Running (a\<lparr>anode := rn\<rparr>)) s)"
proof (rule turns_ok [OF ok])
  note d = system_okD [OF ok r]
  show "proc_ok (ballots s) cfile th n (Running (a\<lparr>anode := rn\<rparr>))"
    using d(1) drop_ok [OF d(4) v] by (simp add: proc_ok_def rn)
  have "leading n (Running a) \<subseteq> leaders s" using ok r by (metis system_ok_def)
  then show "leading n (Running (a\<lparr>anode := rn\<rparr>)) \<subseteq> leaders s" by (simp add: leading_def rn split: if_splits)
qed

lemma apply_step_ok:
  assumes ok: "system_ok cfile th s" and r: "procs s n = Running a"
  shows "system_ok cfile th (turns n (applied a) s)"
proof -
  note k = daemon.applierStep_keeps [OF system_okD(3) [OF ok r], of kvOps]
  show ?thesis
  proof (cases "applierStep kvOps a")
    case (Inl x)
    then show ?thesis using k left_step [OF ok r] by (cases x) (simp add: applied_def daemon.keeps_def)
  next
    case (Inr a')
    then have f: "daemon.follows n (others cfile n) th (anode a) (anode a')" "quiet (anode a) (anode a')"
      using k by (simp_all add: daemon.keeps_def)
    then have "daemon.left_by (anode a) (disk (anode a'))" by (simp add: daemon.follows_def)
    then show ?thesis using follows_step [OF ok r f] left_step [OF ok r] by (simp add: applied_def Inr)
  qed
qed

text \<open>Steps that only touch the machine, or set \<open>stopped\<close>.\<close>

lemma same_node_step_ok:
  assumes ok: "system_ok cfile th s" and r: "procs s n = Running a" and a': "anode a' = anode a \<or> anode a' = Stop (anode a)"
  shows "system_ok cfile th (turns n (Running a') s)"
proof (rule follows_step [OF ok r])
  have f: "daemon.follows n (others cfile n) th (anode a) (anode a)"
    by (rule daemon.follows_refl [OF system_okD(3) [OF ok r]])
  show "daemon.follows n (others cfile n) th (anode a) (anode a')"
    by (rule daemon.follows_same [OF f]) (use a' in \<open>auto simp: Stop_def\<close>)
  show "quiet (anode a) (anode a')" using a' by (auto simp: Stop_def quiet_def)
qed

lemma propose_begin_keeps:
  assumes "daemon.intact n ps th rn"
  shows "daemon.keeps n ps th rn (node_after (propose_begin cmd rn))"
proof (cases "Encode cmd")
  case (Inl e)
  then show ?thesis using daemon.keeps_return [OF assms] by (simp add: propose_begin_def)
next
  case (Inr b)
  have "node_after (propose_begin cmd rn) = node_after (Propose b rn)"
    by (cases "Propose b rn") (auto simp: propose_begin_def Inr)
  then show ?thesis using daemon.Propose_keeps [OF assms] by simp
qed

text \<open>Putting messages on the network.\<close>

lemma more_messages:
  assumes "system_ok cfile th s" and "messages_ok cfile s'" and "procs s' = procs s" and "ballots s' = ballots s"
    and "leaders s' = leaders s"
  shows "system_ok cfile th s'"
  using assms by (simp add: system_ok_def)

lemma round_step_ok:
  assumes ok: "system_ok cfile th s" and r: "procs s n = Running a" and m: "m = runReplication t w (anode a)"
  shows "system_ok cfile th ((turns n (after a (node_after m)) s)
      \<lparr>appendReqs := appendReqs s \<union> entries_sent (result_of m),
       snapTasks := snapTasks s \<union> snapshots_due n t (result_of m)\<rparr>)" (is "system_ok cfile th ?s'")
proof (rule more_messages)
  note d = system_okD [OF ok r]
  show "system_ok cfile th (turns n (after a (node_after m)) s)"
    by (rule keeps_step [OF ok r]) (use daemon.runReplication_keeps [OF d(3)] m in simp)
  have T: "t < u64_size \<and> (SendEntries p args \<in> set ms \<longrightarrow> aea_Term args = t)"
    if "ms \<in> result_of m" "ms \<noteq> []" for ms p args
    using that runReplication_terms [of t w "anode a" ms] daemon.intact_term [OF d(3)]
    by (auto simp: result_of_def m split: sum.splits)
  have E: "aea_Term args < u64_size" if "(p, args) \<in> entries_sent (result_of m)" for p args
    using that T unfolding entries_sent_iff by (metis empty_iff empty_set)
  have D: "t' < u64_size" if "(n', p, t') \<in> snapshots_due n t (result_of m)" for n' p t'
    using that T unfolding snapshots_due_iff by (metis empty_iff empty_set)
  have "messages_ok cfile s" using ok by (simp add: system_ok_def)
  then show "messages_ok cfile ?s'" using E D by (fastforce simp: messages_ok_def turns_def)
qed (simp_all add: turns_def)

lemma append_step_ok:
  assumes ok: "system_ok cfile th s" and r: "procs s n = Running a" and q: "(n, args) \<in> appendReqs s"
    and m: "m = HandleAppendEntries clk args (anode a)"
  shows "system_ok cfile th ((turns n (after a (node_after m)) s)
      \<lparr>appendReps := appendReps s \<union> (\<lambda>r. (n, args, r)) ` result_of m\<rparr>)" (is "system_ok cfile th ?s'")
proof (rule more_messages)
  note d = system_okD [OF ok r]
  have t: "aea_Term args < u64_size" using ok q by (auto simp: system_ok_def messages_ok_def)
  show "system_ok cfile th (turns n (after a (node_after m)) s)"
    by (rule keeps_step [OF ok r]) (use daemon.HandleAppendEntries_keeps [OF d(3) t] m in simp)
  have T: "aer_Term x < u64_size" if "x \<in> result_of m" for x
    using that daemon.HandleAppendEntries_term [OF d(3) t, of clk] by (auto simp: result_of_def m split: sum.splits)
  have "messages_ok cfile s" using ok by (simp add: system_ok_def)
  then show "messages_ok cfile ?s'" using T by (fastforce simp: messages_ok_def turns_def)
qed (simp_all add: turns_def)

lemma install_step_ok:
  assumes ok: "system_ok cfile th s" and r: "procs s n = Running a" and q: "(n, args) \<in> installReqs s"
    and m: "m = HandleInstallSnapshot clk args (anode a)"
  shows "system_ok cfile th ((turns n (after a (node_after m)) s)
      \<lparr>installReps := installReps s \<union> (\<lambda>r. (n, args, r)) ` result_of m\<rparr>)" (is "system_ok cfile th ?s'")
proof (rule more_messages)
  note d = system_okD [OF ok r]
  have t: "isa_Term args < u64_size" using ok q by (auto simp: system_ok_def messages_ok_def)
  show "system_ok cfile th (turns n (after a (node_after m)) s)"
    by (rule keeps_step [OF ok r]) (use daemon.HandleInstallSnapshot_keeps [OF d(3) t] m in simp)
  have T: "isr_Term x < u64_size" if "x \<in> result_of m" for x
    using that daemon.HandleInstallSnapshot_term [OF d(3) t, of clk] by (auto simp: result_of_def m split: sum.splits)
  have "messages_ok cfile s" using ok by (simp add: system_ok_def)
  then show "messages_ok cfile ?s'" using T by (fastforce simp: messages_ok_def turns_def)
qed (simp_all add: turns_def)

lemma sendSnapshot_args_term: "sendSnapshot_args t rn = Inr (Some (snap, args)) \<Longrightarrow> isa_Term args = t"
  by (auto simp: sendSnapshot_args_def split: option.splits sum.splits)

section \<open>Every reachable state\<close>

lemma system_step_ok:
  assumes "system_step cfile th s s'" and ok: "system_ok cfile th s"
  shows "system_ok cfile th s'"
  using assms(1)
proof cases
  case (tick n a m clk)
  then show ?thesis using tick_step_ok [OF ok] by blast
next
  case (vote n a args m clk)
  then show ?thesis using vote_step_ok [OF ok] by blast
next
  case (vote_reply n a v reply rn clk)
  then show ?thesis using vote_reply_step_ok [OF ok] by blast
next
  case (vote_lost n a v rn)
  then show ?thesis using lost_step_ok [OF ok] by blast
next
  case (replicate_round n a t m w)
  then show ?thesis using round_step_ok [OF ok] by blast
next
  case (append n a args m clk)
  then show ?thesis using append_step_ok [OF ok] by blast
next
  case (append_reply n a peer args reply clk)
  have "aer_Term reply < u64_size" using ok append_reply(3) by (auto simp: system_ok_def messages_ok_def)
  then show ?thesis
    using keeps_step [OF ok append_reply(2) daemon.handleAppendEntriesReply_keeps [OF system_okD(3) [OF ok append_reply(2)]]]
      append_reply(1) by simp
next
  case (snapshot_none n a peer t p d)
  then show ?thesis using left_step [OF ok snapshot_none(2)] daemon.sendSnapshot_args_keeps [OF system_okD(3) [OF ok]] by blast
next
  case (snapshot_send n a peer t snap args)
  have "t < u64_size" using ok snapshot_send(3) by (auto simp: system_ok_def messages_ok_def)
  moreover have "messages_ok cfile s" using ok by (simp add: system_ok_def)
  ultimately have "messages_ok cfile s'"
    using sendSnapshot_args_term [OF snapshot_send(4)] snapshot_send(1) by (simp add: messages_ok_def)
  then show ?thesis using more_messages [OF ok] snapshot_send(1) by simp
next
  case (install n a args m clk)
  then show ?thesis using install_step_ok [OF ok] by blast
next
  case (install_reply n a peer t snap args reply clk)
  have "isr_Term reply < u64_size" using ok install_reply(4) by (auto simp: system_ok_def messages_ok_def)
  then show ?thesis
    using keeps_step [OF ok install_reply(2) daemon.sendSnapshot_reply_keeps [OF system_okD(3) [OF ok install_reply(2)]]]
      install_reply(1) by simp
next
  case (propose n a m cmd)
  have "system_ok cfile th (turns n (after a (node_after m)) s)"
    using keeps_step [OF ok propose(2) propose_begin_keeps [OF system_okD(3) [OF ok propose(2)]]] propose(3) by simp
  then show ?thesis
    using propose(1) by (auto intro!: more_messages simp: system_ok_def messages_ok_def)
next
  case (await n a i t ch)
  then show ?thesis using same_node_step_ok [OF ok await(2)] by simp
next
  case (cancel n a i t)
  then show ?thesis using same_node_step_ok [OF ok cancel(2)] by simp
next
  case (apply_step n a)
  then show ?thesis using apply_step_ok [OF ok] by blast
next
  case (stop n a)
  then show ?thesis using same_node_step_ok [OF ok stop(2)] by simp
next
  case (crash n a f)
  have "proc_ok (ballots s) cfile th n (Down (fs (disk (anode a))))"
    using left_proc_ok [OF system_okD(1,2) [OF ok crash(2)] daemon.left_by_refl [OF system_okD(3) [OF ok crash(2)]]] .
  then show ?thesis using turns_ok [OF ok crashed_ok] crash(1,3) by (simp add: leading_def)
next
  case (outage n f f')
  have "proc_ok (ballots s) cfile th n (Down f)" using ok outage(2) by (metis system_ok_def)
  then show ?thesis using turns_ok [OF ok crashed_ok] outage(1,3) by (simp add: leading_def)
next
  case (boot n f dial listen clk)
  have "proc_ok (ballots s) cfile th n (Down f)" using ok boot(2) by (metis system_ok_def)
  then show ?thesis using turns_ok [OF ok] boot_ok boot(1) by (metis empty_subsetI)
qed

lemma initSystem_ok: "system_ok cfile th (initSystem orc)"
proof -
  have "clean_fs (emptyFS x)" for x using wf_emptyFS [of x] by (simp add: clean_fs_def emptyFS_def)
  then show ?thesis
    by (simp add: system_ok_def initSystem_def proc_ok_def recalls_def ballots_ok_def leaders_ok_def messages_ok_def leading_def)
qed

lemma reachable_ok: "reachable cfile th s \<Longrightarrow> system_ok cfile th s"
  by (induction rule: reachable.induct) (simp_all add: initSystem_ok system_step_ok)

text \<open>Two majorities share a voter, and a voter has one vote in a term.\<close>

lemma ballots_unique: "ballots_ok B cfile \<Longrightarrow> (v, t, c) \<in> B \<Longrightarrow> (v, t, c') \<in> B \<Longrightarrow> c = c'"
  unfolding ballots_ok_def by metis

lemma leader_majority:
  assumes "leaders_ok B cfile L" and "(t, n) \<in> L"
  obtains Q where "Q \<subseteq> set (members cfile)" and "majority_size cfile \<le> card Q" and "\<And>v. v \<in> Q \<Longrightarrow> (v, t, n) \<in> B"
  using assms unfolding leaders_ok_def by metis

lemma one_leader:
  assumes "reachable cfile th s" and "(t, n) \<in> leaders s" and "(t, m) \<in> leaders s"
  shows "n = m"
proof -
  have ok: "ballots_ok (ballots s) cfile" "leaders_ok (ballots s) cfile (leaders s)"
    using reachable_ok [OF assms(1)] by (simp_all add: system_ok_def)
  obtain Q where Q: "Q \<subseteq> set (members cfile)" "majority_size cfile \<le> card Q" "\<And>v. v \<in> Q \<Longrightarrow> (v, t, n) \<in> ballots s"
    using leader_majority [OF ok(2) assms(2)] by metis
  obtain R where R: "R \<subseteq> set (members cfile)" "majority_size cfile \<le> card R" "\<And>v. v \<in> R \<Longrightarrow> (v, t, m) \<in> ballots s"
    using leader_majority [OF ok(2) assms(3)] by metis
  obtain v where v: "v \<in> Q" "v \<in> R" by (rule majority.quorums_share_member [OF Q(1) R(1) Q(2) R(2)])
  show ?thesis by (rule ballots_unique [OF ok(1) Q(3) [OF v(1)] R(3) [OF v(2)]])
qed

lemma leader_recorded:
  assumes "reachable cfile th s" and "procs s n = Running a" and "state (anode a) = Leader"
  shows "(currentTerm (anode a), n) \<in> leaders s"
proof -
  have "leading n (Running a) \<subseteq> leaders s" using reachable_ok [OF assms(1)] assms(2) by (metis system_ok_def)
  then show ?thesis using assms(3) by (simp add: leading_def)
qed

end
