(* ===== verification/Raft_Run.thy ===== *)
theory Raft_Run
  imports Raft_Cluster "HOL-Library.Code_Target_Numeral"
begin

text \<open>
  Executable runs of the cluster: a schedule is a list of actions, each performed when it is
  enabled and skipped otherwise, so that every state a schedule leads to is reachable. Calls to
  the file system succeed in these runs, except where the oracle given at the start says
  otherwise; every address can be listened on and dialled.
\<close>

datatype action =
    Boot node_id Clock
  | Kill node_id
  | Tick node_id Clock
  | DeliverVote node_id RequestVoteArgs Clock
  | AnswerVote node_id VoteCall RequestVoteReply Clock
  | Round node_id nat
  | DeliverAppend node_id AppendEntriesArgs Clock
  | AnswerAppend node_id node_id AppendEntriesArgs AppendEntriesReply Clock
  | Submit node_id KvCommand
  | ApplyStep node_id

definition anyClient :: "string \<Rightarrow> err + RaftClient" where
  "anyClient addr = Inr \<lparr>cl_RequestVote = (\<lambda>_. Inl []), cl_AppendEntries = (\<lambda>_. Inl []), cl_InstallSnapshot = (\<lambda>_. Inl [])\<rparr>"

fun perform :: "err + bytes \<Rightarrow> nat \<Rightarrow> action \<Rightarrow> System \<Rightarrow> System" where
  "perform cfile th (Boot n clk) s =
     (case procs s n of
        Down f \<Rightarrow> turns n (booted (raftd_main anyClient (\<lambda>_. True) clk n th cfile f)) s
      | Running a \<Rightarrow> s)"
| "perform cfile th (Kill n) s =
     (case procs s n of Running a \<Rightarrow> turns n (Down (fs (disk (anode a)))) s | Down f \<Rightarrow> s)"
| "perform cfile th (Tick n clk) s =
     (case procs s n of
        Running a \<Rightarrow>
          if currentTerm (anode a) + 1 < u64_size then
            (let m = runElectionTicker clk (anode a) in
             (turns n (after a m) s)\<lparr>voteReqs := voteReqs s \<union> asked m, ballots := ballots s \<union> own_vote n (anode a) m\<rparr>)
          else s
      | Down f \<Rightarrow> s)"
| "perform cfile th (DeliverVote n args clk) s =
     (case procs s n of
        Running a \<Rightarrow>
          if (n, args) \<in> voteReqs s then
            (let m = HandleRequestVote clk args (anode a) in
             (turns n (after a (node_after m)) s)
               \<lparr>voteReps := voteReps s \<union> (\<lambda>r. (n, args, r)) ` result_of m,
                ballots := ballots s \<union> cast_vote n args (result_of m)\<rparr>)
          else s
      | Down f \<Rightarrow> s)"
| "perform cfile th (AnswerVote n v reply clk) s =
     (case procs s n of
        Running a \<Rightarrow>
          if v \<in> set (voteCalls (anode a)) \<and> (vc_peer v, vc_args v, reply) \<in> voteReps s then
            turns n (after a (handleVoteReply clk (vc_term v) reply
              ((anode a)\<lparr>voteCalls := remove1 v (voteCalls (anode a))\<rparr>))) s
          else s
      | Down f \<Rightarrow> s)"
| "perform cfile th (Round n t) s =
     (case procs s n of
        Running a \<Rightarrow>
          if t \<in> set (replicators (anode a)) then
            (let m = runReplication t TickerC (anode a) in
             (turns n (after a (node_after m)) s)
               \<lparr>appendReqs := appendReqs s \<union> entries_sent (result_of m),
                snapTasks := snapTasks s \<union> snapshots_due n t (result_of m)\<rparr>)
          else s
      | Down f \<Rightarrow> s)"
| "perform cfile th (DeliverAppend n args clk) s =
     (case procs s n of
        Running a \<Rightarrow>
          if (n, args) \<in> appendReqs s then
            (let m = HandleAppendEntries clk args (anode a) in
             (turns n (after a (node_after m)) s)\<lparr>appendReps := appendReps s \<union> (\<lambda>r. (n, args, r)) ` result_of m\<rparr>)
          else s
      | Down f \<Rightarrow> s)"
| "perform cfile th (AnswerAppend n peer args reply clk) s =
     (case procs s n of
        Running a \<Rightarrow>
          if (peer, args, reply) \<in> appendReps s \<and> aea_LeaderID args = n then
            turns n (after a (handleAppendEntriesReply clk peer (aea_Term args) args reply (anode a))) s
          else s
      | Down f \<Rightarrow> s)"
| "perform cfile th (Submit n cmd) s =
     (case procs s n of
        Running a \<Rightarrow>
          (let m = propose_begin cmd (anode a) in
           (turns n (after a (node_after m)) s)
             \<lparr>proposals := proposals s \<union> accepted n (result_of m)\<rparr>)
      | Down f \<Rightarrow> s)"
| "perform cfile th (ApplyStep n) s =
     (case procs s n of Running a \<Rightarrow> turns n (applied a) s | Down f \<Rightarrow> s)"

fun run :: "err + bytes \<Rightarrow> nat \<Rightarrow> action list \<Rightarrow> System \<Rightarrow> System" where
  "run cfile th [] s = s"
| "run cfile th (x # xs) s = run cfile th xs (perform cfile th x s)"

lemma perform_reachable: "reachable cfile th s \<Longrightarrow> reachable cfile th (perform cfile th x s)"
proof (induction cfile th x s rule: perform.induct)
  case (2 cfile th n s)
  have "crashed f f" for f by (simp add: crashed_def same_files_def)
  then show ?case using 2 by (auto split: process.splits intro: reachable.step [OF _ system_step.crash])
next
  case (3 cfile th n clk s)
  then show ?case
    by (auto simp: Let_def split: process.splits intro: reachable.step [OF _ system_step.tick [folded Suc_eq_plus1]])
qed (auto simp: Let_def split: process.splits intro: reachable.step system_step.intros)

lemma run_reachable: "reachable cfile th s \<Longrightarrow> reachable cfile th (run cfile th xs s)"
  by (induction xs arbitrary: s) (simp_all add: perform_reachable)

end
