(* ===== verification/Cluster_Properties.thy ===== *)
theory Cluster_Properties
  imports Raft_Election_Safety Raft_Run
begin

text \<open>
  Properties of a whole cluster of daemons, over every run: crashes, power cuts, failing disks,
  restarts, and messages lost, repeated or reordered.
\<close>

section \<open>A run of three nodes\<close>

definition nodeJson :: "string \<Rightarrow> json" where
  "nodeJson n = JObj [(''id'', JStr (''n'' @ n)), (''raft_addr'', JStr (''r'' @ n)), (''client_addr'', JStr (''c'' @ n))]"

definition trioFile :: "err + bytes" where
  "trioFile = Inr (render (JObj [(''nodes'', JArr (map nodeJson [''1'', ''2'', ''3'']))]))"

definition early :: Clock where
  "early = \<lparr>now = 0, draw = 0\<rparr>"

definition late :: Clock where
  "late = \<lparr>now = 1000000000, draw = 0\<rparr>"

definition firstVote :: RequestVoteArgs where
  "firstVote = \<lparr>rva_Term = 1, rva_CandidateID = ''n1'', rva_LastLogIndex = 0, rva_LastLogTerm = 0\<rparr>"

definition electN1 :: "action list" where
  "electN1 = [Boot ''n1'' early, Boot ''n2'' early, Tick ''n1'' late, DeliverVote ''n2'' firstVote early,
     AnswerVote ''n1'' \<lparr>vc_term = 1, vc_peer = ''n2'', vc_args = firstVote\<rparr> \<lparr>rvr_Term = 1, rvr_VoteGranted = True\<rparr> late]"

definition trio :: System where
  "trio = run trioFile 0 electN1 (initSystem (\<lambda>_ _. None))"

lemma trio_reachable: "reachable trioFile 0 trio"
  unfolding trio_def by (intro run_reachable reachable.start)

lemma trio_elected: "(1, ''n1'') \<in> leaders trio \<and> (''n2'', 1, ''n1'') \<in> ballots trio"
  by code_simp

section \<open>Elections\<close>

text \<open>
  C1: Election safety. In every state the cluster can reach, no two nodes have ever led the same
  term, and every running leader is on record for its term; so two nodes that lead the same term,
  at the same or at different times, are the same node.
\<close>

theorem election_safety:
  assumes "reachable cfile th s"
  shows "(\<forall>t n m. (t, n) \<in> leaders s \<and> (t, m) \<in> leaders s \<longrightarrow> n = m) \<and>
    (\<forall>n a. procs s n = Running a \<and> state (anode a) = Leader \<longrightarrow> (currentTerm (anode a), n) \<in> leaders s)"
  using one_leader [OF assms] leader_recorded [OF assms] by blast

theorem election_safety_witness:
  "{n. (1, n) \<in> leaders trio} = {''n1''}"
  using election_safety [OF trio_reachable] trio_elected by blast

text \<open>
  C2: A vote is forever. Once a node has cast a vote in a term, by granting it or by standing
  itself, it never casts another in that term, and whatever its disk can be found to hold, now
  or after crashes, power cuts and failed writes, remembers the vote: the term is a later one,
  or it is the same one with the same candidate.
\<close>

theorem votes_survive:
  assumes "reachable cfile th s" and "(v, t, c) \<in> ballots s"
  shows "(\<forall>c'. (v, t, c') \<in> ballots s \<longrightarrow> c' = c) \<and>
    (\<forall>h. could_load (files (procs s v)) h \<longrightarrow> remembers (hard_state h) t c) \<and>
    (\<forall>a. procs s v = Running a \<longrightarrow> remembers (hs_of (anode a)) t c)"
proof -
  have ok: "proc_ok (ballots s) cfile th v (procs s v)" "ballots_ok (ballots s) cfile"
    using reachable_ok [OF assms(1)] by (simp_all add: system_ok_def)
  then show ?thesis
    using assms(2) by (auto simp: proc_ok_def recalls_def ballots_ok_def node_ok_def)
qed

theorem votes_survive_witness:
  "{c. (''n2'', 1, c) \<in> ballots trio} = {''n1''} \<and>
   {h. could_load (files (procs trio ''n2'')) h} \<subseteq> {h. remembers (hard_state h) 1 ''n1''}"
  using votes_survive [OF trio_reachable conjunct2 [OF trio_elected]] trio_elected by blast

section \<open>The daemon\<close>

lemma daemon_steps:
  assumes "raftd_main dial listen clk nid th file f = (f', Inr dm)"
  obtains cl self ps f1 d clients d' where "Load file = Inr cl" and "cluster_Node cl nid = (self, True)"
    and "cluster_Peers cl (Node_ID self) = Inr ps" and "NewFileStore f = (f1, Inr d)"
    and "NewTransport dial (map (\<lambda>p. (Node_ID p, RaftAddr p)) ps) Map.empty = Inr clients"
    and "bootNode clk listen th cl self ps clients d = (d', Inr dm)"
  using assms by (auto simp: raftd_main_def split: if_splits sum.splits prod.splits bool.splits)

lemma Start_server:
  assumes "Start clk kvOps s rn = (s', r)"
  shows "clientAddrs s' = clientAddrs s"
  using assms
  by (auto simp: Start_def kvOps_def server_Restore_def split: if_splits option.splits prod.splits sum.splits)

text \<open>
  C26: A daemon that comes up is configured by its file: it runs as the node it was started as, a
  follower whose peers are all the other nodes of the file, once each; the majority it counts to
  is the file's, and any two such majorities share a node. For every other
  node of the file it has a client, the one that dialling that node's Raft address gave, and its
  server redirects to the client address of every node of the cluster.
\<close>

theorem daemon_configured:
  assumes "raftd_main dial listen clk nid th file f = (f', Inr dm)"
  shows "\<exists>cl. Load file = Inr cl \<and> (let rn = anode (dm_applier dm) in
    node_id rn = nid \<and> state rn = Follower \<and> started rn \<and> nid \<in> Node_ID ` set (Nodes cl) \<and>
    distinct (peers rn) \<and> set (peers rn) = Node_ID ` set (Nodes cl) - {nid} \<and>
    quorum rn = QuorumSize cl \<and> length (Nodes cl) < 2 * quorum rn \<and>
    (\<forall>n \<in> set (Nodes cl). Node_ID n \<noteq> nid \<longrightarrow>
       (\<exists>c. dial (RaftAddr n) = Inr c \<and> dm_clients dm (Node_ID n) = Some c)) \<and>
    (\<forall>n \<in> set (Nodes cl). clientAddrs (machine (dm_applier dm)) (Node_ID n) = Some (ClientAddr n)))"
proof -
  obtain cl self ps f1 d clients d' where s: "Load file = Inr cl" "cluster_Node cl nid = (self, True)"
      "cluster_Peers cl (Node_ID self) = Inr ps" "NewFileStore f = (f1, Inr d)"
      "NewTransport dial (map (\<lambda>p. (Node_ID p, RaftAddr p)) ps) Map.empty = Inr clients"
      "bootNode clk listen th cl self ps clients d = (d', Inr dm)"
    by (rule daemon_steps [OF assms])
  have v: "valid_cluster cl" using s(1) Validate_ok by (auto simp: Load_def split: sum.splits option.splits)
  have self: "Node_ID self = nid" "nid \<in> Node_ID ` set (Nodes cl)"
    using findNode_ID [of "Nodes cl" nid self] s(2) by (auto simp: cluster_Node_def)
  obtain qs where "cluster_Peers cl nid = Inr qs" "distinct (map Node_ID qs)"
      "Node_ID ` set qs = Node_ID ` set (Nodes cl) - {nid}" "length qs + 1 = length (Nodes cl)"
    using Peers_spec [OF v self(2)] by blast
  then have ps: "distinct (map Node_ID ps)" "Node_ID ` set ps = Node_ID ` set (Nodes cl) - {nid}"
      "length ps + 1 = length (Nodes cl)"
    using s(3) self(1) by simp_all
  let ?a = "dm_applier dm"
  obtain rn where rn: "NewNode (daemonConfig (Node_ID self) (map Node_ID ps) th) d = (d', Inr rn)" "dm_clients dm = clients"
      "Start clk kvOps (NewServer NewStore (addrBook ClientAddr (Nodes cl))) (rn\<lparr>stateMachine := True\<rparr>) =
        (machine ?a, Inr (anode ?a))"
    using bootNode_running [OF s(6)] by blast
  have n: "node_id (anode ?a) = nid" "peers (anode ?a) = map Node_ID ps" "state (anode ?a) = Follower" "started (anode ?a)"
    using NewNode_frame [OF rn(1)] Start_frame [OF rn(3)] self(1) by (simp_all add: daemonConfig_def)
  have "\<exists>c. dial (RaftAddr p) = Inr c \<and> dm_clients dm (Node_ID p) = Some c"
    if "p \<in> set (Nodes cl)" "Node_ID p \<noteq> nid" for p
  proof -
    have "p \<in> set ps" using s(3) self(1) that by (auto simp: cluster_Peers_def split: if_splits)
    then show ?thesis
      using NewTransport_clients [OF s(5), of "Node_ID p" "RaftAddr p"] ps(1) rn(2) by (auto simp: comp_def)
  qed
  moreover have "clientAddrs (machine ?a) (Node_ID x) = Some (ClientAddr x)" if "x \<in> set (Nodes cl)" for x
    using Start_server [OF rn(3)] addrBook_lookup [of "Nodes cl" x ClientAddr] v that
    by (simp add: NewServer_def valid_cluster_def)
  moreover have "quorum (anode ?a) = QuorumSize cl" "length (Nodes cl) < 2 * QuorumSize cl"
    using n(2) ps(3) by (simp_all add: quorum_def QuorumSize_def)
  ultimately show ?thesis
    using s(1) self(2) n ps(1,2) by (intro exI [of _ cl]) (simp add: Let_def)
qed

definition bootN1 :: "FS \<times> (daemon_error + Daemon)" where
  "bootN1 = raftd_main anyClient (\<lambda>_. True) early ''n1'' 0 trioFile (emptyFS (\<lambda>_. None))"

theorem daemon_configured_witness:
  "\<exists>dm. snd bootN1 = Inr dm \<and> quorum (anode (dm_applier dm)) = 2 \<and> set (peers (anode (dm_applier dm))) = {''n2'', ''n3''}"
proof -
  have "isOk (snd bootN1)" by code_simp
  then obtain dm where r: "snd bootN1 = Inr dm" by (auto simp: isOk_iff)
  then have dm: "bootN1 = (fst bootN1, Inr dm)" by (metis prod.collapse)
  have "map_option (map Node_ID) (case Load trioFile of Inl _ \<Rightarrow> None | Inr cl \<Rightarrow> Some (Nodes cl)) = Some [''n1'', ''n2'', ''n3'']"
    by code_simp
  then obtain cl where cl: "Load trioFile = Inr cl" "map Node_ID (Nodes cl) = [''n1'', ''n2'', ''n3'']"
    by (auto split: sum.splits)
  have "length (Nodes cl) = 3" "Node_ID ` set (Nodes cl) = {''n1'', ''n2'', ''n3''}"
    using arg_cong [OF cl(2), of length] arg_cong [OF cl(2), of set] by simp_all
  then show ?thesis
    using daemon_configured [OF dm [unfolded bootN1_def]] cl(1) r
    by (intro exI [of _ dm]) (auto simp: Let_def QuorumSize_def)
qed

end
