(* ===== verification/Spec2Isabelle.thy ===== *)
theory Spec2Isabelle
  imports Raft_Properties Kv_Properties Storage_Properties System_Properties Cluster_Properties
begin

text \<open>
  \<^bold>\<open>RaftDB\<close>, a replicated key-value store written in Go: the Raft protocol (\<^verbatim>\<open>src/raft\<close>), a
  file-backed store for its state (\<^verbatim>\<open>src/storage\<close>), a key-value server on top of it (\<^verbatim>\<open>src/kv\<close>),
  the static cluster configuration (\<^verbatim>\<open>src/config\<close>), the gRPC boundary (\<^verbatim>\<open>src/rpc\<close>), the daemon
  and the command line client (\<^verbatim>\<open>src/cmd\<close>).

  \<^bold>\<open>How the parts interact.\<close> \<open>raftd\<close> loads the configuration, opens a \<open>FileStore\<close>, recovers a
  \<open>RaftNode\<close> from it, wires the key-value server to it as state machine, and starts it. The node
  runs an election ticker, one replication loop per term it leads, goroutines that wait for
  replies, and an applier that hands committed entries to the server; all of them work under the
  node's lock. A request of a client becomes a log entry by \<open>Propose\<close> and is answered when the
  applier reaches its index. \<open>raftctl\<close> follows redirects until a leader answers.

  \<^bold>\<open>Modelling.\<close> A struct is a record, a critical section is a function on the node, a goroutine is
  a value that says what it waits for. \<open>uint64\<close> values are naturals with the wrap-around written
  out (\<open>u64_add\<close>, \<open>u64_sub\<close> of \<open>Prelude\<close>); CRC sums are 32-bit words. Every index is checked as Go
  checks it, so a panic is a value: \<open>('d, 'a) outcome\<close> is a result or a panic with the disk it
  leaves. Errors are values of the error type of their package. Storage interfaces are records of
  functions on a disk type, as the Go interfaces hide theirs. Clocks, random draws, I/O faults and
  network outcomes are inputs.

  \<^bold>\<open>The theories and the code.\<close>

  \<^item> \<open>Prelude\<close>: 64-bit arithmetic, results, checked slices, and quorums (locale
    \<open>quorum_system\<close>, interpreted on the majorities of a member list).
  \<^item> \<open>Raft_Types\<close>, \<open>Raft_Node\<close>: the data of \<^verbatim>\<open>raft/types.go\<close> and \<^verbatim>\<open>raft/node.go\<close>, access to the log,
    durable mutations, recovery (\<open>NewNode\<close>), \<open>Start\<close>, \<open>Stop\<close>, \<open>Status\<close>.
  \<^item> \<open>Raft_Handlers\<close> (\<^verbatim>\<open>raft/handlers.go\<close>), \<open>Raft_Election\<close> (\<^verbatim>\<open>raft/election.go\<close>),
    \<open>Raft_Replication\<close> and \<open>Raft_Applier\<close> (\<^verbatim>\<open>raft/replication.go\<close>): one definition per critical
    section. The applier is cut where it gives the lock up.
  \<^item> \<open>Raft_Invariant\<close>, \<open>Raft_Leader\<close>, \<open>Raft_Applier_Laws\<close>, \<open>Raft_Recovery\<close>: the well-formedness
    of a node, its preservation by every operation, the applier against an abstract state machine
    (locale \<open>state_machine\<close>), what recovery makes of the stores. \<open>Raft_Properties\<close> states the
    results for one node.
  \<^item> \<open>Go_Json\<close>, \<open>Go_Json_Laws\<close>: \<open>encoding/json\<close> and base64 as far as the program uses them, with
    the round trips and the validity of decoded strings.
  \<^item> \<open>Kv\<close> (\<^verbatim>\<open>kv/kv.go\<close>, \<^verbatim>\<open>kv/store.go\<close>, \<^verbatim>\<open>kv/server.go\<close>), \<open>Kv_Laws\<close>, \<open>Kv_Properties\<close>: commands, the
    store, the server with its waiters; the interpretation of \<open>state_machine\<close> on the server.
  \<^item> \<open>File_System\<close>: the system calls under one directory, with an oracle that lets any call fail,
    one that says which files cannot be read, and \<open>power_loss\<close> for what a cut may leave. A read of
    \<open>n\<close> bytes by \<open>io.ReadFull\<close> is one call. \<open>Storage\<close> (\<^verbatim>\<open>storage/storage.go\<close>,
    \<^verbatim>\<open>storage/snapshot.go\<close>, \<^verbatim>\<open>storage/wal.go\<close>) is written on it; \<open>Storage_Laws\<close> has the encodings,
    \<open>Storage_Atomic\<close> the atomic replacement of a file, \<open>Storage_Disk\<close> the invariant of the store,
    \<open>Storage_Wal\<close> the write-ahead log as a list of entries: the contract of a log store (locale
    \<open>durable_log\<close>), its interpretation on the operations of \<^verbatim>\<open>wal.go\<close>, sizes of records and the
    length of a replay. \<open>Storage_Properties\<close> states the results.
  \<^item> \<open>Rpc\<close> (\<^verbatim>\<open>rpc/server.go\<close>, \<^verbatim>\<open>rpc/transport.go\<close>), \<open>Cluster_Config\<close> (\<^verbatim>\<open>config/config.go\<close>), \<open>Raftd\<close>
    and \<open>Raftctl\<close> (\<^verbatim>\<open>cmd\<close>), with \<open>System_Properties\<close>.
  \<^item> \<open>Raft_Stores\<close>: the contract of a node with its stores (locale \<open>durable_votes\<close>) and what each
    operation of a node does to its hard state under it. \<open>Raft_Durable\<close> interprets it on the file
    store as \<open>raftd\<close> configures it.
  \<^item> \<open>Raft_Cluster\<close>: a cluster of daemons as a step relation over processes and messages, with
    crashes, power cuts and restarts through \<open>raftd_main\<close>. \<open>Raft_Election_Safety\<close> has its
    invariant, \<open>Raft_Run\<close> executable schedules, \<open>Cluster_Properties\<close> the results.

  \<^bold>\<open>What is shown.\<close> For a cluster: no term has two leaders, and a vote once cast survives
  everything the disk can go through. For one node: every handler does what the protocol asks on
  every branch, keeps the node well formed, and panics only when a store fails; the commit rule,
  the back-off after a rejection, elections and recovery are exact. For the server: its map is the
  fold of the committed history, requests are answered at most once and truthfully; two races are
  shown to exist. For the store: the two state files are replaced atomically and
  load again after any failure and power cut, the log recovered after any operations, failures and
  power cuts is the effect of the completed ones and a part of the one that failed, a node
  recovered from whatever bytes is well formed, and loading takes a bounded number of calls. Three ways to lose entries are shown: a command
  over the record size, a read error at a restart, and a log file whose directory entry is not
  synced. For the configuration, the daemon, the RPC boundary and the client: acceptance exactly
  of valid input, nodes wired as the file says, election timeouts within their bounds,
  transparency of the calls down to the state of the peer, what the retry loop does with every
  iteration before its deadline, and a truthful exit status. A
  snapshot that is installed while the applier works on a batch is shown to make it panic.

  \<^bold>\<open>What the log contract leaves open.\<close> After a power cut, or from a store that held its log, a
  restart holds the log it finds for good. After a failed write and a restart without a power cut
  the entries found may be in the page cache only, since \<open>LoadEntries\<close> does not sync them; the
  contract does not claim them durable.

  \<^bold>\<open>Bounds and termination.\<close> All functions are total; the scans and the replay loop have
  termination proofs and there is no fuel except in the JSON parser, which gets the length of its
  input. The loop of \<open>raftctl\<close> runs until its context is done, which time decides: the list of
  iterations it has until then is an input, so that the loop ends is assumed and not shown.
  Theorems on a node assume that its indexes stay below \<open>2 ^ 64\<close>; in the cluster the election timer
  does not fire in term \<open>2 ^ 64 - 1\<close>. After a record with index \<open>2 ^ 64 - 1\<close> the order check of the
  log's replay lets any index through, as in the code; recovery then refuses the log.

  \<^bold>\<open>Not modelled.\<close> The generated protobuf and gRPC code (the messages are records of \<open>Rpc\<close>), TCP and
  dialling (parameters of \<open>raftd_main\<close>, and the delivery of messages in \<open>Raft_Cluster\<close>), logging
  and error texts, the test cluster, scripts and build files. Deadlines of calls are
  inputs: a call that times out is one whose reply never arrives. A byte slice is a list, so a nil
  slice and an empty one are not told apart; a snapshot with empty data counts as one without.
\<close>

end
